(* ===== verification/Barrage_Prelude.thy ===== *)
theory Barrage_Prelude
  imports Main "HOL-Library.Word" "HOL-Library.AList" "HOL-Library.Sublist"
begin

text \<open>
  Types and generic facts shared by every component of the barrage model: the Go integer types as
  words, byte slices and strings, association lists standing for Go maps that are iterated over,
  big-endian integers, decimal formatting and the string functions of the Go standard library
  that the program calls.
\<close>

unbundle bit_operations_syntax

named_theorems go_simps "equations of the Go standard library functions the model uses"

section \<open>Go's machine types\<close>

type_synonym byte = "8 word"
type_synonym bytes = "8 word list"
type_synonym uint16 = "16 word"
type_synonym uint32 = "32 word"
type_synonym uint64 = "64 word"
type_synonym int32 = "32 word"
type_synonym int64 = "64 word"

text \<open>
  \<open>int32\<close> and \<open>int64\<close> are read in two's complement, as Go does: the sign tests below are those of
  the code's \<open>x <= 0\<close> and \<open>x > 0\<close>.
\<close>

abbreviation positive :: "'a::len word \<Rightarrow> bool" where
  "positive x \<equiv> 0 < sint x"

text \<open>Go's \<open>%\<close> truncates towards zero: the result has the sign of the dividend.\<close>

definition go_rem :: "int \<Rightarrow> int \<Rightarrow> int" where
  "go_rem a b = (if a < 0 then - (\<bar>a\<bar> mod \<bar>b\<bar>) else \<bar>a\<bar> mod \<bar>b\<bar>)"

lemma go_rem_nonneg [simp]: "0 \<le> a \<Longrightarrow> 0 < b \<Longrightarrow> go_rem a b = a mod b"
  by (simp add: go_rem_def)

lemma go_rem_2_eq_1: "go_rem a 2 = 1 \<longleftrightarrow> 0 \<le> a \<and> odd a"
  by (auto simp: go_rem_def odd_iff_mod_2_eq_one)

text \<open>Small naturals survive the conversion to a word.\<close>

lemma unat_of_nat_small: "k < 2 ^ LENGTH('a) \<Longrightarrow> unat (of_nat k :: 'a::len word) = k"
  by (simp add: unat_of_nat)

lemma of_nat_word_inject_small:
  "j < 2 ^ LENGTH('a) \<Longrightarrow> k < 2 ^ LENGTH('a) \<Longrightarrow> (of_nat j :: 'a::len word) = of_nat k \<longleftrightarrow> j = k"
  by (metis unat_of_nat_small)

lemma of_nat_eq_0_small: "k < 2 ^ LENGTH('a) \<Longrightarrow> (of_nat k :: 'a::len word) = 0 \<longleftrightarrow> k = 0"
  using of_nat_word_inject_small [of k 0, where 'a = 'a] by simp

lemma sint_of_nat_small:
  assumes "k < 2 ^ (LENGTH('a) - 1)"
  shows "sint (of_nat k :: 'a::len word) = int k"
proof -
  have "- (2 ^ (LENGTH('a) - 1)) \<le> int k" by (rule order_trans [of _ 0]) simp_all
  moreover have "int k < 2 ^ (LENGTH('a) - 1)" using assms by (metis of_nat_less_iff of_nat_numeral of_nat_power)
  ultimately show ?thesis by (simp add: signed_of_nat signed_take_bit_int_eq_self_iff)
qed

lemma sint_inject [simp]: "sint a = sint b \<longleftrightarrow> a = (b :: 'a::len word)"
  by (auto intro: signed_word_eqI)

section \<open>Strings and byte slices\<close>

text \<open>
  A Go string is a sequence of bytes; it is a \<^typ>\<open>string\<close> here, whose characters are exactly the
  256 bytes. \<open>[]byte(s)\<close> and \<open>string(b)\<close> convert between the two views.
\<close>

definition bytes_of_string :: "string \<Rightarrow> bytes" where
  "bytes_of_string s = map of_char s"

definition string_of_bytes :: "bytes \<Rightarrow> string" where
  "string_of_bytes b = map (char_of \<circ> unat) b"

lemma unat_of_char_byte [simp]: "unat (of_char c :: byte) = of_char c"
proof -
  have "unat (of_char c :: byte) = unat (of_nat (of_char c) :: byte)"
    by (simp add: of_nat_of_char)
  also have "\<dots> = of_char c"
    by (simp add: unat_of_nat)
  finally show ?thesis .
qed

lemma string_of_bytes_of_string [simp]: "string_of_bytes (bytes_of_string s) = s"
  by (simp add: string_of_bytes_def bytes_of_string_def comp_def)

lemma bytes_of_string_inject [simp]: "bytes_of_string s = bytes_of_string t \<longleftrightarrow> s = t"
  by (metis string_of_bytes_of_string)

lemma length_bytes_of_string [simp]: "length (bytes_of_string s) = length s"
  by (simp add: bytes_of_string_def)

lemma length_string_of_bytes [simp]: "length (string_of_bytes b) = length b"
  by (simp add: string_of_bytes_def)

section \<open>Go maps that are iterated over\<close>

text \<open>
  A Go map whose entries the code ranges over is an association list with distinct keys: the order
  of the list stands for the (unspecified) iteration order of the map. Insertion, deletion and
  lookup are those of \<open>HOL-Library.AList\<close>; the lemmas give the number of entries after each.
\<close>

abbreviation keys_distinct :: "('k \<times> 'v) list \<Rightarrow> bool" where
  "keys_distinct m \<equiv> distinct (map fst m)"

lemma map_of_alist_update [simp]:
  "map_of (AList.update k v m) = (map_of m)(k \<mapsto> v)"
  by (rule update_conv')

lemma map_of_alist_delete [simp]: "map_of (AList.delete k m) = (map_of m)(k := None)"
  by (rule delete_conv')

lemma alist_update_new: "map_of m k = None \<Longrightarrow> AList.update k v m = m @ [(k, v)]"
  by (induction m) (auto split: if_splits)

lemma length_alist_update:
  "length (AList.update k v m) = (if map_of m k = None then Suc (length m) else length m)"
  by (induction m) auto

lemma length_alist_delete:
  "keys_distinct m \<Longrightarrow>
     length (AList.delete k m) = (if map_of m k = None then length m else length m - 1)"
proof (induction m)
  case Nil
  then show ?case by simp
next
  case (Cons e m)
  obtain k' v' where e: "e = (k', v')" by (cases e)
  have gone: "AList.delete k' m = m"
    using Cons.prems e by (auto intro!: delete_id simp: image_iff)
  have pos: "map_of m k \<noteq> None \<Longrightarrow> 0 < length m"
    by (cases m) auto
  show ?case
    using Cons e gone pos by (auto simp: AList.delete_eq)
qed

lemma map_of_Some_length: "map_of m k = Some v \<Longrightarrow> 0 < length m"
  by (cases m) auto

lemma alist_delete_absent [simp]: "map_of m k = None \<Longrightarrow> AList.delete k m = m"
  by (rule delete_id) (simp add: map_of_eq_None_iff)

lemma set_alist_update: "set (AList.update k v m) \<subseteq> insert (k, v) (set m)"
  by (induction m) auto

lemma alist_empty_iff: "m = [] \<longleftrightarrow> (\<forall>k. map_of m k = None)"
  by (cases m) auto

section \<open>Big-endian integers\<close>

text \<open>
  \<open>encoding/binary\<close>: \<open>put_be k v\<close> is what \<open>BigEndian.PutUint16\<close> (\<open>k = 2\<close>) and \<open>PutUint64\<close>
  (\<open>k = 8\<close>) write, \<open>be_uint\<close> what \<open>BigEndian.Uint16\<close> and \<open>Uint64\<close> read.
\<close>

fun put_be :: "nat \<Rightarrow> nat \<Rightarrow> bytes" where
  "put_be 0 v = []"
| "put_be (Suc k) v = put_be k (v div 256) @ [of_nat v]"

definition be_uint :: "bytes \<Rightarrow> nat" where
  "be_uint bs = foldl (\<lambda>a b. a * 256 + unat b) 0 bs"

lemma be_uint_Nil [simp]: "be_uint [] = 0"
  by (simp add: be_uint_def)

lemma be_uint_snoc [simp]: "be_uint (bs @ [b]) = be_uint bs * 256 + unat b"
  by (simp add: be_uint_def)

lemma length_put_be [simp]: "length (put_be k v) = k"
  by (induction k v rule: put_be.induct) auto

lemma be_uint_put_be: "be_uint (put_be k v) = v mod 256 ^ k"
proof (induction k v rule: put_be.induct)
  case (1 v)
  then show ?case by simp
next
  case (2 k v)
  have "be_uint (put_be (Suc k) v) = (v div 256) mod 256 ^ k * 256 + v mod 256"
    using 2 by (simp add: unat_of_nat)
  also have "\<dots> = v mod (256 * 256 ^ k)"
    by (simp add: mod_mult2_eq)
  finally show ?case by simp
qed

lemma be_uint_put_be_small [simp]: "v < 256 ^ k \<Longrightarrow> be_uint (put_be k v) = v"
  by (simp add: be_uint_put_be)

section \<open>Decimal formatting\<close>

text \<open>\<open>strconv.FormatUint(n, 10)\<close> and \<open>strconv.FormatInt(n, 10)\<close>.\<close>

definition dec_digit :: "nat \<Rightarrow> char" where
  "dec_digit d = char_of (48 + d)"

fun FormatNat :: "nat \<Rightarrow> string" where
  "FormatNat n = (if n < 10 then [dec_digit n] else FormatNat (n div 10) @ [dec_digit (n mod 10)])"

declare FormatNat.simps [simp del]

definition FormatUint :: "uint64 \<Rightarrow> string" where
  "FormatUint n = FormatNat (unat n)"

definition FormatInt :: "int \<Rightarrow> string" where
  "FormatInt n = (if n < 0 then CHR ''-'' # FormatNat (nat (- n)) else FormatNat (nat n))"

text \<open>Reading the digits back gives the number, so the decimal form is injective.\<close>

definition dec_value :: "string \<Rightarrow> nat" where
  "dec_value s = foldl (\<lambda>a c. a * 10 + (of_char c - 48)) 0 s"

lemma dec_digit_value [simp]: "d < 10 \<Longrightarrow> of_char (dec_digit d) = 48 + d"
  by (simp add: dec_digit_def)

lemma dec_value_FormatNat [simp]: "dec_value (FormatNat n) = n"
proof (induction n rule: FormatNat.induct)
  case (1 n)
  show ?case
  proof (cases "n < 10")
    case True
    then show ?thesis by (simp add: FormatNat.simps [of n] dec_value_def)
  next
    case False
    with 1 have "dec_value (FormatNat (n div 10)) = n div 10" by simp
    with False show ?thesis by (simp add: FormatNat.simps [of n] dec_value_def)
  qed
qed

lemma FormatNat_inject [simp]: "FormatNat m = FormatNat n \<longleftrightarrow> m = n"
  by (metis dec_value_FormatNat)

lemma FormatUint_inject [simp]: "FormatUint m = FormatUint n \<longleftrightarrow> m = n"
  by (simp add: FormatUint_def word_unat_eq_iff)

lemma FormatNat_nonempty [simp]: "FormatNat n \<noteq> []"
  by (simp add: FormatNat.simps [of n])

lemma FormatUint_nonempty [simp]: "FormatUint n \<noteq> []"
  by (simp add: FormatUint_def)

lemma FormatNat_digits: "c \<in> set (FormatNat n) \<Longrightarrow> \<exists>d<10. c = dec_digit d"
proof (induction n rule: FormatNat.induct)
  case (1 n)
  show ?case
  proof (cases "n < 10")
    case True
    with "1.prems" show ?thesis by (auto simp: FormatNat.simps [of n])
  next
    case False
    with "1.prems" "1.IH" show ?thesis
      by (auto simp: FormatNat.simps [of n] intro: exI [of _ "n mod 10"])
  qed
qed

lemma minus_not_digit: "CHR ''-'' \<notin> set (FormatNat n)"
proof
  assume "CHR ''-'' \<in> set (FormatNat n)"
  then obtain d where "d < 10" and "CHR ''-'' = dec_digit d"
    using FormatNat_digits by blast
  then have "(of_char (CHR ''-'') :: nat) = 48 + d" by (metis dec_digit_value)
  then show False by simp
qed

lemma FormatInt_inject [simp]: "FormatInt m = FormatInt n \<longleftrightarrow> m = n"
proof
  have sign: "CHR ''-'' # s \<noteq> FormatNat k" for s k
    using minus_not_digit [of k] by (metis list.set_intros(1))
  assume "FormatInt m = FormatInt n"
  then show "m = n"
    using sign [THEN not_sym] sign by (auto simp: FormatInt_def split: if_splits)
qed simp

section \<open>Clearing the lowest set bit\<close>

lemma clear_lowest_bit_less:
  assumes "w \<noteq> (0 :: 'a::len word)"
  shows "w AND (w - 1) < w"
proof -
  have "w AND (w - 1) \<le> w - 1" by (rule word_and_le1)
  also have "w - 1 < w" using assms by (simp add: word_less_nat_alt unat_minus_one unat_gt_0)
  finally show ?thesis .
qed

lemma bit_clear_lowest:
  fixes w :: "'a::len word"
  assumes "bit w t" and "\<And>i. i < t \<Longrightarrow> \<not> bit w i"
  shows "bit (w AND (w - 1)) j \<longleftrightarrow> bit w j \<and> j \<noteq> t"
proof -
  let ?r = "w AND NOT (push_bit t 1)"
  have t: "t < LENGTH('a)" using assms(1) by (simp add: bit_imp_le_length)
  have "?r AND push_bit t 1 = 0" by (simp add: and.assoc)
  then have "?r + push_bit t 1 = ?r OR push_bit t 1" by (rule disjunctive_add_eq_or)
  also have "\<dots> = w"
    by (rule bit_word_eqI) (use assms(1) in \<open>auto simp: bit_simps\<close>)
  finally have "w - 1 = ?r + (push_bit t 1 - 1)" by (metis add_diff_eq)
  also have "push_bit t 1 - 1 = (mask t :: 'a word)" by (simp add: mask_eq_exp_minus_1 push_bit_eq_mult)
  also have "?r + mask t = ?r OR mask t"
    by (rule disjunctive_add_eq_or, rule bit_word_eqI) (use assms(2) in \<open>auto simp: bit_simps\<close>)
  finally have "w - 1 = ?r OR mask t" .
  then show ?thesis
    using assms(2) t by (cases "j < LENGTH('a)") (auto simp: bit_simps dest: bit_imp_le_length)
qed

lemma int_image_lessThan: "l \<in> int ` {..<n} \<longleftrightarrow> 0 \<le> l \<and> l < int n"
  by (auto intro: image_eqI [of _ _ "nat l"])

section \<open>Folding a state through a list\<close>

lemma foldl_invariant:
  assumes "P s" and "\<And>s x. P s \<Longrightarrow> x \<in> set xs \<Longrightarrow> P (f s x)"
  shows "P (foldl f s xs)"
  using assms by (induction xs arbitrary: s) auto

lemma sum_list_update_nat:
  "i < length xs \<Longrightarrow> sum_list (xs[i := (x::nat)]) + xs ! i = sum_list xs + x"
  by (induction xs arbitrary: i) (auto split: nat.splits)

end
