(* ===== verification/Conn_Context.thy ===== *)
theory Conn_Context
  imports Barrage_Prelude
begin

text \<open>
  \<open>internal/connctx/context.go\<close> and \<open>internal/dispatcher/message_dispatcher.go\<close>: the context the program
  keeps for each connection and the task that carries an inbound message to a worker.

  A \<open>gnet.Conn\<close> is an object of the third-party network library; the model knows it by its identity,
  a number, and keeps what the program stores in it with \<open>SetContext\<close> in a map from connections to
  contexts. The network actions the program asks of a connection are recorded, in order, as a list
  of \<open>net_action\<close>s; what gnet answers (the event loop of a connection, its outbound buffer) is a
  parameter of the operations that ask.
\<close>

type_synonym conn = nat

type_synonym event_loop = nat

record ConnContext =
  ConnID :: string
  UserID :: int64
  RoomID :: int64
  LoopIdx :: int
  IsPremium :: bool
  HandshakeDone :: bool
  HandshakeBuffer :: bytes
  ReadBuffer :: bytes
  LastActiveTime :: int64

text \<open>\<open>&connctx.ConnContext{ConnID: connID}\<close>: every other field has its zero value.\<close>

definition new_ConnContext :: "string \<Rightarrow> ConnContext" where
  "new_ConnContext connID =
    \<lparr>ConnID = connID, UserID = 0, RoomID = 0, LoopIdx = 0, IsPremium = False,
     HandshakeDone = False, HandshakeBuffer = [], ReadBuffer = [], LastActiveTime = 0\<rparr>"

text \<open>
  The contexts are shared: a task holds the pointer its connection holds, so a task names the
  connection and reads the context from the store when it runs.
\<close>

type_synonym contexts = "conn \<rightharpoonup> ConnContext"

record InboundTask =
  task_Conn :: conn
  task_Data :: bytes

datatype net_action =
    AsyncWrite conn bytes
  | CloseConn conn

fun written_to :: "conn \<Rightarrow> net_action list \<Rightarrow> bytes list" where
  "written_to c [] = []"
| "written_to c (AsyncWrite d b # as) = (if d = c then b # written_to c as else written_to c as)"
| "written_to c (CloseConn d # as) = written_to c as"

lemma written_to_append [simp]: "written_to c (as @ bs) = written_to c as @ written_to c bs"
  by (induction c as rule: written_to.induct) auto

lemma written_to_concat: "written_to c (concat ass) = concat (map (written_to c) ass)"
  by (induction ass) auto

end
