(* ===== verification/Loop_Routing.thy ===== *)
theory Loop_Routing
  imports Conn_Context
begin

text \<open>
  \<open>internal/app/conn_id.go\<close>, \<open>loop_registry.go\<close>, \<open>loop_dispatcher.go\<close> and \<open>App.ResolveLoopIdx\<close>: connection
  ids, the stable numbering of gnet's event loops and the hand-over of tasks to them.

  An event loop is known by its identity; whether its \<open>Execute\<close> accepts a task is an argument of
  \<open>Dispatch\<close> (\<open>None\<close>: accepted, \<open>Some e\<close>: refused with the error text \<open>e\<close>). A dispatched task is data, and
  the tasks a loop accepted are the result of the operation: they run later, on that loop.
\<close>

section \<open>Connection ids\<close>

definition NextConnID :: "uint64 \<Rightarrow> string \<times> uint64" where
  "NextConnID connSeq = (let rid = connSeq + 1 in (FormatUint rid, rid))"

text \<open>The ids of the next \<open>n\<close> connections.\<close>

fun conn_ids :: "nat \<Rightarrow> uint64 \<Rightarrow> string list" where
  "conn_ids 0 q = []"
| "conn_ids (Suc n) q = (case NextConnID q of (i, q') \<Rightarrow> i # conn_ids n q')"

lemma conn_ids_eq: "conn_ids n q = map (\<lambda>i. FormatUint (q + of_nat i)) [1..<Suc n]"
proof (induction n arbitrary: q)
  case 0
  then show ?case by simp
next
  case (Suc n)
  have "map (\<lambda>i. FormatUint (q + 1 + of_nat i)) [1..<Suc n] =
      map (\<lambda>i. FormatUint (q + of_nat i)) (map Suc [1..<Suc n])"
    by (simp add: algebra_simps)
  also have "map Suc [1..<Suc n] = [2..<Suc (Suc n)]"
    by (simp add: map_Suc_upt numeral_2_eq_2)
  finally show ?case
    using Suc by (simp add: NextConnID_def Let_def upt_conv_Cons numeral_2_eq_2 del: upt_Suc)
qed

text \<open>
  Connection ids are unique. Wherever the counter stands, fewer than 2^64 consecutive calls of
  \<open>NextConnID\<close> give pairwise different, non-empty ids.
\<close>

theorem conn_ids_distinct:
  assumes "n < 2 ^ 64"
  shows "distinct (conn_ids n q) \<and> '''' \<notin> set (conn_ids n q)"
proof -
  have "inj_on (\<lambda>i. FormatUint (q + of_nat i)) {1..<Suc n}"
    using assms by (intro inj_onI) (simp add: of_nat_word_inject_small)
  then show ?thesis by (auto simp: conn_ids_eq distinct_map dest!: sym [of "[]"] simp del: upt_Suc)
qed

theorem conn_ids_distinct_witness: "distinct (conn_ids 1000 (- 500))"
  using conn_ids_distinct [of 1000 "- 500"] by simp

section \<open>Numbering event loops\<close>

record LoopRegistry =
  indexByLoop :: "event_loop \<rightharpoonup> int"
  next_index :: int32

definition NewLoopRegistry :: LoopRegistry where
  "NewLoopRegistry = \<lparr>indexByLoop = Map.empty, next_index = 0\<rparr>"

definition GetOrAssign :: "event_loop option \<Rightarrow> LoopRegistry \<Rightarrow> int \<times> LoopRegistry" where
  "GetOrAssign lo r =
    (case lo of
       None \<Rightarrow> (0, r)
     | Some loop \<Rightarrow>
         (case indexByLoop r loop of
            Some idx \<Rightarrow> (idx, r)
          | None \<Rightarrow> let idx = sint (next_index r)
                    in (idx, r\<lparr>indexByLoop := (indexByLoop r)(loop \<mapsto> idx),
                             next_index := next_index r + 1\<rparr>)))"

section \<open>Dispatching to event loops\<close>

datatype dispatch_error = ErrDispatcherNil | ErrTaskNil | ErrLoopNotBound | ErrLoopExecute string

record DispatchMetrics =
  TotalDispatches :: int64
  SuccessCount :: int64
  ErrNotBoundCount :: int64
  ErrExecuteCount :: int64

record LoopDispatcher =
  loops :: "int \<rightharpoonup> event_loop"
  Metrics :: DispatchMetrics

definition NewLoopDispatcher :: LoopDispatcher where
  "NewLoopDispatcher =
    \<lparr>loops = Map.empty,
     Metrics = \<lparr>TotalDispatches = 0, SuccessCount = 0, ErrNotBoundCount = 0, ErrExecuteCount = 0\<rparr>\<rparr>"

definition Bind :: "int \<Rightarrow> event_loop option \<Rightarrow> LoopDispatcher option \<Rightarrow> LoopDispatcher option" where
  "Bind loopIdx lo d =
    (case (d, lo) of
       (Some d', Some loop) \<Rightarrow> if loopIdx < 0 then d else Some (d'\<lparr>loops := (loops d')(loopIdx \<mapsto> loop)\<rparr>)
     | _ \<Rightarrow> d)"

text \<open>The outcome: the error returned, the dispatcher after, and the task with the loop that accepted it.\<close>

definition Dispatch ::
  "(event_loop \<Rightarrow> string option) \<Rightarrow> int \<Rightarrow> 't option \<Rightarrow> LoopDispatcher option \<Rightarrow>
   dispatch_error option \<times> LoopDispatcher option \<times> (event_loop \<times> 't) list" where
  "Dispatch Execute loopIdx task d =
    (case d of
       None \<Rightarrow> (Some ErrDispatcherNil, d, [])
     | Some d \<Rightarrow>
       (case task of
          None \<Rightarrow> (Some ErrTaskNil, Some d, [])
        | Some t \<Rightarrow>
          let m = Metrics d;
              m = m\<lparr>TotalDispatches := TotalDispatches m + 1\<rparr>
          in case loops d loopIdx of
               None \<Rightarrow>
                 (Some ErrLoopNotBound,
                  Some (d\<lparr>Metrics := m\<lparr>ErrNotBoundCount := ErrNotBoundCount m + 1\<rparr>\<rparr>), [])
             | Some loop \<Rightarrow>
                 (case Execute loop of
                    Some err \<Rightarrow>
                      (Some (ErrLoopExecute err),
                       Some (d\<lparr>Metrics := m\<lparr>ErrExecuteCount := ErrExecuteCount m + 1\<rparr>\<rparr>), [])
                  | None \<Rightarrow>
                      (None,
                       Some (d\<lparr>Metrics := m\<lparr>SuccessCount := SuccessCount m + 1\<rparr>\<rparr>), [(loop, t)]))))"

section \<open>Resolving the loop of a connection\<close>

record loop_state =
  lrReg :: "LoopRegistry option"
  lrDisp :: "LoopDispatcher option"

text \<open>
  \<open>App.ResolveLoopIdx\<close>. \<open>EventLoop c\<close> is what gnet answers for the connection. The nil tests on the
  application and its registry are the \<open>None\<close> branches.
\<close>

definition ResolveLoopIdx ::
  "(conn \<Rightarrow> event_loop option) \<Rightarrow> conn option \<Rightarrow> loop_state \<Rightarrow> int \<times> loop_state" where
  "ResolveLoopIdx EventLoop co st =
    (case (co, lrReg st) of
       (Some c, Some r) \<Rightarrow>
         (let loop = EventLoop c
          in case GetOrAssign loop r of
               (loopIdx, r') \<Rightarrow>
                 (loopIdx, st\<lparr>lrReg := Some r', lrDisp := Bind loopIdx loop (lrDisp st)\<rparr>))
     | _ \<Rightarrow> (0, st))"

section \<open>The numbering is stable and injective\<close>

text \<open>
  \<open>numbered L n r d\<close>: the registry numbers \<open>n\<close> of the loops \<open>L\<close>, by \<open>0\<close> to \<open>n - 1\<close>, and the dispatcher binds
  each number to its loop and nothing else.
\<close>

definition numbered :: "event_loop set \<Rightarrow> nat \<Rightarrow> LoopRegistry \<Rightarrow> LoopDispatcher \<Rightarrow> bool" where
  "numbered L n r d \<longleftrightarrow>
     dom (indexByLoop r) \<subseteq> L \<and> card (dom (indexByLoop r)) = n \<and> next_index r = of_nat n \<and>
     (\<forall>l i. indexByLoop r l = Some i \<longrightarrow> 0 \<le> i \<and> i < int n) \<and>
     (\<forall>l i. indexByLoop r l = Some i \<longleftrightarrow> loops d i = Some l)"

lemma numbered_new: "numbered L 0 NewLoopRegistry NewLoopDispatcher"
  by (simp add: numbered_def NewLoopRegistry_def NewLoopDispatcher_def)

text \<open>\<open>resolved E st c i st'\<close>: a connection of a known loop resolves to \<open>i\<close>, bound to that loop.\<close>

definition in_order :: "(conn \<Rightarrow> event_loop option) \<Rightarrow> loop_state \<Rightarrow> bool" where
  "in_order E st \<longleftrightarrow> (\<exists>r d n. st = \<lparr>lrReg = Some r, lrDisp = Some d\<rparr> \<and> numbered (ran E) n r d)"

definition loop_index :: "loop_state \<Rightarrow> event_loop \<Rightarrow> int option" where
  "loop_index st l = (case lrReg st of None \<Rightarrow> None | Some r \<Rightarrow> indexByLoop r l)"

lemma numbered_assign:
  assumes num: "numbered L n r d" and new: "indexByLoop r l = None" and l: "l \<in> L"
    and fin: "finite L" "card L < 2 ^ 31"
  shows "sint (next_index r) = int n" and
    "numbered L (Suc n) (r\<lparr>indexByLoop := (indexByLoop r)(l \<mapsto> int n), next_index := next_index r + 1\<rparr>)
       (d\<lparr>loops := (loops d)(int n \<mapsto> l)\<rparr>)"
proof -
  have sub: "dom (indexByLoop r) \<subseteq> L" and card: "card (dom (indexByLoop r)) = n"
    and nx: "next_index r = of_nat n" using num by (auto simp: numbered_def)
  have "n \<le> card L" using card_mono [OF fin(1) sub] card by simp
  with fin(2) have "n < 2 ^ (LENGTH(32) - 1)" by simp
  then show "sint (next_index r) = int n" unfolding nx by (rule sint_of_nat_small)
  have "finite (dom (indexByLoop r))" using finite_subset [OF sub fin(1)] .
  then have "card (insert l (dom (indexByLoop r))) = Suc n"
    using new card by (simp add: card_insert_disjoint domIff)
  moreover have "indexByLoop r l' \<noteq> Some (int n)" for l'
    using num unfolding numbered_def by (metis less_irrefl)
  moreover have "loops d (int n) = None"
    using num unfolding numbered_def by (metis (full_types) not_None_eq less_irrefl)
  moreover have bnd: "indexByLoop r x = Some i \<Longrightarrow> 0 \<le> i \<and> i < int n"
    and bi: "indexByLoop r x = Some i \<longleftrightarrow> loops d i = Some x" for x i
    using num by (simp_all add: numbered_def)
  have "((indexByLoop r)(l \<mapsto> int n)) x = Some i \<longrightarrow> 0 \<le> i \<and> i < int (Suc n)" for x i
    using bnd [of x i] by auto
  moreover have "((indexByLoop r)(l \<mapsto> int n)) x = Some i \<longleftrightarrow> ((loops d)(int n \<mapsto> l)) i = Some x" for x i
    using bi [of x i] bi [of l i] bnd [of x i] new by auto
  ultimately show "numbered L (Suc n)
      (r\<lparr>indexByLoop := (indexByLoop r)(l \<mapsto> int n), next_index := next_index r + 1\<rparr>)
      (d\<lparr>loops := (loops d)(int n \<mapsto> l)\<rparr>)"
    using sub l nx by (simp add: numbered_def)
qed

lemma resolve_in_order:
  assumes ord: "in_order E st" and fin: "finite (ran E)" "card (ran E) < 2 ^ 31"
    and res: "ResolveLoopIdx E (Some c) st = (i, st')"
  shows "in_order E st'" and "loop_index st l = Some j \<Longrightarrow> loop_index st' l = Some j"
    and "E c = Some l \<Longrightarrow> loop_index st' l = Some i"
proof -
  obtain r d n where st: "st = \<lparr>lrReg = Some r, lrDisp = Some d\<rparr>" and num: "numbered (ran E) n r d"
    using ord by (auto simp: in_order_def)
  show "in_order E st'" and "loop_index st l = Some j \<Longrightarrow> loop_index st' l = Some j"
    and "E c = Some l \<Longrightarrow> loop_index st' l = Some i"
  proof (atomize (full), cases "E c")
    case None
    then show "in_order E st' \<and> (loop_index st l = Some j \<longrightarrow> loop_index st' l = Some j) \<and>
        (E c = Some l \<longrightarrow> loop_index st' l = Some i)"
      using res ord by (auto simp: ResolveLoopIdx_def GetOrAssign_def Bind_def st)
  next
    case (Some k)
    then have k: "k \<in> ran E" by (rule ranI)
    show "in_order E st' \<and> (loop_index st l = Some j \<longrightarrow> loop_index st' l = Some j) \<and>
        (E c = Some l \<longrightarrow> loop_index st' l = Some i)"
    proof (cases "indexByLoop r k")
      case None
      note new = numbered_assign [OF num None k fin]
      have "st' = \<lparr>lrReg = Some (r\<lparr>indexByLoop := (indexByLoop r)(k \<mapsto> int n), next_index := next_index r + 1\<rparr>),
          lrDisp = Some (d\<lparr>loops := (loops d)(int n \<mapsto> k)\<rparr>)\<rparr>" and "i = int n"
        using res Some None new(1) by (auto simp: ResolveLoopIdx_def GetOrAssign_def Bind_def st Let_def)
      with new(2) None Some show ?thesis by (auto simp: in_order_def loop_index_def st)
    next
      case (Some m)
      have "loops d m = Some k" and "0 \<le> m"
        using num Some unfolding numbered_def by blast+
      then have same: "d\<lparr>loops := (loops d)(m \<mapsto> k)\<rparr> = d" by (simp add: fun_upd_idem)
      have "st' = st" and "i = m"
        using res \<open>E c = Some k\<close> Some \<open>0 \<le> m\<close> same
        by (auto simp: ResolveLoopIdx_def GetOrAssign_def Bind_def st)
      then show ?thesis using ord Some \<open>E c = Some k\<close> by (auto simp: loop_index_def st)
    qed
  qed
qed

abbreviation new_loops :: loop_state where
  "new_loops \<equiv> \<lparr>lrReg = Some NewLoopRegistry, lrDisp = Some NewLoopDispatcher\<rparr>"

definition resolve_all :: "(conn \<Rightarrow> event_loop option) \<Rightarrow> conn list \<Rightarrow> loop_state \<Rightarrow> loop_state" where
  "resolve_all E cs st = foldl (\<lambda>st c. snd (ResolveLoopIdx E (Some c) st)) st cs"

lemma resolve_all_in_order:
  assumes "in_order E st" and "finite (ran E)" "card (ran E) < 2 ^ 31"
  shows "in_order E (resolve_all E cs st)"
    and "loop_index st l = Some j \<Longrightarrow> loop_index (resolve_all E cs st) l = Some j"
    and "c \<in> set cs \<Longrightarrow> E c = Some l \<Longrightarrow> loop_index (resolve_all E cs st) l \<noteq> None"
proof (atomize (full), use assms(1) in \<open>induction cs arbitrary: st j\<close>)
  case Nil
  then show ?case by (simp add: resolve_all_def)
next
  case (Cons a cs)
  obtain i st1 where a: "ResolveLoopIdx E (Some a) st = (i, st1)" by fastforce
  note step = resolve_in_order [OF Cons.prems assms(2,3) a]
  have "resolve_all E (a # cs) st = resolve_all E cs st1" by (simp add: resolve_all_def a)
  moreover have "loop_index st1 l = Some j \<Longrightarrow> loop_index (resolve_all E cs st1) l = Some j" for j
    using Cons.IH [OF step(1), of j] by blast
  ultimately show ?case using Cons.IH [OF step(1), of j] step by (metis not_None_eq set_ConsD)
qed

lemma in_order_index:
  assumes "in_order E st"
  shows "loop_index st l = Some i \<Longrightarrow> 0 \<le> i \<and> i < int (card (ran E)) \<or> infinite (ran E)"
    and "loop_index st l = Some i \<Longrightarrow> (case lrDisp st of None \<Rightarrow> False | Some d \<Rightarrow> loops d i = Some l)"
    and "loop_index st l = Some i \<Longrightarrow> loop_index st l' = Some i \<Longrightarrow> l = l'"
proof -
  obtain r d n where st: "st = \<lparr>lrReg = Some r, lrDisp = Some d\<rparr>" and num: "numbered (ran E) n r d"
    using assms by (auto simp: in_order_def)
  have "finite (ran E) \<Longrightarrow> n \<le> card (ran E)"
    using num by (auto simp: numbered_def intro: card_mono)
  then show "loop_index st l = Some i \<Longrightarrow> 0 \<le> i \<and> i < int (card (ran E)) \<or> infinite (ran E)"
    using num by (force simp: loop_index_def st numbered_def)
  show "loop_index st l = Some i \<Longrightarrow> (case lrDisp st of None \<Rightarrow> False | Some d \<Rightarrow> loops d i = Some l)"
    using num by (auto simp: loop_index_def st numbered_def)
  show "loop_index st l = Some i \<Longrightarrow> loop_index st l' = Some i \<Longrightarrow> l = l'"
    using num by (auto simp: loop_index_def st numbered_def)
qed

text \<open>
  C32: a connection's logical loop is the event loop it runs on. With fewer than 2^31 event loops, after
  any connections \<open>cs\<close> were resolved, resolving a connection gives an index below the number of loops;
  the index stays the same after any further resolutions \<open>ds\<close>, two connections share it exactly when
  they share the event loop, and a task dispatched to it is handed to that event loop.
\<close>

theorem loop_index_stable:
  assumes "finite (ran E)" and "card (ran E) < 2 ^ 31"
    and c: "E c = Some l" and c': "E c' = Some l'"
  shows "(case ResolveLoopIdx E (Some c) (resolve_all E cs new_loops) of (i, st) \<Rightarrow>
      0 \<le> i \<and> i < int (card (ran E)) \<and>
      fst (ResolveLoopIdx E (Some c) (resolve_all E ds st)) = i \<and>
      (fst (ResolveLoopIdx E (Some c') (resolve_all E ds st)) = i \<longleftrightarrow> l' = l) \<and>
      snd (snd (Dispatch (\<lambda>_. None) i (Some t) (lrDisp (resolve_all E ds st)))) = [(l, t)])"
proof -
  have "in_order E new_loops" using numbered_new by (force simp: in_order_def)
  then have o0: "in_order E (resolve_all E cs new_loops)" using resolve_all_in_order(1) assms by blast
  obtain i st where r: "ResolveLoopIdx E (Some c) (resolve_all E cs new_loops) = (i, st)" by fastforce
  note s1 = resolve_in_order [OF o0 assms(1,2) r]
  have idx: "loop_index st l = Some i" using s1(3) c .
  let ?st = "resolve_all E ds st"
  have o2: "in_order E ?st" and idx2: "loop_index ?st l = Some i"
    using resolve_all_in_order [OF s1(1) assms(1,2)] idx by blast+
  obtain j st2 where j: "ResolveLoopIdx E (Some c) ?st = (j, st2)" by fastforce
  have "j = i" using resolve_in_order(2,3) [OF o2 assms(1,2) j] idx2 c by force
  obtain k st' where k: "ResolveLoopIdx E (Some c') ?st = (k, st')" by fastforce
  note s3 = resolve_in_order [OF o2 assms(1,2) k]
  have "loop_index st' l' = Some k" and "loop_index st' l = Some i" using s3(2,3) c' idx2 by blast+
  then have "k = i \<longleftrightarrow> l' = l" using in_order_index(3) [OF s3(1)] by auto
  moreover have "snd (snd (Dispatch (\<lambda>_. None) i (Some t) (lrDisp ?st))) = [(l, t)]"
    using in_order_index(2) [OF o2 idx2] by (auto simp: Dispatch_def Let_def split: option.splits)
  ultimately show ?thesis
    using r j k \<open>j = i\<close> in_order_index(1) [OF s1(1) idx] assms(1) by simp
qed

theorem loop_index_stable_witness:
  "fst (ResolveLoopIdx [0 \<mapsto> 7, 2 \<mapsto> 7, 3 \<mapsto> 9] (Some 3)
     (resolve_all [0 \<mapsto> 7, 2 \<mapsto> 7, 3 \<mapsto> 9] [0, 2] new_loops)) < 2"
proof -
  define E :: "conn \<Rightarrow> event_loop option" where "E = [0 \<mapsto> 7, 2 \<mapsto> 7, 3 \<mapsto> 9]"
  have "E 2 = Some 7" and "E 3 = Some 9" by (simp_all add: E_def)
  moreover have "E c = Some l \<Longrightarrow> l \<in> {7, 9}" for c l by (auto simp: E_def split: if_splits)
  ultimately have ran: "ran E = {7, 9}" unfolding ran_def by blast
  have "finite (ran E)" "card (ran E) < 2 ^ 31" "E 3 = Some 9" "E 0 = Some 7"
    unfolding ran by (simp_all add: E_def)
  from loop_index_stable [OF this, where cs = "[0, 2]" and ds = "[]" and t = "()"]
  have "fst (ResolveLoopIdx E (Some 3) (resolve_all E [0, 2] new_loops)) < int (card (ran E))"
    by (simp only: case_prod_beta)
  then show ?thesis unfolding ran by (simp add: E_def)
qed

section \<open>Every dispatch is accounted for\<close>

definition accounts :: "nat \<Rightarrow> LoopDispatcher \<Rightarrow> bool" where
  "accounts handed d \<longleftrightarrow>
     SuccessCount (Metrics d) = of_nat handed \<and>
     TotalDispatches (Metrics d) =
       SuccessCount (Metrics d) + ErrNotBoundCount (Metrics d) + ErrExecuteCount (Metrics d)"

text \<open>One binding or dispatch, the tasks handed over so far beside the dispatcher.\<close>

datatype 't dispatch_op =
    BindOp int "event_loop option"
  | DispatchOp int "'t option" "event_loop \<Rightarrow> string option"

fun dispatch_step ::
  "LoopDispatcher option \<times> (event_loop \<times> 't) list \<Rightarrow> 't dispatch_op \<Rightarrow>
   LoopDispatcher option \<times> (event_loop \<times> 't) list" where
  "dispatch_step (d, out) (BindOp i l) = (Bind i l d, out)"
| "dispatch_step (d, out) (DispatchOp i t ex) = (case Dispatch ex i t d of (e, d', ts) \<Rightarrow> (d', out @ ts))"

lemma Dispatch_cases:
  "Dispatch ex i t (Some d) = (e, d', ts) \<Longrightarrow>
   (t = None \<and> e = Some ErrTaskNil \<and> d' = Some d \<and> ts = []) \<or>
   (t \<noteq> None \<and> (\<exists>d1. d' = Some d1 \<and> loops d1 = loops d \<and>
      TotalDispatches (Metrics d1) = TotalDispatches (Metrics d) + 1 \<and>
      (e = None \<longleftrightarrow> ts \<noteq> []) \<and> length ts \<le> 1 \<and>
      SuccessCount (Metrics d1) = SuccessCount (Metrics d) + of_nat (length ts) \<and>
      SuccessCount (Metrics d1) + ErrNotBoundCount (Metrics d1) + ErrExecuteCount (Metrics d1) =
      SuccessCount (Metrics d) + ErrNotBoundCount (Metrics d) + ErrExecuteCount (Metrics d) + 1 \<and>
      (\<forall>(l, u) \<in> set ts. loops d i = Some l \<and> t = Some u)))"
  by (cases t) (auto simp: Dispatch_def Let_def split: option.splits)

text \<open>
  The dispatch metrics add up. After any sequence of bindings and dispatches, whatever the loops
  answered, the total is the sum of the successes and the two kinds of failure, and the successes
  are the tasks the loops were handed.
\<close>

theorem dispatch_metrics_exact:
  "(case foldl dispatch_step (Some NewLoopDispatcher, []) ops of (d, handed) \<Rightarrow>
      (\<exists>d1. d = Some d1 \<and> SuccessCount (Metrics d1) = of_nat (length handed) \<and>
        TotalDispatches (Metrics d1) =
          SuccessCount (Metrics d1) + ErrNotBoundCount (Metrics d1) + ErrExecuteCount (Metrics d1)))"
proof -
  let ?P = "\<lambda>s. \<exists>d. fst s = Some d \<and> accounts (length (snd s)) d"
  have "?P (foldl dispatch_step (Some NewLoopDispatcher, []) ops)"
  proof (rule foldl_invariant)
    show "?P (Some NewLoopDispatcher, [])" by (simp add: accounts_def NewLoopDispatcher_def)
  next
    fix s :: "LoopDispatcher option \<times> (event_loop \<times> 'a) list" and x
    assume "?P s"
    then obtain d out where s: "s = (Some d, out)" and acc: "accounts (length out) d" by (cases s) auto
    show "?P (dispatch_step s x)"
    proof (cases x)
      case (BindOp i l)
      with acc show ?thesis by (auto simp: s Bind_def accounts_def split: option.splits)
    next
      case (DispatchOp i t ex)
      obtain e d' ts where r: "Dispatch ex i t (Some d) = (e, d', ts)" using prod_cases3 by blast
      from Dispatch_cases [OF this] acc show ?thesis
        unfolding DispatchOp s by (auto simp: r accounts_def add.commute add.left_commute)
    qed
  qed
  then show ?thesis by (auto simp: accounts_def case_prod_beta)
qed

end
