(* ===== verification/Room_Manager.thy ===== *)
theory Room_Manager
  imports Conn_Context
begin

text \<open>
  \<open>internal/room/manager.go\<close>: the rooms of this node. A room keeps one shard of connections per event
  loop, a counter per shard, the number of its local connections, the time it was last emptied
  and a bitmap of the loops that have connections; rooms live in buckets chosen by an FNV-1a hash.

  The abstraction \<open>members m rid\<close> is the map from (loop, connection id) to connection of room \<open>rid\<close>; every
  operation is shown to be the expected one on it, and the counters, the bitmap and the idle mark
  to agree with it.
\<close>

section \<open>Rooms, buckets and the manager\<close>

record Room =
  room_ID :: int64
  Shards :: "(string \<times> conn) list list"
  ShardConnCount :: "int32 list"
  LocalConnCount :: int64
  LastEmptyTime :: int64
  ActiveLoops :: uint64

type_synonym bucket = "int64 \<rightharpoonup> Room"

record Manager =
  buckets :: "bucket list"
  bucketNum :: nat
  loopCount :: nat

text \<open>\<open>NewManager\<close>: \<open>None\<close> is the panic for more than 64 loops.\<close>

definition NewManager :: "int \<Rightarrow> Manager option" where
  "NewManager loops =
    (let loops = (if loops \<le> 0 then 1 else loops)
     in if loops > 64 then None
        else let n = (if loops * 4 < 16 then 16 else loops * 4)
        in Some \<lparr>buckets = replicate (nat n) Map.empty, bucketNum = nat n, loopCount = nat loops\<rparr>)"

text \<open>\<open>hash/fnv\<close>, \<open>New32a\<close>: xor the byte in, multiply by the FNV prime.\<close>

definition fnv32a :: "bytes \<Rightarrow> uint32" where
  "fnv32a bs = foldl (\<lambda>h b. (h XOR ucast b) * 16777619) 2166136261 bs"

definition bucketIndex :: "Manager \<Rightarrow> int64 \<Rightarrow> nat" where
  "bucketIndex m roomID =
    (let b = map (\<lambda>i. ucast (signed_drop_bit (8 * i) roomID) :: byte) [0..<8]
     in unat (fnv32a b mod of_nat (bucketNum m)))"

definition Get :: "Manager \<Rightarrow> int64 \<Rightarrow> Room option" where
  "Get m roomID = (buckets m ! bucketIndex m roomID) roomID"

text \<open>Storing a room in its bucket: the code writes through the \<open>*Room\<close> pointer the bucket holds.\<close>

definition put_room :: "Manager \<Rightarrow> int64 \<Rightarrow> Room \<Rightarrow> Manager" where
  "put_room m roomID r =
    (let idx = bucketIndex m roomID
     in m\<lparr>buckets := (buckets m)[idx := (buckets m ! idx)(roomID \<mapsto> r)]\<rparr>)"

definition new_room :: "Manager \<Rightarrow> int64 \<Rightarrow> Room" where
  "new_room m roomID =
    \<lparr>room_ID = roomID, Shards = replicate (loopCount m) [],
     ShardConnCount = replicate (loopCount m) 0, LocalConnCount = 0, LastEmptyTime = 0,
     ActiveLoops = 0\<rparr>"

definition GetOrCreate :: "Manager \<Rightarrow> int64 \<Rightarrow> Room \<times> Manager" where
  "GetOrCreate m roomID =
    (case Get m roomID of
       Some r \<Rightarrow> (r, m)
     | None \<Rightarrow> let r = new_room m roomID in (r, put_room m roomID r))"

section \<open>Joining and leaving\<close>

definition add_conn :: "Room \<Rightarrow> nat \<Rightarrow> string \<Rightarrow> conn \<Rightarrow> Room" where
  "add_conn r l connID c =
    (if map_of (Shards r ! l) connID \<noteq> None then
       r\<lparr>Shards := (Shards r)[l := AList.update connID c (Shards r ! l)]\<rparr>
     else
       let newCount = ShardConnCount r ! l + 1
       in r\<lparr>Shards := (Shards r)[l := AList.update connID c (Shards r ! l)],
            LocalConnCount := LocalConnCount r + 1,
            ShardConnCount := (ShardConnCount r)[l := newCount],
            ActiveLoops := (if newCount = 1 then ActiveLoops r OR push_bit l 1 else ActiveLoops r),
            LastEmptyTime := 0\<rparr>)"

definition AddConnInLoop :: "Manager \<Rightarrow> int64 \<Rightarrow> int \<Rightarrow> string \<Rightarrow> conn option \<Rightarrow> Manager" where
  "AddConnInLoop m roomID loopIdx connID co =
    (case co of
       None \<Rightarrow> m
     | Some c \<Rightarrow>
       if sint roomID \<le> 0 \<or> connID = '''' then m
       else if loopIdx < 0 \<or> int (loopCount m) \<le> loopIdx then m
       else case GetOrCreate m roomID of
              (r, m') \<Rightarrow> put_room m' roomID (add_conn r (nat loopIdx) connID c))"

definition remove_conn :: "Room \<Rightarrow> nat \<Rightarrow> string \<Rightarrow> int64 \<Rightarrow> Room" where
  "remove_conn r l connID now =
    (if map_of (Shards r ! l) connID = None then r
     else
       let newCount = ShardConnCount r ! l - 1;
           localCount = LocalConnCount r - 1
       in r\<lparr>Shards := (Shards r)[l := AList.delete connID (Shards r ! l)],
            LocalConnCount := localCount,
            ShardConnCount := (ShardConnCount r)[l := newCount],
            ActiveLoops := (if newCount = 0 then ActiveLoops r AND NOT (push_bit l 1) else ActiveLoops r),
            LastEmptyTime := (if localCount = 0 then now else LastEmptyTime r)\<rparr>)"

text \<open>\<open>now\<close> is the reading of \<open>time.Now().Unix()\<close> taken when the room empties.\<close>

definition RemoveConnInLoop :: "int64 \<Rightarrow> Manager \<Rightarrow> int64 \<Rightarrow> int \<Rightarrow> string \<Rightarrow> Manager" where
  "RemoveConnInLoop now m roomID loopIdx connID =
    (if sint roomID \<le> 0 \<or> connID = '''' then m
     else if loopIdx < 0 \<or> int (loopCount m) \<le> loopIdx then m
     else case Get m roomID of
            None \<Rightarrow> m
          | Some r \<Rightarrow> put_room m roomID (remove_conn r (nat loopIdx) connID now))"

section \<open>Queries\<close>

definition HasLocalRoom :: "Manager \<Rightarrow> int64 \<Rightarrow> bool" where
  "HasLocalRoom m roomID =
    (case Get m roomID of None \<Rightarrow> False | Some r \<Rightarrow> 0 < sint (LocalConnCount r))"

definition ConnCount :: "Manager \<Rightarrow> int64 \<Rightarrow> int64" where
  "ConnCount m roomID = (case Get m roomID of None \<Rightarrow> 0 | Some r \<Rightarrow> LocalConnCount r)"

definition ActiveLoopBitmap :: "Manager \<Rightarrow> int64 \<Rightarrow> uint64" where
  "ActiveLoopBitmap m roomID = (case Get m roomID of None \<Rightarrow> 0 | Some r \<Rightarrow> ActiveLoops r)"

text \<open>\<open>bits.TrailingZeros64\<close>.\<close>

function trailing_zeros :: "nat \<Rightarrow> uint64 \<Rightarrow> nat" where
  "trailing_zeros i w = (if 64 \<le> i then 64 else if bit w i then i else trailing_zeros (Suc i) w)"
  by pat_completeness auto
termination
  by (relation "measure (\<lambda>(i, w). 64 - i)") auto

declare trailing_zeros.simps [simp del]

definition TrailingZeros64 :: "uint64 \<Rightarrow> nat" where
  "TrailingZeros64 w = trailing_zeros 0 w"

text \<open>\<open>for bitmap != 0\<close>: take the lowest set bit, then clear it (\<open>bitmap &= bitmap - 1\<close>).\<close>

function bitmap_indexes :: "uint64 \<Rightarrow> nat list" where
  "bitmap_indexes bitmap =
    (if bitmap = 0 then []
     else TrailingZeros64 bitmap # bitmap_indexes (bitmap AND (bitmap - 1)))"
  by pat_completeness auto
termination
  by (relation "measure unat") (auto simp: clear_lowest_bit_less simp flip: word_less_nat_alt)

declare bitmap_indexes.simps [simp del]

text \<open>The code returns \<open>nil\<close> for an unknown room or an empty bitmap: an empty slice here.\<close>

definition ActiveLoopIndexes :: "Manager \<Rightarrow> int64 \<Rightarrow> nat list" where
  "ActiveLoopIndexes m roomID =
    (case Get m roomID of
       None \<Rightarrow> []
     | Some r \<Rightarrow> if ActiveLoops r = 0 then [] else bitmap_indexes (ActiveLoops r))"

text \<open>\<open>RangeShardInLoop\<close> and \<open>RangeLoopConns\<close> call back on each entry: the model returns the entries.\<close>

definition RangeShardInLoop :: "Manager \<Rightarrow> int64 \<Rightarrow> int \<Rightarrow> (string \<times> conn) list" where
  "RangeShardInLoop m roomID loopIdx =
    (if loopIdx < 0 \<or> int (loopCount m) \<le> loopIdx then []
     else case Get m roomID of None \<Rightarrow> [] | Some r \<Rightarrow> Shards r ! nat loopIdx)"

definition RangeLoopConns :: "Room \<Rightarrow> int \<Rightarrow> conn list" where
  "RangeLoopConns r loopIdx =
    (if loopIdx < 0 \<or> int (length (Shards r)) \<le> loopIdx then []
     else map snd (Shards r ! nat loopIdx))"

section \<open>The idle room cleaner\<close>

text \<open>
  The check interval in nanoseconds (\<open>time.Duration\<close>): half the idle time (truncated division), at
  least ten seconds; the multiplication by a second may wrap.
\<close>

definition checkInterval :: "int64 \<Rightarrow> int64" where
  "checkInterval idleSeconds =
    (let half = sgn (sint idleSeconds) * (\<bar>sint idleSeconds\<bar> div 2);
         d = of_int half * 1000000000 :: int64
     in if sint d < 10 * 1000000000 then 10 * 1000000000 else d)"

definition evictable :: "int64 \<Rightarrow> int64 \<Rightarrow> Room \<Rightarrow> bool" where
  "evictable now idleSeconds r \<longleftrightarrow>
     LocalConnCount r = 0 \<and> 0 < sint (LastEmptyTime r) \<and>
     sint idleSeconds < sint (now - LastEmptyTime r)"

definition cleanBucket :: "Manager \<Rightarrow> nat \<Rightarrow> int64 \<Rightarrow> int64 \<Rightarrow> Manager" where
  "cleanBucket m idx now idleSeconds =
    m\<lparr>buckets := (buckets m)[idx := (\<lambda>roomID.
        case (buckets m ! idx) roomID of
          None \<Rightarrow> None
        | Some r \<Rightarrow> if evictable now idleSeconds r then None else Some r)]\<rparr>"

text \<open>One tick of \<open>StartRoomCleaner\<close>: every bucket in turn, with one reading of the clock.\<close>

definition room_cleaner_tick :: "Manager \<Rightarrow> int64 \<Rightarrow> int64 \<Rightarrow> Manager" where
  "room_cleaner_tick m now idleSeconds =
    foldl (\<lambda>m i. cleanBucket m i now idleSeconds) m [0..<bucketNum m]"

section \<open>Bitmaps\<close>

lemma trailing_zeros_lowest:
  assumes "\<exists>j. i \<le> j \<and> bit w j"
  shows "bit w (trailing_zeros i w) \<and> i \<le> trailing_zeros i w \<and>
         (\<forall>k. i \<le> k \<and> k < trailing_zeros i w \<longrightarrow> \<not> bit w k)"
  using assms
proof (induction i w rule: trailing_zeros.induct)
  case (1 i w)
  from "1.prems" obtain j where "i \<le> j" and "bit w j" by blast
  with bit_imp_le_length [of w j] have lt: "\<not> 64 \<le> i" by simp
  show ?case
  proof (cases "bit w i")
    case True
    with lt show ?thesis by (auto simp: trailing_zeros.simps [of i])
  next
    case False
    with "1.prems" have "\<exists>j. Suc i \<le> j \<and> bit w j" by (metis Suc_leI le_neq_implies_less)
    from "1.IH" [OF lt False this] lt False show ?thesis
      by (auto simp: trailing_zeros.simps [of i]) (metis Suc_leI le_neq_implies_less)
  qed
qed

lemma TrailingZeros64_lowest:
  assumes "w \<noteq> 0"
  shows "bit w (TrailingZeros64 w)" and "k < TrailingZeros64 w \<Longrightarrow> \<not> bit w k"
proof -
  from assms obtain j where "bit w j" by (metis bit_0_eq bit_eq_iff bot_apply bot_bool_def)
  then have "\<exists>j. 0 \<le> j \<and> bit w j" by blast
  from trailing_zeros_lowest [OF this]
  show "bit w (TrailingZeros64 w)" "k < TrailingZeros64 w \<Longrightarrow> \<not> bit w k"
    by (auto simp: TrailingZeros64_def)
qed

lemma bitmap_indexes_spec:
  "set (bitmap_indexes w) = {i. bit w i} \<and> sorted_wrt (<) (bitmap_indexes w)"
proof (induction w rule: bitmap_indexes.induct)
  case (1 w)
  show ?case
  proof (cases "w = 0")
    case True
    then show ?thesis by (simp add: bitmap_indexes.simps)
  next
    case False
    let ?t = "TrailingZeros64 w"
    note low = TrailingZeros64_lowest [OF False]
    note clr = bit_clear_lowest [OF low(1) low(2)]
    have "set (bitmap_indexes w) = {i. bit w i}"
      using 1 False low(1) by (auto simp: bitmap_indexes.simps [of w] clr)
    moreover have "\<forall>i \<in> set (bitmap_indexes (w AND (w - 1))). ?t < i"
      using 1 False low(2) by (auto simp: clr)
    ultimately show ?thesis
      using 1 False by (simp add: bitmap_indexes.simps [of w])
  qed
qed

section \<open>Invariants and the abstraction\<close>

text \<open>
  \<open>wf_room n r\<close>: shards and counters exist for the \<open>n\<close> loops, no connection id occurs twice in a shard, and the
  counters count, each at its width (\<open>of_nat\<close> wraps as the atomic additions do).
\<close>

definition room_total :: "Room \<Rightarrow> nat" where
  "room_total r = sum_list (map length (Shards r))"

definition wf_room :: "nat \<Rightarrow> Room \<Rightarrow> bool" where
  "wf_room n r \<longleftrightarrow>
     length (Shards r) = n \<and> length (ShardConnCount r) = n \<and>
     (\<forall>l<n. keys_distinct (Shards r ! l)) \<and>
     (\<forall>l<n. ShardConnCount r ! l = of_nat (length (Shards r ! l))) \<and>
     LocalConnCount r = of_nat (room_total r)"

text \<open>
  \<open>exact_room r\<close>: the bitmap names exactly the loops with connections, and a room with connections
  carries no idle mark. It needs the counters not to have wrapped: \<open>small_room\<close>.
\<close>

definition exact_room :: "Room \<Rightarrow> bool" where
  "exact_room r \<longleftrightarrow>
     (\<forall>l. bit (ActiveLoops r) l \<longleftrightarrow> l < length (Shards r) \<and> Shards r ! l \<noteq> []) \<and>
     (room_total r \<noteq> 0 \<longrightarrow> LastEmptyTime r = 0)"

definition small_room :: "Room \<Rightarrow> bool" where
  "small_room r \<longleftrightarrow> room_total r < 2 ^ 31"

definition wf_geometry :: "Manager \<Rightarrow> bool" where
  "wf_geometry m \<longleftrightarrow> 1 \<le> loopCount m \<and> loopCount m \<le> 64 \<and>
     bucketNum m = max 16 (4 * loopCount m) \<and> length (buckets m) = bucketNum m"

definition bucket_ok :: "Manager \<Rightarrow> nat \<Rightarrow> bool" where
  "bucket_ok m b \<longleftrightarrow> (\<forall>rid r. (buckets m ! b) rid = Some r \<longrightarrow>
     b = bucketIndex m rid \<and> room_ID r = rid \<and> wf_room (loopCount m) r)"

definition wf_manager :: "Manager \<Rightarrow> bool" where
  "wf_manager m \<longleftrightarrow> wf_geometry m \<and> (\<forall>b<bucketNum m. bucket_ok m b)"

definition exact_manager :: "Manager \<Rightarrow> bool" where
  "exact_manager m \<longleftrightarrow> (\<forall>rid r. Get m rid = Some r \<longrightarrow> exact_room r)"

definition small_manager :: "Manager \<Rightarrow> bool" where
  "small_manager m \<longleftrightarrow> (\<forall>rid r. Get m rid = Some r \<longrightarrow> small_room r)"

definition members :: "Manager \<Rightarrow> int64 \<Rightarrow> int \<times> string \<Rightarrow> conn option" where
  "members m roomID = (\<lambda>(l, connID).
     case Get m roomID of
       None \<Rightarrow> None
     | Some r \<Rightarrow> if l < 0 \<or> int (loopCount m) \<le> l then None
                else map_of (Shards r ! nat l) connID)"

lemma bucketIndex_bound:
  assumes "wf_manager m"
  shows "bucketIndex m rid < bucketNum m" and "bucketIndex m rid < length (buckets m)"
proof -
  from assms have n: "0 < bucketNum m" "bucketNum m < 2 ^ 32" "length (buckets m) = bucketNum m"
    by (auto simp: wf_manager_def wf_geometry_def)
  then have "unat (of_nat (bucketNum m) :: uint32) = bucketNum m" by (simp add: unat_of_nat)
  with n show "bucketIndex m rid < bucketNum m" "bucketIndex m rid < length (buckets m)"
    by (simp_all add: bucketIndex_def Let_def unat_mod)
qed

lemma bucketIndex_cong [simp]:
  "bucketIndex (m\<lparr>buckets := bs\<rparr>) = bucketIndex m"
  by (simp add: bucketIndex_def fun_eq_iff)

lemma put_room_fields [simp]:
  "bucketNum (put_room m rid r) = bucketNum m" "loopCount (put_room m rid r) = loopCount m"
  "length (buckets (put_room m rid r)) = length (buckets m)"
  "bucketIndex (put_room m rid r) = bucketIndex m"
  by (simp_all add: put_room_def Let_def)

lemma Get_put_room:
  assumes "wf_manager m"
  shows "Get (put_room m rid r) rid' = (if rid' = rid then Some r else Get m rid')"
  using bucketIndex_bound [OF assms]
  by (simp add: Get_def put_room_def Let_def nth_list_update)

lemma wf_manager_Get:
  assumes "wf_manager m" and "Get m rid = Some r"
  shows "room_ID r = rid" and "wf_room (loopCount m) r"
proof -
  have "bucket_ok m (bucketIndex m rid)"
    using assms(1) bucketIndex_bound(1) [OF assms(1), of rid] by (simp add: wf_manager_def)
  with assms(2) show "room_ID r = rid" "wf_room (loopCount m) r"
    unfolding bucket_ok_def Get_def by blast+
qed

lemma wf_put_room:
  assumes "wf_manager m" and "room_ID r = rid" and "wf_room (loopCount m) r"
  shows "wf_manager (put_room m rid r)"
proof -
  have "bucket_ok (put_room m rid r) b" if "b < bucketNum m" for b
    using assms that bucketIndex_bound [OF assms(1), of rid]
    by (auto simp: wf_manager_def bucket_ok_def put_room_def Let_def nth_list_update)
  moreover have "wf_geometry (put_room m rid r)"
    using assms by (simp add: wf_manager_def wf_geometry_def)
  ultimately show ?thesis by (simp add: wf_manager_def)
qed

lemma wf_new_room: "wf_room (loopCount m) (new_room m rid)"
  by (simp add: wf_room_def new_room_def room_total_def sum_list_replicate)

lemma exact_new_room: "exact_room (new_room m rid)"
  by (auto simp: exact_room_def new_room_def room_total_def sum_list_replicate)

lemma room_ID_new_room: "room_ID (new_room m rid) = rid"
  by (simp add: new_room_def)

lemma GetOrCreate_Some: "Get m rid = Some r \<Longrightarrow> GetOrCreate m rid = (r, m)"
  by (simp add: GetOrCreate_def)

lemma GetOrCreate_None:
  "Get m rid = None \<Longrightarrow> GetOrCreate m rid = (new_room m rid, put_room m rid (new_room m rid))"
  by (simp add: GetOrCreate_def Let_def)

lemma GetOrCreate_spec:
  assumes "wf_manager m" and "GetOrCreate m rid = (r, m')"
  shows "wf_manager m'" and "Get m' rid = Some r" and "wf_room (loopCount m) r" and "room_ID r = rid"
    and "loopCount m' = loopCount m" and "rid' \<noteq> rid \<Longrightarrow> Get m' rid' = Get m rid'"
    and "r = (case Get m rid of None \<Rightarrow> new_room m rid | Some r \<Rightarrow> r)"
  using assms wf_manager_Get [OF assms(1), of rid]
    wf_put_room [OF assms(1) room_ID_new_room [of m rid] wf_new_room [of m rid]]
    room_ID_new_room [of m rid] wf_new_room [of m rid] Get_put_room [OF assms(1)]
  by (cases "Get m rid"; auto simp: GetOrCreate_Some GetOrCreate_None)+

section \<open>One room\<close>

lemma room_total_update:
  assumes "l < length (Shards r)"
  shows "sum_list (map length ((Shards r)[l := s])) + length (Shards r ! l) = room_total r + length s"
  using sum_list_update_nat [of l "map length (Shards r)" "length s"] assms
  by (simp add: room_total_def map_update)

lemma shard_le_total: "l < length (Shards r) \<Longrightarrow> length (Shards r ! l) \<le> room_total r"
  unfolding room_total_def
  using elem_le_sum_list [of l "map length (Shards r)"] by simp

lemma add_conn_old:
  "map_of (Shards r ! l) connID \<noteq> None \<Longrightarrow> add_conn r l connID c =
     r\<lparr>Shards := (Shards r)[l := AList.update connID c (Shards r ! l)]\<rparr>"
  by (simp add: add_conn_def)

lemma room_total_add:
  assumes "l < length (Shards r)"
  shows "room_total (add_conn r l connID c) =
    (if map_of (Shards r ! l) connID = None then Suc (room_total r) else room_total r)"
  using room_total_update [OF assms, of "AList.update connID c (Shards r ! l)"]
  by (auto simp: add_conn_def Let_def room_total_def length_alist_update)

lemma room_total_remove:
  assumes "wf_room n r" and "l < n"
  shows "room_total (remove_conn r l connID now) =
    (if map_of (Shards r ! l) connID = None then room_total r else room_total r - 1)"
proof (cases "map_of (Shards r ! l) connID")
  case None
  then show ?thesis by (simp add: remove_conn_def)
next
  case (Some c)
  have l: "l < length (Shards r)" and d: "keys_distinct (Shards r ! l)"
    using assms by (simp_all add: wf_room_def)
  have "room_total (remove_conn r l connID now) + length (Shards r ! l)
      = room_total r + length (AList.delete connID (Shards r ! l))"
    using room_total_update [OF l, of "AList.delete connID (Shards r ! l)"] Some
    by (simp add: remove_conn_def Let_def room_total_def)
  also have "length (AList.delete connID (Shards r ! l)) = length (Shards r ! l) - 1"
    using length_alist_delete [OF d, of connID] Some by simp
  finally show ?thesis
    using map_of_Some_length [OF Some] Some shard_le_total [OF l] by simp
qed

lemma wf_add_conn:
  assumes "wf_room n r" and "l < n"
  shows "wf_room n (add_conn r l connID c)"
  using assms room_total_add [of l r connID c]
  by (auto simp: wf_room_def add_conn_def Let_def nth_list_update length_alist_update distinct_update
      room_total_def)

lemma wf_remove_conn:
  assumes "wf_room n r" and "l < n"
  shows "wf_room n (remove_conn r l connID now)"
proof (cases "map_of (Shards r ! l) connID")
  case None
  with assms show ?thesis by (simp add: remove_conn_def)
next
  case (Some c)
  have d: "keys_distinct (Shards r ! l)" using assms by (simp add: wf_room_def)
  have pos: "0 < length (Shards r ! l)" using Some by (rule map_of_Some_length)
  have "length (Shards r ! l) \<le> room_total r"
    using assms by (intro shard_le_total) (simp add: wf_room_def)
  with pos have tot: "1 \<le> room_total r" by linarith
  have "LocalConnCount (remove_conn r l connID now) = of_nat (room_total r) - 1"
    using assms Some by (simp add: remove_conn_def Let_def wf_room_def)
  also have "\<dots> = of_nat (room_total r - 1)" using tot by simp
  also have "\<dots> = of_nat (room_total (remove_conn r l connID now))"
    using room_total_remove [OF assms, of connID now] Some by simp
  finally have local: "LocalConnCount (remove_conn r l connID now) =
    of_nat (room_total (remove_conn r l connID now))" .
  have "of_nat (length (Shards r ! l)) - 1 = (of_nat (length (AList.delete connID (Shards r ! l))) :: int32)"
    using length_alist_delete [OF d, of connID] Some pos by (cases "Shards r ! l") simp_all
  with assms Some local d show ?thesis
    by (auto simp: wf_room_def remove_conn_def Let_def nth_list_update distinct_delete)
qed

lemma small_room_shard:
  assumes "wf_room n r" and "l < n" and "small_room r"
  shows "length (Shards r ! l) < 2 ^ 31"
  using assms shard_le_total [of l r] by (simp add: wf_room_def small_room_def)

lemma exact_add_conn:
  assumes wf: "wf_room n r" and l: "l < n" "n \<le> 64" and ex: "exact_room r" and small: "small_room r"
  shows "exact_room (add_conn r l connID c)"
proof (cases "map_of (Shards r ! l) connID")
  case (Some d)
  then have "AList.update connID c (Shards r ! l) \<noteq> []" and "Shards r ! l \<noteq> []"
    by (auto simp: alist_empty_iff)
  with ex Some room_total_add [of l r connID c] wf l show ?thesis
    by (auto simp: exact_room_def add_conn_def nth_list_update wf_room_def)
next
  case None
  have cnt: "ShardConnCount r ! l = of_nat (length (Shards r ! l))"
    using wf l by (simp add: wf_room_def)
  have "length (Shards r ! l) < 2 ^ 31" using small_room_shard [OF wf l(1) small] .
  then have "ShardConnCount r ! l + 1 = 1 \<longleftrightarrow> Shards r ! l = []"
    unfolding cnt by (simp add: of_nat_eq_0_small)
  moreover have "AList.update connID c (Shards r ! l) \<noteq> []" by (simp add: alist_update_new None)
  ultimately show ?thesis
    using ex None wf l
    by (auto simp: exact_room_def add_conn_def Let_def nth_list_update wf_room_def bit_simps)
qed

lemma exact_remove_conn:
  assumes wf: "wf_room n r" and l: "l < n" "n \<le> 64" and ex: "exact_room r" and small: "small_room r"
  shows "exact_room (remove_conn r l connID now)"
proof (cases "map_of (Shards r ! l) connID")
  case None
  with ex show ?thesis by (simp add: remove_conn_def)
next
  case (Some c)
  let ?r' = "remove_conn r l connID now"
  have wf': "wf_room n ?r'" using wf l(1) by (rule wf_remove_conn)
  have sh: "Shards ?r' = (Shards r)[l := AList.delete connID (Shards r ! l)]"
    and cc: "ShardConnCount ?r' ! l = ShardConnCount r ! l - 1"
    and al: "ActiveLoops ?r' = (if ShardConnCount r ! l - 1 = 0
      then ActiveLoops r AND NOT (push_bit l 1) else ActiveLoops r)"
    and le: "LastEmptyTime ?r' = (if LocalConnCount ?r' = 0 then now else LastEmptyTime r)"
    using Some wf l by (simp_all add: remove_conn_def Let_def wf_room_def)
  have len: "length (Shards r) = n" using wf by (simp add: wf_room_def)
  have "length (Shards r ! l) \<le> room_total r" using shard_le_total [of l r] len l by simp
  with map_of_Some_length [OF Some] have "room_total r \<noteq> 0" by linarith
  then have tot: "room_total ?r' = room_total r - 1" "room_total r \<noteq> 0"
    using room_total_remove [OF wf l(1), of connID now] Some by simp_all
  have small': "small_room ?r'" using small tot by (simp add: small_room_def)
  have "length (Shards ?r' ! l) < 2 ^ 32"
    using small_room_shard [OF wf' l(1) small'] by simp
  moreover have "ShardConnCount ?r' ! l = of_nat (length (Shards ?r' ! l))"
    using wf' l by (simp add: wf_room_def)
  ultimately have zero: "ShardConnCount r ! l - 1 = 0 \<longleftrightarrow> AList.delete connID (Shards r ! l) = []"
    using cc sh len l by (simp add: of_nat_eq_0_small)
  have ne: "Shards r ! l \<noteq> []" using map_of_Some_length [OF Some] by simp
  have old: "bit (ActiveLoops r) j \<longleftrightarrow> j < n \<and> Shards r ! j \<noteq> []" for j
    using ex len by (simp add: exact_room_def)
  have "bit (ActiveLoops ?r') j \<longleftrightarrow>
      bit (ActiveLoops r) j \<and> \<not> (j = l \<and> AList.delete connID (Shards r ! l) = [])" for j
    unfolding al zero using l by (auto simp: bit_simps dest: bit_imp_le_length)
  note new = this
  have bits: "bit (ActiveLoops ?r') j \<longleftrightarrow> j < length (Shards ?r') \<and> Shards ?r' ! j \<noteq> []" for j
  proof (cases "j = l")
    case True
    with new [of l] old [of l] ne len l(1) show ?thesis by (simp add: sh)
  next
    case False
    with new [of j] old [of j] len show ?thesis by (simp add: sh)
  qed
  have "LocalConnCount ?r' \<noteq> 0" if "room_total ?r' \<noteq> 0"
    using that small' wf' by (simp add: wf_room_def small_room_def of_nat_eq_0_small)
  with le ex tot have "room_total ?r' \<noteq> 0 \<longrightarrow> LastEmptyTime ?r' = 0"
    by (simp add: exact_room_def)
  with bits show ?thesis by (simp add: exact_room_def)
qed

section \<open>The manager's operations\<close>

text \<open>The arguments the guards of \<open>AddConnInLoop\<close> and \<open>RemoveConnInLoop\<close> let through.\<close>

definition valid_slot :: "Manager \<Rightarrow> int64 \<Rightarrow> int \<Rightarrow> string \<Rightarrow> bool" where
  "valid_slot m rid l connID \<longleftrightarrow> 0 < sint rid \<and> connID \<noteq> '''' \<and> 0 \<le> l \<and> l < int (loopCount m)"

lemma valid_slot_nat: "valid_slot m rid l connID \<Longrightarrow> nat l < loopCount m"
  by (auto simp: valid_slot_def nat_less_iff)

lemma AddConnInLoop_invalid:
  "\<not> valid_slot m rid l connID \<Longrightarrow> AddConnInLoop m rid l connID (Some c) = m"
  by (auto simp: AddConnInLoop_def valid_slot_def)

lemma AddConnInLoop_None [simp]: "AddConnInLoop m rid l connID None = m"
  by (simp add: AddConnInLoop_def)

lemma AddConnInLoop_valid:
  assumes "valid_slot m rid l connID"
  shows "AddConnInLoop m rid l connID (Some c) =
    (case GetOrCreate m rid of (r, m') \<Rightarrow> put_room m' rid (add_conn r (nat l) connID c))"
  using assms by (auto simp: AddConnInLoop_def valid_slot_def)

lemma RemoveConnInLoop_invalid:
  "\<not> valid_slot m rid l connID \<Longrightarrow> RemoveConnInLoop now m rid l connID = m"
  by (auto simp: RemoveConnInLoop_def valid_slot_def)

lemma RemoveConnInLoop_valid:
  assumes "valid_slot m rid l connID"
  shows "RemoveConnInLoop now m rid l connID =
    (case Get m rid of None \<Rightarrow> m | Some r \<Rightarrow> put_room m rid (remove_conn r (nat l) connID now))"
  using assms by (auto simp: RemoveConnInLoop_def valid_slot_def)

lemma loopCount_Add [simp]: "loopCount (AddConnInLoop m rid l connID co) = loopCount m"
  by (auto simp: AddConnInLoop_def GetOrCreate_def Let_def split: option.splits)

lemma loopCount_Remove [simp]: "loopCount (RemoveConnInLoop now m rid l connID) = loopCount m"
  by (auto simp: RemoveConnInLoop_def split: option.splits)

lemma room_ID_add_conn [simp]: "room_ID (add_conn r l connID c) = room_ID r"
  by (simp add: add_conn_def Let_def)

lemma room_ID_remove_conn [simp]: "room_ID (remove_conn r l connID now) = room_ID r"
  by (simp add: remove_conn_def Let_def)

lemma Get_Add:
  assumes "wf_manager m"
  shows "Get (AddConnInLoop m rid l connID (Some c)) rid' =
    (if valid_slot m rid l connID \<and> rid' = rid
     then Some (add_conn (case Get m rid of None \<Rightarrow> new_room m rid | Some r \<Rightarrow> r) (nat l) connID c)
     else Get m rid')"
proof (cases "valid_slot m rid l connID")
  case False
  then show ?thesis by (simp add: AddConnInLoop_invalid)
next
  case True
  obtain r m' where g: "GetOrCreate m rid = (r, m')" by (cases "GetOrCreate m rid")
  note spec = GetOrCreate_spec [OF assms g]
  from True g show ?thesis
    by (simp add: AddConnInLoop_valid Get_put_room [OF spec(1)] spec(6) spec(7) [symmetric])
qed

lemma wf_Add:
  assumes "wf_manager m"
  shows "wf_manager (AddConnInLoop m rid l connID co)"
proof (cases co)
  case None
  with assms show ?thesis by simp
next
  case (Some c)
  show ?thesis
  proof (cases "valid_slot m rid l connID")
    case False
    with assms Some show ?thesis by (simp add: AddConnInLoop_invalid)
  next
    case True
    obtain r m' where g: "GetOrCreate m rid = (r, m')" by (cases "GetOrCreate m rid")
    note spec = GetOrCreate_spec [OF assms g]
    note slot = valid_slot_nat [OF True]
    with True g Some spec slot show ?thesis
      by (simp add: AddConnInLoop_valid wf_put_room wf_add_conn)
  qed
qed

lemma Get_Remove:
  assumes "wf_manager m"
  shows "Get (RemoveConnInLoop now m rid l connID) rid' =
    (if valid_slot m rid l connID \<and> rid' = rid
     then map_option (\<lambda>r. remove_conn r (nat l) connID now) (Get m rid) else Get m rid')"
  by (cases "valid_slot m rid l connID"; cases "Get m rid")
    (simp_all add: RemoveConnInLoop_invalid RemoveConnInLoop_valid Get_put_room [OF assms])

lemma wf_Remove:
  assumes "wf_manager m"
  shows "wf_manager (RemoveConnInLoop now m rid l connID)"
proof (cases "valid_slot m rid l connID")
  case False
  with assms show ?thesis by (simp add: RemoveConnInLoop_invalid)
next
  case True
  note slot = valid_slot_nat [OF True]
  with True assms wf_manager_Get [OF assms, of rid] slot show ?thesis
    by (auto simp: RemoveConnInLoop_valid wf_put_room wf_remove_conn split: option.splits)
qed

lemma members_Add:
  assumes "wf_manager m"
  shows "members (AddConnInLoop m rid l connID (Some c)) rid' =
    (if valid_slot m rid l connID \<and> rid' = rid
     then (members m rid)((l, connID) \<mapsto> c) else members m rid')"
proof (cases "valid_slot m rid l connID \<and> rid' = rid")
  case False
  then show ?thesis by (auto simp: members_def Get_Add [OF assms] fun_eq_iff split: option.splits)
next
  case True
  define r where "r = (case Get m rid of None \<Rightarrow> new_room m rid | Some r \<Rightarrow> r)"
  have len: "length (Shards r) = loopCount m"
    using wf_manager_Get(2) [OF assms, of rid]
    by (auto simp: r_def wf_room_def new_room_def split: option.splits)
  have old: "map_of (Shards r ! nat k) s = (case Get m rid of None \<Rightarrow> None | Some r \<Rightarrow> map_of (Shards r ! nat k) s)"
    if "0 \<le> k" "k < int (loopCount m)" for k s
    using that by (auto simp: r_def new_room_def split: option.splits)
  have slot: "map_of (Shards (add_conn r (nat l) connID c) ! k) =
      (if k = nat l then (map_of (Shards r ! k))(connID \<mapsto> c) else map_of (Shards r ! k))"
    if "k < loopCount m" for k
    using that len by (auto simp: add_conn_def Let_def nth_list_update)
  have "members (AddConnInLoop m rid l connID (Some c)) rid (k, s) =
      ((members m rid)((l, connID) \<mapsto> c)) (k, s)" for k s
    using True by (auto simp: members_def Get_Add [OF assms] valid_slot_def old slot
        simp flip: r_def split: option.splits)
  with True show ?thesis by auto
qed

lemma members_Remove:
  assumes "wf_manager m"
  shows "members (RemoveConnInLoop now m rid l connID) rid' =
    (if valid_slot m rid l connID \<and> rid' = rid
     then (members m rid)((l, connID) := None) else members m rid')"
proof (cases "valid_slot m rid l connID \<and> rid' = rid \<and> Get m rid \<noteq> None")
  case False
  then show ?thesis by (auto simp: members_def Get_Remove [OF assms] fun_eq_iff split: option.splits)
next
  case True
  then obtain r where r: "Get m rid = Some r" by auto
  have len: "length (Shards r) = loopCount m"
    using wf_manager_Get(2) [OF assms r] by (simp add: wf_room_def)
  have slot: "map_of (Shards (remove_conn r (nat l) connID now) ! k) =
      (if k = nat l then (map_of (Shards r ! k))(connID := None) else map_of (Shards r ! k))"
    if "k < loopCount m" for k
    using that len by (auto simp: remove_conn_def Let_def nth_list_update)
  have "members (RemoveConnInLoop now m rid l connID) rid (k, s) =
      ((members m rid)((l, connID) := None)) (k, s)" for k s
    using True by (auto simp: members_def Get_Remove [OF assms] r valid_slot_def slot)
  with True show ?thesis by auto
qed

section \<open>Counting and enumerating members\<close>

lemma dom_members:
  assumes "Get m rid = Some r"
  shows "dom (members m rid) =
    (SIGMA l : int ` {..<loopCount m}. dom (map_of (Shards r ! nat l)))"
proof -

  have slot: "(\<exists>c. members m rid (l, s) = Some c) \<longleftrightarrow>
      0 \<le> l \<and> l < int (loopCount m) \<and> (\<exists>c. map_of (Shards r ! nat l) s = Some c)" for l s
    using assms by (auto simp: members_def split: if_splits)
  show ?thesis
  proof (rule set_eqI)
    fix k :: "int \<times> string"
    obtain l s where k: "k = (l, s)" by (cases k)
    show "k \<in> dom (members m rid) \<longleftrightarrow>
        k \<in> (SIGMA l : int ` {..<loopCount m}. dom (map_of (Shards r ! nat l)))"
      unfolding k mem_Sigma_iff int_image_lessThan dom_def mem_Collect_eq not_None_eq slot by blast
  qed
qed

lemma card_dom_map_of: "keys_distinct xs \<Longrightarrow> card (dom (map_of xs)) = length xs"
  by (metis distinct_card dom_map_of_conv_image_fst length_map list.set_map)

lemma card_members:
  assumes "wf_manager m" and "Get m rid = Some r"
  shows "card (dom (members m rid)) = room_total r"
proof -
  have wf: "wf_room (loopCount m) r" using wf_manager_Get(2) [OF assms] .
  have "card (dom (members m rid)) = (\<Sum>l \<in> int ` {..<loopCount m}. card (dom (map_of (Shards r ! nat l))))"
    unfolding dom_members [OF assms(2)] by (rule card_SigmaI) (auto simp: finite_dom_map_of)
  also have "\<dots> = (\<Sum>l<loopCount m. card (dom (map_of (Shards r ! l))))"
    by (subst sum.reindex) (auto simp: inj_on_def)
  also have "\<dots> = (\<Sum>l<loopCount m. length (Shards r ! l))"
    using wf by (intro sum.cong) (auto simp: wf_room_def card_dom_map_of)
  also have "\<dots> = room_total r"
    using wf by (simp add: room_total_def sum_list_sum_nth wf_room_def atLeast0LessThan)
  finally show ?thesis .
qed

lemma ConnCount_members:
  assumes "wf_manager m"
  shows "ConnCount m rid = of_nat (card (dom (members m rid)))"
proof (cases "Get m rid")
  case None
  then show ?thesis by (simp add: ConnCount_def members_def dom_def)
next
  case (Some r)
  with card_members [OF assms Some] wf_manager_Get(2) [OF assms Some] show ?thesis
    by (simp add: ConnCount_def wf_room_def)
qed

lemma HasLocalRoom_members:
  assumes "wf_manager m" and "small_manager m"
  shows "HasLocalRoom m rid \<longleftrightarrow> (\<exists>k. members m rid k \<noteq> None)"
proof (cases "Get m rid")
  case None
  then show ?thesis by (simp add: HasLocalRoom_def members_def)
next
  case (Some r)
  have "room_total r < 2 ^ 31" using assms(2) Some by (auto simp: small_manager_def small_room_def)
  then have tot: "room_total r < 2 ^ 63" by simp
  have fin: "finite (dom (members m rid))"
    unfolding dom_members [OF Some] by (intro finite_SigmaI) (auto simp: finite_dom_map_of)
  have "sint (LocalConnCount r) = int (room_total r)"
    using wf_manager_Get(2) [OF assms(1) Some] tot by (simp add: wf_room_def sint_of_nat_small)
  then have "HasLocalRoom m rid \<longleftrightarrow> card (dom (members m rid)) \<noteq> 0"
    using card_members [OF assms(1) Some] Some by (simp add: HasLocalRoom_def)
  also have "\<dots> \<longleftrightarrow> (\<exists>k. members m rid k \<noteq> None)"
    using fin by auto
  finally show ?thesis .
qed

lemma ActiveLoopIndexes_set:
  assumes "wf_manager m" and "exact_manager m"
  shows "set (ActiveLoopIndexes m rid) = {l. \<exists>connID. members m rid (int l, connID) \<noteq> None}"
proof (cases "Get m rid")
  case None
  then show ?thesis by (simp add: ActiveLoopIndexes_def members_def)
next
  case (Some r)
  have wf: "wf_room (loopCount m) r" using wf_manager_Get(2) [OF assms(1) Some] .
  have bits: "bit (ActiveLoops r) l \<longleftrightarrow> l < loopCount m \<and> Shards r ! l \<noteq> []" for l
    using assms(2) Some wf by (simp add: exact_manager_def exact_room_def wf_room_def)
  have "set (ActiveLoopIndexes m rid) = {l. bit (ActiveLoops r) l}"
    using Some bitmap_indexes_spec [of "ActiveLoops r"] by (simp add: ActiveLoopIndexes_def)
  then show ?thesis
    using Some by (auto simp: bits members_def alist_empty_iff simp flip: not_None_eq split: if_splits)
qed

lemma ActiveLoopIndexes_sorted: "sorted_wrt (<) (ActiveLoopIndexes m rid)"
  using bitmap_indexes_spec by (simp add: ActiveLoopIndexes_def split: option.splits)

section \<open>Exactness along runs\<close>

lemma exact_Add:
  assumes "wf_manager m" and "exact_manager m" and "small_manager m"
  shows "exact_manager (AddConnInLoop m rid l connID co)"
proof (cases co)
  case None
  with assms show ?thesis by simp
next
  case (Some c)
  have n: "loopCount m \<le> 64" using assms(1) by (simp add: wf_manager_def wf_geometry_def)
  define r where "r = (case Get m rid of None \<Rightarrow> new_room m rid | Some r \<Rightarrow> r)"
  have r: "wf_room (loopCount m) r" "exact_room r" "small_room r"
    using assms wf_manager_Get(2) [OF assms(1), of rid] wf_new_room [of m rid] exact_new_room [of m rid]
    by (auto simp: r_def exact_manager_def small_manager_def small_room_def room_total_def
        new_room_def sum_list_replicate split: option.splits)
  show ?thesis
  proof (cases "valid_slot m rid l connID")
    case False
    with assms Some show ?thesis by (simp add: AddConnInLoop_invalid)
  next
    case True
    from exact_add_conn [OF r(1) valid_slot_nat [OF True] n r(2,3), of connID c]
    show ?thesis
      using assms Some by (auto simp: exact_manager_def Get_Add [OF assms(1)] simp flip: r_def)
  qed
qed

lemma exact_Remove:
  assumes "wf_manager m" and "exact_manager m" and "small_manager m"
  shows "exact_manager (RemoveConnInLoop now m rid l connID)"
proof -
  have n: "loopCount m \<le> 64" using assms(1) by (simp add: wf_manager_def wf_geometry_def)
  have "exact_room (remove_conn r (nat l) connID now)"
    if "valid_slot m rid l connID" "Get m rid = Some r" for r
    using that assms by (intro exact_remove_conn [OF wf_manager_Get(2) [OF assms(1)]
          valid_slot_nat n]) (auto simp: exact_manager_def small_manager_def)
  with assms(2) show ?thesis
    by (auto simp: exact_manager_def Get_Remove [OF assms(1)])
qed

section \<open>The cleaner\<close>

lemma Get_cleanBucket:
  assumes "idx < length (buckets m)"
  shows "Get (cleanBucket m idx now idle) rid =
    (case Get m rid of None \<Rightarrow> None
     | Some r \<Rightarrow> if bucketIndex m rid = idx \<and> evictable now idle r then None else Some r)"
  using assms by (auto simp: Get_def cleanBucket_def nth_list_update split: option.splits)

lemma cleanBucket_fields [simp]:
  "loopCount (cleanBucket m idx now idle) = loopCount m"
  "bucketNum (cleanBucket m idx now idle) = bucketNum m"
  "length (buckets (cleanBucket m idx now idle)) = length (buckets m)"
  "bucketIndex (cleanBucket m idx now idle) = bucketIndex m"
  by (simp_all add: cleanBucket_def)

lemma wf_cleanBucket:
  assumes "wf_manager m"
  shows "wf_manager (cleanBucket m idx now idle)"
proof -
  have "(buckets (cleanBucket m idx now idle) ! b) rid = Some r \<Longrightarrow> (buckets m ! b) rid = Some r" for b rid r
    by (cases "b = idx"; cases "idx < length (buckets m)")
      (auto simp: cleanBucket_def list_update_beyond split: option.splits if_splits)
  then have "bucket_ok m b \<Longrightarrow> bucket_ok (cleanBucket m idx now idle) b" for b
    unfolding bucket_ok_def by (simp, blast)
  with assms show ?thesis by (auto simp: wf_manager_def wf_geometry_def)
qed

lemma clean_buckets:
  assumes "wf_manager m" and "set is \<subseteq> {..<bucketNum m}"
  shows "let m' = foldl (\<lambda>m i. cleanBucket m i now idle) m is in
    wf_manager m' \<and> loopCount m' = loopCount m \<and>
    (\<forall>rid. Get m' rid = (case Get m rid of None \<Rightarrow> None
       | Some r \<Rightarrow> if bucketIndex m rid \<in> set is \<and> evictable now idle r then None else Some r))"
  using assms
proof (induction "is" arbitrary: m)
  case Nil
  then show ?case by (auto split: option.splits)
next
  case (Cons i "is")
  have "i < length (buckets m)" using Cons.prems by (auto simp: wf_manager_def wf_geometry_def)
  with Cons.IH [of "cleanBucket m i now idle"] Cons.prems wf_cleanBucket [OF Cons.prems(1), of i now idle]
  show ?case by (auto simp: Let_def Get_cleanBucket split: option.splits)
qed

lemma room_cleaner_tick_spec:
  assumes "wf_manager m"
  shows "wf_manager (room_cleaner_tick m now idle)"
    and "loopCount (room_cleaner_tick m now idle) = loopCount m"
    and "Get (room_cleaner_tick m now idle) rid =
      (case Get m rid of None \<Rightarrow> None | Some r \<Rightarrow> if evictable now idle r then None else Some r)"
  using clean_buckets [OF assms, of "[0..<bucketNum m]" now idle] bucketIndex_bound(1) [OF assms, of rid]
  by (auto simp: room_cleaner_tick_def Let_def atLeast0LessThan split: option.splits)

lemma members_room_cleaner_tick:
  assumes "wf_manager m" and "small_manager m"
  shows "members (room_cleaner_tick m now idle) rid = members m rid"
proof -
  have none: "map_of (Shards r ! nat l) connID = None"
    if r: "Get m rid = Some r" and ev: "evictable now idle r" and l: "0 \<le> l" "l < int (loopCount m)"
    for r l connID
  proof -
    have wf: "wf_room (loopCount m) r" using wf_manager_Get(2) [OF assms(1) r] .
    have "room_total r < 2 ^ 31" using assms(2) r by (auto simp: small_manager_def small_room_def)
    then have "room_total r < 2 ^ 64" by simp
    moreover have "(of_nat (room_total r) :: int64) = 0" using wf ev by (simp add: wf_room_def evictable_def)
    ultimately have "room_total r = 0" by (simp add: of_nat_eq_0_small)
    moreover have "length (Shards r ! nat l) \<le> room_total r"
      using wf l by (intro shard_le_total) (auto simp: wf_room_def nat_less_iff)
    ultimately show ?thesis by simp
  qed
  show ?thesis
    using none by (auto simp: members_def fun_eq_iff room_cleaner_tick_spec [OF assms(1)] split: option.splits)
qed

section \<open>The contract of a room store\<close>

text \<open>
  What the handlers rely on: joining and leaving update one slot of one room and leave the rest
  alone. The lemmas of the locale are the client's view: a run of operations is a run on the
  abstract memberships, and a join is undone by the leave of the same slot.
\<close>

datatype room_op =
    Join int64 int string conn
  | Leave int64 int64 int string

text \<open>The run on the abstract memberships; \<open>slot\<close> says which arguments take effect.\<close>

definition spec_step ::
  "(int64 \<Rightarrow> int \<Rightarrow> string \<Rightarrow> bool) \<Rightarrow> (int64 \<Rightarrow> int \<times> string \<Rightarrow> conn option) \<Rightarrow> room_op \<Rightarrow>
     (int64 \<Rightarrow> int \<times> string \<Rightarrow> conn option)" where
  "spec_step slot mem oper =
    (case oper of
       Join rid l s c \<Rightarrow> if slot rid l s then mem(rid := (mem rid)((l, s) \<mapsto> c)) else mem
     | Leave now rid l s \<Rightarrow> if slot rid l s then mem(rid := (mem rid)((l, s) := None)) else mem)"

definition room_step :: "Manager \<Rightarrow> room_op \<Rightarrow> Manager" where
  "room_step m oper =
    (case oper of
       Join rid l s c \<Rightarrow> AddConnInLoop m rid l s (Some c)
     | Leave now rid l s \<Rightarrow> RemoveConnInLoop now m rid l s)"

lemma exact_room_step:
  "wf_manager m \<Longrightarrow> exact_manager m \<Longrightarrow> small_manager m \<Longrightarrow> exact_manager (room_step m oper)"
  by (simp add: room_step_def exact_Add exact_Remove split: room_op.splits)

locale room_store =
  fixes invar :: "'m \<Rightarrow> bool"
    and slot :: "'m \<Rightarrow> int64 \<Rightarrow> int \<Rightarrow> string \<Rightarrow> bool"
    and step :: "'m \<Rightarrow> room_op \<Rightarrow> 'm"
    and mem :: "'m \<Rightarrow> int64 \<Rightarrow> int \<times> string \<Rightarrow> conn option"
  assumes invar_step: "invar m \<Longrightarrow> invar (step m oper)"
    and slot_step: "slot (step m oper) = slot m"
    and mem_step: "invar m \<Longrightarrow> mem (step m oper) = spec_step (slot m) (mem m) oper"
begin

lemma run_invar: "invar m \<Longrightarrow> invar (foldl step m ops)"
  by (induction ops arbitrary: m) (auto simp: invar_step)

lemma run_mem: "invar m \<Longrightarrow> mem (foldl step m ops) = foldl (spec_step (slot m)) (mem m) ops"
  by (induction ops arbitrary: m) (auto simp: invar_step mem_step slot_step)

lemma leave_undoes_join:
  assumes "invar m" and "mem m rid (l, s) = None"
  shows "mem (step (step m (Join rid l s c)) (Leave now rid l s)) = mem m"
  using assms by (auto simp: invar_step mem_step slot_step spec_step_def fun_eq_iff)

lemma other_rooms_untouched:
  assumes "invar m" and "rid' \<noteq> rid"
  shows "mem (step m (Join rid l s c)) rid' = mem m rid'"
    and "mem (step m (Leave now rid l s)) rid' = mem m rid'"
  using assms by (simp_all add: mem_step spec_step_def)

end

lemma valid_slot_loopCount: "loopCount m' = loopCount m \<Longrightarrow> valid_slot m' = valid_slot m"
  by (simp add: valid_slot_def fun_eq_iff)

interpretation rooms: room_store wf_manager valid_slot room_step members
proof
  fix m oper
  show "valid_slot (room_step m oper) = valid_slot m"
    by (rule valid_slot_loopCount) (simp add: room_step_def split: room_op.splits)
  assume "wf_manager m"
  then show "wf_manager (room_step m oper)"
    and "members (room_step m oper) = spec_step (valid_slot m) (members m) oper"
    by (auto simp: room_step_def spec_step_def wf_Add wf_Remove members_Add members_Remove fun_eq_iff
        split: room_op.splits)
qed

lemma wf_NewManager:
  assumes "NewManager loops = Some m"
  shows "wf_manager m" and "members m = (\<lambda>rid k. None)" and "exact_manager m" and "small_manager m"
    and "int (loopCount m) = max 1 loops" and "loops \<le> 64"
proof -
  define n where "n = nat (max 1 loops)"
  have n: "1 \<le> n" "n \<le> 64" "int n = max 1 loops" and le: "loops \<le> 64"
    using assms by (auto simp: NewManager_def n_def Let_def split: if_splits)
  have m: "m = \<lparr>buckets = replicate (max 16 (4 * n)) Map.empty, bucketNum = max 16 (4 * n), loopCount = n\<rparr>"
    using assms by (auto simp: NewManager_def n_def Let_def max_def nat_mult_distrib split: if_splits)
  show wf: "wf_manager m"
    using n by (auto simp: wf_manager_def wf_geometry_def bucket_ok_def m)
  have "Get m rid = None" for rid
    using bucketIndex_bound(1) [OF wf, of rid] by (simp add: Get_def m)
  then show "members m = (\<lambda>rid k. None)" "exact_manager m" "small_manager m"
    by (auto simp: members_def exact_manager_def small_manager_def fun_eq_iff)
  show "int (loopCount m) = max 1 loops" "loops \<le> 64" using n le by (simp_all add: m)
qed

section \<open>Properties\<close>



text \<open>
  C25: the bitmap of active loops is exact. After any run of joins and leaves in which no room ever held
  2^31 connections, \<open>ActiveLoopIndexes\<close> lists, in ascending order and without repetition, exactly the
  loops on which the room has a connection.
\<close>

theorem active_loops_exact:
  assumes "NewManager loops = Some m0"
    and "\<forall>k \<le> length ops. small_manager (foldl room_step m0 (take k ops))"
  shows "set (ActiveLoopIndexes (foldl room_step m0 ops) rid) =
           {l. \<exists>connID. members (foldl room_step m0 ops) rid (int l, connID) \<noteq> None}
         \<and> sorted_wrt (<) (ActiveLoopIndexes (foldl room_step m0 ops) rid)"
proof -
  note new = wf_NewManager [OF assms(1)]
  have "exact_manager (foldl room_step m0 (take k ops))" if "k \<le> length ops" for k
    using that
  proof (induction k)
    case 0
    then show ?case using new by simp
  next
    case (Suc k)
    let ?m = "foldl room_step m0 (take k ops)"
    have "take (Suc k) ops = take k ops @ [ops ! k]" using Suc.prems by (simp add: take_Suc_conv_app_nth)
    then have "foldl room_step m0 (take (Suc k) ops) = room_step ?m (ops ! k)" by simp
    moreover have "wf_manager ?m" "exact_manager ?m" "small_manager ?m"
      using rooms.run_invar [OF new(1)] Suc assms(2) by auto
    ultimately show ?case by (simp only: exact_room_step)
  qed
  from this [of "length ops"] have "exact_manager (foldl room_step m0 ops)" by simp
  then show ?thesis
    using ActiveLoopIndexes_set rooms.run_invar [OF new(1)] ActiveLoopIndexes_sorted by simp
qed

theorem active_loops_exact_witness:
  "\<exists>m0. NewManager 4 = Some m0 \<and>
     set (ActiveLoopIndexes (foldl room_step m0 [Join 7 2 ''1'' 10]) 7) = {2}"
proof -
  obtain m0 where m0: "NewManager 4 = Some m0" by (simp add: NewManager_def)
  note new = wf_NewManager [OF m0]
  have valid: "valid_slot m0 7 2 ''1''" using new(5) by (simp add: valid_slot_def)
  have none: "Get m0 rid = None" for rid
    using m0 bucketIndex_bound(1) [OF new(1), of rid]
    by (auto simp: NewManager_def Get_def)
  have "small_manager (room_step m0 (Join 7 2 ''1'' 10))"
    using new(4) none room_total_add [of 2 "new_room m0 7" "''1''" 10] new(5)
    by (auto simp: small_manager_def room_step_def Get_Add [OF new(1)] small_room_def new_room_def
        room_total_def sum_list_replicate)
  then have "\<forall>k \<le> length [Join 7 2 ''1'' 10]. small_manager (foldl room_step m0 (take k [Join 7 2 ''1'' 10]))"
    using new(4) by (auto simp: le_Suc_eq)
  from active_loops_exact [OF m0 this, of 7] m0 show ?thesis
    using valid new by (auto simp: room_step_def members_Add)
qed

text \<open>
  The cleaner drops exactly the idle empty rooms and nobody with them. One tick at time \<open>now\<close>
  removes a room if and only if its local count is zero, it carries an idle mark and was idle for
  more than the threshold; in a manager whose rooms hold fewer than 2^31 connections no membership
  changes, and the manager stays well-formed.
\<close>

theorem cleaner_keeps_members:
  assumes "wf_manager m" and "small_manager m"
  shows "wf_manager (room_cleaner_tick m now idle) \<and>
    (\<forall>rid. members (room_cleaner_tick m now idle) rid = members m rid) \<and>
    (\<forall>rid. Get (room_cleaner_tick m now idle) rid =
       (case Get m rid of None \<Rightarrow> None
        | Some r \<Rightarrow> if LocalConnCount r = 0 \<and> 0 < sint (LastEmptyTime r) \<and>
                       sint idle < sint (now - LastEmptyTime r) then None else Some r))"
  unfolding evictable_def [symmetric]
  using room_cleaner_tick_spec [OF assms(1)] members_room_cleaner_tick [OF assms] by simp

theorem cleaner_keeps_members_witness:
  "\<exists>m. NewManager 2 = Some m \<and> wf_manager (room_cleaner_tick m 1000 180)"
proof -
  obtain m where m: "NewManager 2 = Some m" by (simp add: NewManager_def)
  with cleaner_keeps_members [OF wf_NewManager(1,4) [OF m]] show ?thesis by blast
qed

end
