(* ===== verification/Wire_Messages.thy ===== *)
theory Wire_Messages
  imports Barrage_Prelude
begin

text \<open>
  \<open>internal/pb/barrage.pb.go\<close> and \<open>internal/mq/model.go\<close>: the protobuf messages of the program, and
  \<open>internal/metrics/metrics.go\<close>: its counters.

  The wire format is the work of the protobuf library, which is not part of the repository: the
  operations take a \<open>codec\<close>, a record of the library functions the code calls. \<open>proto.Marshal\<close> gives
  the bytes and an error that the code sometimes ignores; \<open>proto.Unmarshal\<close> gives a message or fails.
\<close>

section \<open>Messages\<close>

text \<open>\<open>OpType\<close> is an open enumeration: any \<open>int32\<close> can arrive.\<close>

type_synonym OpType = int32

definition OpType_OP_UNKNOWN :: OpType where "OpType_OP_UNKNOWN = 0"
definition OpType_OP_JOIN_ROOM :: OpType where "OpType_OP_JOIN_ROOM = 1"
definition OpType_OP_CHAT :: OpType where "OpType_OP_CHAT = 2"
definition OpType_OP_HEARTBEAT :: OpType where "OpType_OP_HEARTBEAT = 3"
definition OpType_OP_BROADCAST :: OpType where "OpType_OP_BROADCAST = 4"
definition OpType_OP_ERROR :: OpType where "OpType_OP_ERROR = 5"
definition OpType_OP_SYSTEM :: OpType where "OpType_OP_SYSTEM = 6"

lemmas OpType_defs = OpType_OP_UNKNOWN_def OpType_OP_JOIN_ROOM_def OpType_OP_CHAT_def
  OpType_OP_HEARTBEAT_def OpType_OP_BROADCAST_def OpType_OP_ERROR_def OpType_OP_SYSTEM_def

definition OpType_name :: "int32 \<rightharpoonup> string" where
  "OpType_name = map_of
    [(0, ''OP_UNKNOWN''), (1, ''OP_JOIN_ROOM''), (2, ''OP_CHAT''), (3, ''OP_HEARTBEAT''),
     (4, ''OP_BROADCAST''), (5, ''OP_ERROR''), (6, ''OP_SYSTEM'')]"

definition OpType_value :: "string \<rightharpoonup> int32" where
  "OpType_value = map_of
    [(''OP_UNKNOWN'', 0), (''OP_JOIN_ROOM'', 1), (''OP_CHAT'', 2), (''OP_HEARTBEAT'', 3),
     (''OP_BROADCAST'', 4), (''OP_ERROR'', 5), (''OP_SYSTEM'', 6)]"

record SystemMsg =
  sys_Content :: string
  sys_Type :: int32

record ErrorMsg =
  err_Code :: int32
  err_Message :: string

record Frame =
  f_Op :: OpType
  f_RoomId :: int64
  f_UserId :: int64
  f_Payload :: bytes
  f_Timestamp :: int64

record JoinRoomReq =
  join_RoomId :: int64
  join_UserId :: int64
  join_IsPremium :: bool
  join_Token :: string

record ChatMsg =
  chat_Content :: string

record BroadcastEnvelope =
  e_MsgType :: int32
  e_IdempotencyKey :: string
  e_RoomId :: int64
  e_UserId :: int64
  e_SenderConnId :: string
  e_IsPremium :: bool
  e_Payload :: bytes
  e_Timestamp :: int64
  e_VideoTs :: int64

record VideoTSUpdate =
  vts_RoomId :: int64
  vts_VideoTs :: int64
  vts_SentAt :: int64

record Heartbeat =
  hb_ClientTs :: int64

text \<open>\<open>&pb.BroadcastEnvelope{}\<close>: the zero message.\<close>

definition empty_envelope :: BroadcastEnvelope where
  "empty_envelope =
    \<lparr>e_MsgType = 0, e_IdempotencyKey = '''', e_RoomId = 0, e_UserId = 0, e_SenderConnId = '''',
     e_IsPremium = False, e_Payload = [], e_Timestamp = 0, e_VideoTs = 0\<rparr>"

section \<open>The protobuf library\<close>

record codec =
  Marshal_Frame :: "Frame \<Rightarrow> bytes \<times> string option"
  Marshal_ErrorMsg :: "ErrorMsg \<Rightarrow> bytes \<times> string option"
  Marshal_SystemMsg :: "SystemMsg \<Rightarrow> bytes \<times> string option"
  Marshal_Envelope :: "BroadcastEnvelope \<Rightarrow> bytes \<times> string option"
  Unmarshal_Frame :: "bytes \<Rightarrow> Frame option"
  Unmarshal_JoinRoomReq :: "bytes \<Rightarrow> JoinRoomReq option"
  Unmarshal_ChatMsg :: "bytes \<Rightarrow> ChatMsg option"
  Unmarshal_Heartbeat :: "bytes \<Rightarrow> Heartbeat option"
  Unmarshal_Envelope :: "bytes \<Rightarrow> BroadcastEnvelope option"

definition EncodeBroadcastEnvelope :: "codec \<Rightarrow> BroadcastEnvelope \<Rightarrow> bytes \<times> string option" where
  "EncodeBroadcastEnvelope cdc msg = Marshal_Envelope cdc msg"

definition DecodeBroadcastEnvelope :: "codec \<Rightarrow> bytes \<Rightarrow> BroadcastEnvelope option" where
  "DecodeBroadcastEnvelope cdc data = Unmarshal_Envelope cdc data"

section \<open>Counters\<close>

record metrics =
  BroadcastDispatchCount :: int64
  BroadcastDispatchErrCount :: int64
  FilterRejectCount :: int64
  KafkaPublishErrCount :: int64
  KafkaConsumeErrCount :: int64
  SlowConnSkipCount :: int64
  RateLimitRejectCount :: int64

definition no_metrics :: metrics where
  "no_metrics =
    \<lparr>BroadcastDispatchCount = 0, BroadcastDispatchErrCount = 0, FilterRejectCount = 0,
     KafkaPublishErrCount = 0, KafkaConsumeErrCount = 0, SlowConnSkipCount = 0,
     RateLimitRejectCount = 0\<rparr>"

text \<open>A codec that decodes nothing, the base of the concrete codecs of the examples.\<close>

definition null_codec :: codec where
  "null_codec =
    \<lparr>Marshal_Frame = \<lambda>_. ([], None), Marshal_ErrorMsg = \<lambda>_. ([], None),
     Marshal_SystemMsg = \<lambda>_. ([], None), Marshal_Envelope = \<lambda>_. ([], None),
     Unmarshal_Frame = \<lambda>_. None, Unmarshal_JoinRoomReq = \<lambda>_. None, Unmarshal_ChatMsg = \<lambda>_. None,
     Unmarshal_Heartbeat = \<lambda>_. None, Unmarshal_Envelope = \<lambda>_. None\<rparr>"

end
