(* ===== verification/Ws_Frame.thy ===== *)
theory Ws_Frame
  imports Barrage_Prelude
begin

text \<open>
  \<open>internal/protocol/ws/frame.go\<close>: the WebSocket opcodes and the frames the server sends. The
  server's frames are unmasked and never fragmented. \<open>read_server_frame\<close> is the specification side:
  a client's reader written from RFC 6455, section 5.2, against which the builder is proved.
\<close>

section \<open>Opcodes\<close>

definition OpText :: byte where "OpText = 0x1"
definition OpBinary :: byte where "OpBinary = 0x2"
definition OpClose :: byte where "OpClose = 0x8"
definition OpPing :: byte where "OpPing = 0x9"
definition OpPong :: byte where "OpPong = 0xA"

lemmas opcode_defs = OpText_def OpBinary_def OpClose_def OpPing_def OpPong_def

section \<open>Building frames\<close>

text \<open>
  \<open>byte(payloadLen)\<close>, \<open>uint16(payloadLen)\<close> and \<open>uint64(payloadLen)\<close> truncate; \<open>of_nat\<close> and
  \<open>put_be\<close> do the same.
\<close>

definition buildServerFrame :: "byte \<Rightarrow> bytes \<Rightarrow> bytes" where
  "buildServerFrame opcode payload =
    (let payloadLen = length payload;
         header =
           (if payloadLen < 126 then [0x80 OR opcode, of_nat payloadLen]
            else if payloadLen \<le> 65535 then [0x80 OR opcode, 126] @ put_be 2 payloadLen
            else [0x80 OR opcode, 127] @ put_be 8 payloadLen)
     in header @ payload)"

definition BuildBinaryFrame :: "bytes \<Rightarrow> bytes" where
  "BuildBinaryFrame payload = buildServerFrame OpBinary payload"

definition BuildPongFrame :: "bytes \<Rightarrow> bytes" where
  "BuildPongFrame payload = buildServerFrame OpPong payload"

definition BuildCloseFrame :: "bytes \<Rightarrow> bytes" where
  "BuildCloseFrame payload = buildServerFrame OpClose payload"

section \<open>A client's reader\<close>

text \<open>
  The reader of RFC 6455 for an unmasked, unfragmented frame: it returns the opcode, the payload and
  the bytes after the frame, or nothing when the bytes do not start with such a frame.
\<close>

definition take_payload :: "byte \<Rightarrow> nat \<Rightarrow> bytes \<Rightarrow> (byte \<times> bytes \<times> bytes) option" where
  "take_payload opcode n bs =
    (if length bs < n then None else Some (opcode, take n bs, drop n bs))"

fun read_server_frame :: "bytes \<Rightarrow> (byte \<times> bytes \<times> bytes) option" where
  "read_server_frame (b0 # b1 # bs) =
    (if b0 AND 0xF0 \<noteq> 0x80 \<or> bit b1 7 then None
     else if b1 = 126 then (if length bs < 2 then None
       else take_payload (b0 AND 0x0F) (be_uint (take 2 bs)) (drop 2 bs))
     else if b1 = 127 then (if length bs < 8 then None
       else take_payload (b0 AND 0x0F) (be_uint (take 8 bs)) (drop 8 bs))
     else take_payload (b0 AND 0x0F) (unat b1) bs)"
| "read_server_frame _ = None"

text \<open>Reading a stream of frames back to back.\<close>

function read_server_frames :: "bytes \<Rightarrow> (byte \<times> bytes) list" where
  "read_server_frames bs =
    (case read_server_frame bs of
       None \<Rightarrow> []
     | Some (opcode, payload, rest) \<Rightarrow>
         if length rest < length bs then (opcode, payload) # read_server_frames rest else [])"
  by pat_completeness auto
termination
  by (relation "measure length") auto

declare read_server_frames.simps [simp del]

lemma opcode_nibbles:
  assumes "opcode < 16"
  shows "(0x80 OR opcode) AND 0xF0 = (0x80 :: byte)" and "(0x80 OR opcode) AND 0x0F = opcode"
proof -
  have "unat opcode < 16" using assms by (simp add: word_less_nat_alt)
  then have "opcode \<in> of_nat ` {0..<16}"
    by (intro image_eqI [of _ _ "unat opcode"]) simp_all
  moreover have "{0..<16::nat} = {0,1,2,3,4,5,6,7,8,9,10,11,12,13,14,15}" by (auto; presburger)
  ultimately have cases: "opcode \<in> {0,1,2,3,4,5,6,7,8,9,10,11,12,13,14,15}" by simp
  then show "(0x80 OR opcode) AND 0xF0 = (0x80 :: byte)" by auto
  from cases show "(0x80 OR opcode) AND 0x0F = opcode" by auto
qed

lemma small_length_byte:
  assumes "n < 126"
  shows "unat (of_nat n :: byte) = n" and "\<not> bit (of_nat n :: byte) 7"
    and "(of_nat n :: byte) \<noteq> 126" and "(of_nat n :: byte) \<noteq> 127"
proof -
  show u: "unat (of_nat n :: byte) = n" using assms by (simp add: unat_of_nat)
  have "\<not> bit (unat (of_nat n :: byte)) 7"
    unfolding u using assms by (simp add: bit_iff_odd)
  then show "\<not> bit (of_nat n :: byte) 7"
    by (simp only: bit_unsigned_iff) simp
  show "(of_nat n :: byte) \<noteq> 126" "(of_nat n :: byte) \<noteq> 127"
    using u assms by auto
qed

lemma read_server_frame_build:
  assumes "opcode < 16" and "length payload < 2 ^ 63"
  shows "read_server_frame (buildServerFrame opcode payload @ rest) = Some (opcode, payload, rest)"
proof -
  consider (small) "length payload < 126"
    | (mid) "\<not> length payload < 126" "length payload \<le> 65535"
    | (large) "\<not> length payload \<le> 65535" by linarith
  then show ?thesis
  proof cases
    case small
    then show ?thesis
      using small_length_byte [OF small] opcode_nibbles [OF assms(1)]
      by (simp add: buildServerFrame_def take_payload_def)
  next
    case mid
    then show ?thesis
      using opcode_nibbles [OF assms(1)]
      by (simp add: buildServerFrame_def take_payload_def)
  next
    case large
    then show ?thesis
      using opcode_nibbles [OF assms(1)] assms(2)
      by (simp add: buildServerFrame_def take_payload_def)
  qed
qed

lemma buildServerFrame_length: "length payload + 2 \<le> length (buildServerFrame opcode payload)"
  by (simp add: buildServerFrame_def Let_def)

lemma read_server_frames_build:
  assumes "\<And>f. f \<in> set fs \<Longrightarrow> fst f < 16 \<and> length (snd f) < 2 ^ 63"
  shows "read_server_frames (concat (map (\<lambda>(opcode, payload). buildServerFrame opcode payload) fs)) = fs"
  using assms
proof (induction fs)
  case Nil
  then show ?case by (simp add: read_server_frames.simps)
next
  case (Cons f fs)
  obtain opcode payload where f: "f = (opcode, payload)" by (cases f)
  define rest where "rest = concat (map (\<lambda>(opcode, payload). buildServerFrame opcode payload) fs)"
  have "read_server_frame (buildServerFrame opcode payload @ rest) = Some (opcode, payload, rest)"
    using Cons.prems [of f] f by (intro read_server_frame_build) auto
  moreover have "length rest < length (buildServerFrame opcode payload @ rest)"
    using buildServerFrame_length [of payload opcode] by (cases "buildServerFrame opcode payload") auto
  ultimately have "read_server_frames (buildServerFrame opcode payload @ rest)
      = (opcode, payload) # read_server_frames rest"
    by (subst read_server_frames.simps) simp
  with Cons f show ?case by (simp add: rest_def)
qed

section \<open>Properties\<close>

text \<open>
  The frames the server builds are the frames a client reads. Any sequence of broadcast, pong and
  close frames written back to back is read by an RFC 6455 client as these opcodes and payloads, in order,
  whichever of the three length encodings each frame needs.
\<close>

theorem server_frames_read_back:
  assumes "\<forall>p \<in> set payloads. length p < 2 ^ 63" and "length pong < 2 ^ 63" and "length close < 2 ^ 63"
  shows "read_server_frames
      (concat (map BuildBinaryFrame payloads) @ BuildPongFrame pong @ BuildCloseFrame close)
    = map (\<lambda>p. (OpBinary, p)) payloads @ [(OpPong, pong), (OpClose, close)]"
proof -
  let ?fs = "map (\<lambda>p. (OpBinary, p)) payloads @ [(OpPong, pong), (OpClose, close)]"
  have "read_server_frames (concat (map (\<lambda>(opcode, payload). buildServerFrame opcode payload) ?fs)) = ?fs"
    using assms by (intro read_server_frames_build) (auto simp: opcode_defs word_less_nat_alt)
  then show ?thesis
    by (simp add: BuildBinaryFrame_def [abs_def] BuildPongFrame_def BuildCloseFrame_def comp_def)
qed

theorem server_frames_read_back_witness:
  "read_server_frames (concat (map BuildBinaryFrame [[1, 2]]) @ BuildPongFrame [] @ BuildCloseFrame [3, 232])
   = [(OpBinary, [1, 2]), (OpPong, []), (OpClose, [3, 232])]"
  using server_frames_read_back [of "[[1, 2]]" "[]" "[3, 232]"] by simp

end
