(* ===== verification/Broadcaster.thy ===== *)
theory Broadcaster
  imports Room_Manager Wire_Messages Ws_Frame
begin

text \<open>
  \<open>internal/broadcast/broadcaster.go\<close>: fanning one envelope out to the local connections of its room,
  with the degradation tiers for slow connections and the echo suppression.

  \<open>OutboundBuffered\<close> is gnet's answer for each connection. The result is the list of network actions in
  order, with the counters after.
\<close>

section \<open>The code\<close>

record Broadcaster =
  Rooms :: "Manager option"

text \<open>\<open>New\<close>: \<open>None\<close> is the panic for a nil manager.\<close>

definition new_Broadcaster :: "Manager option \<Rightarrow> Broadcaster option" where
  "new_Broadcaster rooms = (case rooms of None \<Rightarrow> None | Some m \<Rightarrow> Some \<lparr>Rooms = Some m\<rparr>)"

definition count_skip :: "metrics \<Rightarrow> metrics" where
  "count_skip mt = mt\<lparr>SlowConnSkipCount := SlowConnSkipCount mt + 1\<rparr>"

definition sendToConn ::
  "contexts \<Rightarrow> (conn \<Rightarrow> int) \<Rightarrow> BroadcastEnvelope \<Rightarrow> bytes \<Rightarrow> conn option \<Rightarrow> metrics \<Rightarrow>
   net_action list \<times> metrics" where
  "sendToConn ctxs OutboundBuffered msg megaFrame co mt =
    (case co of
       None \<Rightarrow> ([], mt)
     | Some c \<Rightarrow>
       (case ctxs c of
          None \<Rightarrow> ([], mt)
        | Some ctx \<Rightarrow>
          let outbound = OutboundBuffered c
          in if outbound > 4 * 1024 * 1024 then ([CloseConn c], mt)
             else if IsPremium ctx \<and> outbound > 1536 * 1024 then ([], count_skip mt)
             else if outbound > 512 * 1024 then ([], count_skip mt)
             else if outbound > 256 * 1024 \<and> go_rem (sint (e_Timestamp msg)) 2 = 1 then
               ([], count_skip mt)
             else if e_SenderConnId msg \<noteq> '''' \<and> e_SenderConnId msg = ConnID ctx then ([], mt)
             else ([AsyncWrite c megaFrame], mt)))"

fun send_all ::
  "contexts \<Rightarrow> (conn \<Rightarrow> int) \<Rightarrow> BroadcastEnvelope \<Rightarrow> bytes \<Rightarrow> conn list \<Rightarrow> metrics \<Rightarrow>
   net_action list \<times> metrics" where
  "send_all ctxs ob msg megaFrame [] mt = ([], mt)"
| "send_all ctxs ob msg megaFrame (c # cs) mt =
    (case sendToConn ctxs ob msg megaFrame (Some c) mt of
       (as, mt') \<Rightarrow> (case send_all ctxs ob msg megaFrame cs mt' of (bs, mt'') \<Rightarrow> (as @ bs, mt'')))"

definition BroadcastLocal ::
  "contexts \<Rightarrow> (conn \<Rightarrow> int) \<Rightarrow> Broadcaster option \<Rightarrow> BroadcastEnvelope option \<Rightarrow> metrics \<Rightarrow>
   net_action list \<times> metrics" where
  "BroadcastLocal ctxs ob b msg mt =
    (case (b, msg) of
       (Some b', Some m) \<Rightarrow>
         (case Rooms b' of
            None \<Rightarrow> ([], mt)
          | Some rooms \<Rightarrow>
            (case Get rooms (e_RoomId m) of
               None \<Rightarrow> ([], mt)
             | Some room \<Rightarrow>
               let megaFrame = BuildBinaryFrame (e_Payload m);
                   conns = concat (map (\<lambda>loopIdx. RangeLoopConns room (int loopIdx)) [0..<loopCount rooms])
               in case send_all ctxs ob m megaFrame conns mt of
                    (as, mt') \<Rightarrow> (as, mt'\<lparr>BroadcastDispatchCount := BroadcastDispatchCount mt' + 1\<rparr>)))
     | _ \<Rightarrow> ([], mt))"

section \<open>What one connection gets\<close>

text \<open>The tiers as one verdict per connection.\<close>

datatype verdict = Deliver | Skip | Echo | Disconnect | NoContext

definition verdict :: "contexts \<Rightarrow> (conn \<Rightarrow> int) \<Rightarrow> BroadcastEnvelope \<Rightarrow> conn \<Rightarrow> verdict" where
  "verdict ctxs ob msg c =
    (case ctxs c of
       None \<Rightarrow> NoContext
     | Some ctx \<Rightarrow>
        if ob c > 4 * 1024 * 1024 then Disconnect
        else if ob c > 512 * 1024 \<or> (ob c > 256 * 1024 \<and> 0 \<le> sint (e_Timestamp msg) \<and> odd (sint (e_Timestamp msg)))
        then Skip
        else if e_SenderConnId msg \<noteq> '''' \<and> e_SenderConnId msg = ConnID ctx then Echo
        else Deliver)"

definition actions_of :: "verdict \<Rightarrow> conn \<Rightarrow> bytes \<Rightarrow> net_action list" where
  "actions_of v c frame =
    (case v of Deliver \<Rightarrow> [AsyncWrite c frame] | Disconnect \<Rightarrow> [CloseConn c] | _ \<Rightarrow> [])"

lemma sendToConn_verdict:
  "sendToConn ctxs ob msg frame (Some c) mt =
    (actions_of (verdict ctxs ob msg c) c frame,
     if verdict ctxs ob msg c = Skip then count_skip mt else mt)"
  by (auto simp: sendToConn_def verdict_def actions_of_def Let_def go_rem_2_eq_1 split: option.splits)

lemma send_all_actions:
  "fst (send_all ctxs ob msg frame cs mt) =
    concat (map (\<lambda>c. actions_of (verdict ctxs ob msg c) c frame) cs)"
  by (induction cs arbitrary: mt) (auto simp: sendToConn_verdict split: prod.splits, metis fst_conv, metis fst_conv)

lemma send_all_skips:
  "snd (send_all ctxs ob msg frame cs mt) =
    mt\<lparr>SlowConnSkipCount := SlowConnSkipCount mt + of_nat (length (filter (\<lambda>c. verdict ctxs ob msg c = Skip) cs))\<rparr>"
proof (induction cs arbitrary: mt)
  case Nil
  then show ?case by simp
next
  case (Cons c cs)
  show ?case
    by (simp add: sendToConn_verdict case_prod_beta Cons.IH count_skip_def)
qed

section \<open>What a room gets\<close>

definition room_conns :: "Manager \<Rightarrow> Room \<Rightarrow> conn list" where
  "room_conns m r = concat (map (\<lambda>l. map snd (Shards r ! l)) [0..<loopCount m])"

lemma card_slots_one:
  "keys_distinct xs \<Longrightarrow>
   card {k. \<exists>c. map_of xs k = Some c \<and> P c} = length (filter P (map snd xs))"
proof (induction xs)
  case Nil
  then show ?case by simp
next
  case (Cons x xs)
  obtain k v where x: "x = (k, v)" by (cases x)
  let ?S = "{j. \<exists>c. map_of xs j = Some c \<and> P c}"
  have k: "map_of xs k = None" using Cons.prems by (simp add: x map_of_eq_None_iff)
  have fin: "finite ?S" by (rule finite_subset [OF _ finite_dom_map_of]) auto
  have "{j. \<exists>c. map_of (x # xs) j = Some c \<and> P c} = (if P v then insert k ?S else ?S)"
    using k by (auto simp: x)
  moreover have "card (insert k ?S) = Suc (card ?S)"
    using fin k by (intro card_insert_disjoint) auto
  moreover have "card ?S = length (filter P (map snd xs))"
    using Cons by (simp add: x)
  ultimately show ?case by (cases "P v") (simp_all add: x del: map_of.simps)
qed

lemma card_slots:
  assumes "wf_manager m" and "Get m rid = Some r"
  shows "card {k. \<exists>c. members m rid k = Some c \<and> P c} = length (filter P (room_conns m r))"
proof -
  have wf: "wf_room (loopCount m) r" using wf_manager_Get(2) [OF assms] .
  have "{k. \<exists>c. members m rid k = Some c \<and> P c} =
      (SIGMA l : int ` {..<loopCount m}. {s. \<exists>c. map_of (Shards r ! nat l) s = Some c \<and> P c})"
    using assms(2) by (auto simp: members_def int_image_lessThan split: if_splits)
  then have "card {k. \<exists>c. members m rid k = Some c \<and> P c} =
      (\<Sum>l \<in> int ` {..<loopCount m}. card {s. \<exists>c. map_of (Shards r ! nat l) s = Some c \<and> P c})"
    by (simp, intro card_SigmaI) (auto intro: finite_subset [OF _ finite_dom_map_of])
  also have "\<dots> = (\<Sum>l<loopCount m. card {s. \<exists>c. map_of (Shards r ! l) s = Some c \<and> P c})"
    by (subst sum.reindex) (auto simp: inj_on_def)
  also have "\<dots> = (\<Sum>l<loopCount m. length (filter P (map snd (Shards r ! l))))"
    using wf by (intro sum.cong refl card_slots_one) (auto simp: wf_room_def)
  also have "\<dots> = length (filter P (room_conns m r))"
    by (simp add: room_conns_def filter_concat length_concat comp_def sum_list_sum_nth atLeast0LessThan
        interv_sum_list_conv_sum_set_nat)
  finally show ?thesis .
qed

lemma finite_slots: "finite {k. \<exists>c. members m rid k = Some c \<and> P c}"
proof (cases "Get m rid")
  case None
  then show ?thesis by (simp add: members_def case_prod_beta)
next
  case (Some r)
  have "finite (dom (members m rid))"
    unfolding dom_members [OF Some] by (intro finite_SigmaI) (auto simp: finite_dom_map_of)
  then show ?thesis by (rule finite_subset [rotated]) auto
qed

lemma BroadcastLocal_actions:
  assumes "wf_manager m"
  shows "fst (BroadcastLocal ctxs ob (Some \<lparr>Rooms = Some m\<rparr>) (Some msg) mt) =
    (case Get m (e_RoomId msg) of
       None \<Rightarrow> []
     | Some r \<Rightarrow> concat (map (\<lambda>c. actions_of (verdict ctxs ob msg c) c (BuildBinaryFrame (e_Payload msg)))
                            (room_conns m r)))"
proof (cases "Get m (e_RoomId msg)")
  case None
  then show ?thesis by (simp add: BroadcastLocal_def)
next
  case (Some r)
  have "length (Shards r) = loopCount m"
    using wf_manager_Get(2) [OF assms Some] by (simp add: wf_room_def)
  then have "concat (map (\<lambda>loopIdx. RangeLoopConns r (int loopIdx)) [0..<loopCount m]) = room_conns m r"
    unfolding room_conns_def by (intro arg_cong [where f = concat] map_cong) (simp_all add: RangeLoopConns_def)
  with Some show ?thesis
    by (simp add: BroadcastLocal_def Let_def case_prod_beta send_all_actions)
qed

section \<open>Properties\<close>

lemma written_to_actions:
  "written_to c (concat (map (\<lambda>c. actions_of (v c) c frame) cs)) =
    (if v c = Deliver then replicate (length (filter ((=) c) cs)) frame else [])"
  by (induction cs) (auto simp: actions_of_def split: verdict.splits)

lemma closed_in_actions:
  "CloseConn c \<in> set (concat (map (\<lambda>c. actions_of (v c) c frame) cs)) \<longleftrightarrow> v c = Disconnect \<and> c \<in> set cs"
  by (induction cs) (auto simp: actions_of_def split: verdict.splits)

lemma member_conn:
  assumes "wf_manager m" and "Get m rid = Some r"
  shows "c \<in> set (room_conns m r) \<longleftrightarrow> (\<exists>k. members m rid k = Some c)"
proof -
  have "card {k. members m rid k = Some c} = length (filter ((=) c) (room_conns m r))"
    using card_slots [OF assms, of "(=) c"] by (simp add: conj_commute)
  moreover have "finite {k. members m rid k = Some c}"
    using finite_slots [of m rid "(=) c"] by (simp add: conj_commute)
  then have "card {k. members m rid k = Some c} = 0 \<longleftrightarrow> {k. members m rid k = Some c} = {}" by simp
  ultimately show ?thesis by (auto simp: filter_empty_conv)
qed

lemma BroadcastLocal_written:
  assumes "wf_manager m"
  shows "written_to c (fst (BroadcastLocal ctxs ob (Some \<lparr>Rooms = Some m\<rparr>) (Some msg) mt)) =
    (if verdict ctxs ob msg c = Deliver
     then replicate (card {k. members m (e_RoomId msg) k = Some c}) (BuildBinaryFrame (e_Payload msg))
     else [])"
proof (cases "Get m (e_RoomId msg)")
  case None
  then have "members m (e_RoomId msg) k = None" for k by (simp add: members_def split: prod.splits)
  then show ?thesis
    using BroadcastLocal_actions [OF assms, of ctxs ob msg mt] None by simp
next
  case (Some r)
  then show ?thesis
    using card_slots [OF assms Some, of "(=) c"]
    by (simp add: BroadcastLocal_actions [OF assms] written_to_actions conj_commute)
qed

lemma BroadcastLocal_closes:
  assumes "wf_manager m"
  shows "CloseConn c \<in> set (fst (BroadcastLocal ctxs ob (Some \<lparr>Rooms = Some m\<rparr>) (Some msg) mt)) \<longleftrightarrow>
    verdict ctxs ob msg c = Disconnect \<and> (\<exists>k. members m (e_RoomId msg) k = Some c)"
proof (cases "Get m (e_RoomId msg)")
  case None
  then have "members m (e_RoomId msg) k = None" for k by (simp add: members_def split: prod.splits)
  then show ?thesis
    using BroadcastLocal_actions [OF assms, of ctxs ob msg mt] None by simp
next
  case (Some r)
  then show ?thesis
    by (simp only: BroadcastLocal_actions [OF assms] closed_in_actions member_conn [OF assms Some] option.case)
qed

text \<open>
  C5: a broadcast reaches exactly the members of the room. In a well-formed manager, whatever the
  buffers, a connection is written the frame of the payload once for each of its places in the room
  if its verdict is to deliver, and nothing otherwise; it is closed exactly when it is a member
  whose buffer exceeds 4 MiB; connections outside the room are never touched.
\<close>

theorem broadcast_reaches_members:
  assumes "wf_manager m"
  shows "(case BroadcastLocal ctxs ob (Some \<lparr>Rooms = Some m\<rparr>) (Some msg) mt of (acts, mt') \<Rightarrow>
      written_to c acts =
        (if verdict ctxs ob msg c = Deliver
         then replicate (card {k. members m (e_RoomId msg) k = Some c}) (BuildBinaryFrame (e_Payload msg))
         else []) \<and>
      (CloseConn c \<in> set acts \<longleftrightarrow>
         ctxs c \<noteq> None \<and> ob c > 4 * 1024 * 1024 \<and> (\<exists>k. members m (e_RoomId msg) k = Some c)))"
proof -
  have "verdict ctxs ob msg c = Disconnect \<longleftrightarrow> ctxs c \<noteq> None \<and> ob c > 4 * 1024 * 1024"
    by (auto simp: verdict_def split: option.splits)
  then show ?thesis
    unfolding case_prod_beta BroadcastLocal_written [OF assms] BroadcastLocal_closes [OF assms] by blast
qed

theorem broadcast_reaches_members_witness:
  "\<exists>m0. NewManager 2 = Some m0 \<and>
     written_to 7 (fst (BroadcastLocal [7 \<mapsto> new_ConnContext ''3''] (\<lambda>_. 0)
       (Some \<lparr>Rooms = Some (AddConnInLoop m0 5 1 ''3'' (Some 7))\<rparr>)
       (Some (empty_envelope\<lparr>e_RoomId := 5, e_Payload := [1, 2]\<rparr>)) no_metrics)) = [[0x82, 2, 1, 2]]"
proof -
  obtain m0 where m0: "NewManager 2 = Some m0" by (simp add: NewManager_def)
  let ?m = "AddConnInLoop m0 5 1 ''3'' (Some 7)"
  let ?e = "empty_envelope\<lparr>e_RoomId := 5, e_Payload := [1, 2]\<rparr>"
  note w0 = wf_NewManager [OF m0]
  have wf: "wf_manager ?m" by (rule wf_Add [OF w0(1)])
  have "members m0 5 = Map.empty" using w0 by simp
  moreover have "valid_slot m0 5 1 ''3''" using m0 by (auto simp: valid_slot_def NewManager_def)
  ultimately have "members ?m 5 = [(1, ''3'') \<mapsto> 7]" using members_Add [OF w0(1), of 5 1 "''3''" 7 5] by simp
  then have "card {k. members ?m (e_RoomId ?e) k = Some 7} = card {(1::int, ''3'')}"
    by (intro arg_cong [where f = card]) auto
  moreover have "verdict [7 \<mapsto> new_ConnContext ''3''] (\<lambda>_. 0) ?e 7 = Deliver"
    by (simp add: verdict_def empty_envelope_def)
  ultimately have "written_to 7 (fst (BroadcastLocal [7 \<mapsto> new_ConnContext ''3''] (\<lambda>_. 0)
      (Some \<lparr>Rooms = Some ?m\<rparr>) (Some ?e) no_metrics)) = [BuildBinaryFrame [1, 2]]"
    using broadcast_reaches_members [OF wf, where c = 7 and ctxs = "[7 \<mapsto> new_ConnContext ''3'']" and
        ob = "\<lambda>_. 0" and msg = ?e and mt = no_metrics]
    by (simp add: case_prod_beta)
  moreover have "BuildBinaryFrame [1, 2] = [0x82, 2, 1, 2]"
    by (simp add: BuildBinaryFrame_def buildServerFrame_def OpBinary_def Let_def)
  ultimately show ?thesis using m0 by simp
qed

text \<open>
  The tiers. For every connection of the room the outcome depends only on its buffer, the message
  time and the sender: above 4 MiB it is closed, above 512 KiB the message is skipped and counted,
  above 256 KiB it is skipped when the time is odd, and the sender gets no echo. In particular the
  premium flag of a connection has no influence: the tier of 1.5 MiB is never reached.
\<close>

theorem premium_has_no_effect:
  "sendToConn ctxs ob msg frame (Some c) mt =
     (actions_of (verdict ctxs ob msg c) c frame,
      if verdict ctxs ob msg c = Skip then count_skip mt else mt) \<and>
   sendToConn (ctxs(c := map_option (IsPremium_update (\<lambda>_. p)) (ctxs c))) ob msg frame (Some c) mt =
   sendToConn ctxs ob msg frame (Some c) mt"
proof -
  have "verdict (ctxs(c := map_option (IsPremium_update (\<lambda>_. p)) (ctxs c))) ob msg c = verdict ctxs ob msg c"
    by (auto simp: verdict_def split: option.splits)
  then show ?thesis by (simp add: sendToConn_verdict)
qed

text \<open>
  A broadcast is accounted for. Broadcasting to a room that exists counts one dispatch and one skip
  per member that a tier for slow connections left out, and no other counter moves.
\<close>

theorem broadcast_counts:
  assumes "wf_manager m" and "Get m (e_RoomId msg) = Some r"
  shows "snd (BroadcastLocal ctxs ob (Some \<lparr>Rooms = Some m\<rparr>) (Some msg) mt) =
    mt\<lparr>SlowConnSkipCount := SlowConnSkipCount mt +
         of_nat (card {k. \<exists>c. members m (e_RoomId msg) k = Some c \<and> verdict ctxs ob msg c = Skip}),
       BroadcastDispatchCount := BroadcastDispatchCount mt + 1\<rparr>"
proof -
  have "length (Shards r) = loopCount m"
    using wf_manager_Get(2) [OF assms] by (simp add: wf_room_def)
  then have conns: "concat (map (\<lambda>loopIdx. RangeLoopConns r (int loopIdx)) [0..<loopCount m]) = room_conns m r"
    unfolding room_conns_def by (intro arg_cong [where f = concat] map_cong) (simp_all add: RangeLoopConns_def)
  show ?thesis
    unfolding card_slots [OF assms]
    by (simp add: BroadcastLocal_def assms(2) Let_def case_prod_beta conns send_all_skips)
qed

theorem broadcast_counts_witness:
  "\<exists>m0. NewManager 2 = Some m0 \<and>
     BroadcastDispatchCount (snd (BroadcastLocal Map.empty (\<lambda>_. 0)
       (Some \<lparr>Rooms = Some (AddConnInLoop m0 5 1 ''3'' (Some 7))\<rparr>)
       (Some (empty_envelope\<lparr>e_RoomId := 5\<rparr>)) no_metrics)) = 1"
proof -
  obtain m0 where m0: "NewManager 2 = Some m0" by (simp add: NewManager_def)
  let ?m = "AddConnInLoop m0 5 1 ''3'' (Some 7)"
  note w0 = wf_NewManager [OF m0]
  have wf: "wf_manager ?m" by (rule wf_Add [OF w0(1)])
  have "valid_slot m0 5 1 ''3''" using m0 by (auto simp: valid_slot_def NewManager_def)
  then have "members ?m 5 (1, ''3'') = Some 7"
    using members_Add [OF w0(1), of 5 1 "''3''" 7 5] by simp
  then obtain r where "Get ?m 5 = Some r" by (auto simp: members_def split: option.splits)
  then show ?thesis
    using broadcast_counts [OF wf, of "empty_envelope\<lparr>e_RoomId := 5\<rparr>" r Map.empty "\<lambda>_. 0" no_metrics] m0
    by (simp add: no_metrics_def)
qed

end
