(* ===== verification/Kafka_Producer.thy ===== *)
theory Kafka_Producer
  imports Wire_Messages
begin

text \<open>
  \<open>internal/mq/producer.go\<close>: publishing an envelope to Kafka. A plain danmaku is written once, keyed by
  its room; a special message (gift, prop, coloured danmaku) is written up to three times under one
  idempotency key, with a pause before each further attempt.

  The answer of the \<open>k\<close>-th call of \<open>kafka.Writer.WriteMessages\<close> is an argument (\<open>None\<close>: success). The
  result of an operation is the error it returns and the trace of its writes and pauses in order.
\<close>

definition MsgTypeDanmaku :: int32 where "MsgTypeDanmaku = 0"
definition MsgTypeGift :: int32 where "MsgTypeGift = 1"
definition MsgTypeProp :: int32 where "MsgTypeProp = 2"
definition MsgTypeColorful :: int32 where "MsgTypeColorful = 3"

record Producer =
  topic :: string

definition NewProducer :: "string \<Rightarrow> Producer" where
  "NewProducer t = \<lparr>topic = t\<rparr>"

definition maxRetryCount :: nat where "maxRetryCount = 3"
definition baseBackoffMs :: nat where "baseBackoffMs = 100"

datatype publish_error = NilMessage | EncodeError string | WriteError string

datatype mq_effect = WriteMessages bytes bytes | SleepMs nat

definition generateIdempotencyKey :: "int64 \<Rightarrow> BroadcastEnvelope \<Rightarrow> string" where
  "generateIdempotencyKey nowNano msg =
    FormatInt (sint (e_UserId msg)) @ ''_'' @
    FormatInt (sint (e_RoomId msg)) @ ''_'' @
    FormatInt (sint (e_Timestamp msg)) @ ''_'' @
    FormatInt (sint nowNano)"

function retry_loop ::
  "(nat \<Rightarrow> string option) \<Rightarrow> string \<Rightarrow> bytes \<Rightarrow> nat \<Rightarrow> string option \<Rightarrow> string option \<times> mq_effect list" where
  "retry_loop answer idempotencyKey value attempt lastErr =
    (if attempt < maxRetryCount then
       let pause = (if 0 < attempt then [SleepMs (baseBackoffMs * 2 ^ (attempt - 1))] else []);
           write = WriteMessages (bytes_of_string idempotencyKey) value
       in case answer attempt of
            None \<Rightarrow> (None, pause @ [write])
          | Some err \<Rightarrow>
              (case retry_loop answer idempotencyKey value (Suc attempt) (Some err) of
                 (res, tr) \<Rightarrow> (res, pause @ write # tr))
     else (lastErr, []))"
  by pat_completeness auto
termination
  by (relation "measure (\<lambda>(answer, idempotencyKey, value, attempt, lastErr). maxRetryCount - attempt)") auto

declare retry_loop.simps [simp del]

definition publishWithRetry ::
  "(nat \<Rightarrow> string option) \<Rightarrow> int64 \<Rightarrow> BroadcastEnvelope \<Rightarrow> bytes \<Rightarrow> string option \<times> mq_effect list" where
  "publishWithRetry answer nowNano msg value =
    (let idempotencyKey = e_IdempotencyKey msg;
         idempotencyKey = (if idempotencyKey = '''' then generateIdempotencyKey nowNano msg
                           else idempotencyKey)
     in retry_loop answer idempotencyKey value 0 None)"

definition Publish ::
  "codec \<Rightarrow> (nat \<Rightarrow> string option) \<Rightarrow> int64 \<Rightarrow> Producer option \<Rightarrow> BroadcastEnvelope option \<Rightarrow>
   publish_error option \<times> mq_effect list" where
  "Publish cdc answer nowNano p msg =
    (case p of
       None \<Rightarrow> (None, [])
     | Some _ \<Rightarrow>
       (case msg of
          None \<Rightarrow> (Some NilMessage, [])
        | Some m \<Rightarrow>
          (case EncodeBroadcastEnvelope cdc m of
             (value, Some err) \<Rightarrow> (Some (EncodeError err), [])
           | (value, None) \<Rightarrow>
               if e_MsgType m = MsgTypeDanmaku then
                 (map_option WriteError (answer 0),
                  [WriteMessages (bytes_of_string (FormatInt (sint (e_RoomId m)))) value])
               else case publishWithRetry answer nowNano m value of
                      (err, tr) \<Rightarrow> (map_option WriteError err, tr))))"

section \<open>What publishing does\<close>

fun writes :: "mq_effect list \<Rightarrow> (bytes \<times> bytes) list" where
  "writes [] = []"
| "writes (WriteMessages k v # es) = (k, v) # writes es"
| "writes (SleepMs n # es) = writes es"

fun pauses :: "mq_effect list \<Rightarrow> nat list" where
  "pauses [] = []"
| "pauses (WriteMessages k v # es) = pauses es"
| "pauses (SleepMs n # es) = n # pauses es"

text \<open>The number of attempts the answers lead to: up to and including the first success, at most three.\<close>

definition attempts :: "(nat \<Rightarrow> string option) \<Rightarrow> nat" where
  "attempts answer = (if answer 0 = None then 1 else if answer 1 = None then 2 else 3)"

lemma retry_loop_unrolled:
  "retry_loop answer key value 0 None =
    (if answer 0 = None \<or> answer 1 = None then None else answer 2,
     let w = WriteMessages (bytes_of_string key) value
     in if answer 0 = None then [w]
        else if answer 1 = None then [w, SleepMs 100, w]
        else [w, SleepMs 100, w, SleepMs 200, w])"
  by (simp add: retry_loop.simps maxRetryCount_def baseBackoffMs_def Let_def eval_nat_numeral split: option.splits)

text \<open>
  Special messages are retried under one key. Publishing an encodable special message writes the
  encoding once per attempt, always under the same key (the message's own if it has one), pausing
  100 and 200 milliseconds between attempts; it stops at the first success, gives up after the third
  failure with the error of that attempt, and succeeds exactly when one of three attempts does.
\<close>

theorem special_message_retries:
  assumes "EncodeBroadcastEnvelope cdc m = (value, None)" and "e_MsgType m \<noteq> MsgTypeDanmaku"
  shows "(case Publish cdc answer nowNano (Some p) (Some m) of (err, tr) \<Rightarrow>
      writes tr = replicate (attempts answer)
        (bytes_of_string (if e_IdempotencyKey m = '''' then generateIdempotencyKey nowNano m
                          else e_IdempotencyKey m), value) \<and>
      pauses tr = take (attempts answer - 1) [100, 200] \<and>
      (err = None \<longleftrightarrow> (\<exists>k<3. answer k = None)) \<and>
      (err \<noteq> None \<longrightarrow> err = map_option WriteError (answer 2)))"
proof -
  have ex: "(\<exists>k<3. answer k = None) \<longleftrightarrow> answer 0 = None \<or> answer 1 = None \<or> answer 2 = None"
    by (auto simp: less_Suc_eq numeral_3_eq_3 numeral_2_eq_2)
  show ?thesis
    using assms unfolding ex
    by (auto simp: Publish_def publishWithRetry_def retry_loop_unrolled attempts_def Let_def
        eval_nat_numeral split: option.splits)
qed

theorem special_message_retries_witness:
  "fst (Publish (null_codec\<lparr>Marshal_Envelope := \<lambda>_. ([7], None)\<rparr>)
     (\<lambda>k. if k = 1 then None else Some ''timeout'') 5 (Some (NewProducer ''t''))
     (Some (empty_envelope\<lparr>e_MsgType := 1\<rparr>))) = None"
proof -
  let ?c = "null_codec\<lparr>Marshal_Envelope := \<lambda>_. ([7], None)\<rparr>"
  let ?m = "empty_envelope\<lparr>e_MsgType := 1\<rparr>"
  have "EncodeBroadcastEnvelope ?c ?m = ([7], None)" and "e_MsgType ?m \<noteq> MsgTypeDanmaku"
    by (simp_all add: EncodeBroadcastEnvelope_def MsgTypeDanmaku_def)
  from special_message_retries [OF this, of "\<lambda>k. if k = 1 then None else Some ''timeout''" 5 "NewProducer ''t''"]
  show ?thesis by (force simp: case_prod_beta)
qed

text \<open>
  A plain danmaku is written at most once, under a key that stands for its room: two danmaku have
  the same key exactly when they go to the same room, so Kafka keeps the order within a room.
\<close>

theorem danmaku_written_once:
  assumes "EncodeBroadcastEnvelope cdc m = (value, None)" and "e_MsgType m = MsgTypeDanmaku"
    and "EncodeBroadcastEnvelope cdc m' = (value', None)" and "e_MsgType m' = MsgTypeDanmaku"
  shows "\<exists>key key'.
      Publish cdc answer now (Some p) (Some m) = (map_option WriteError (answer 0), [WriteMessages key value]) \<and>
      Publish cdc answer' now' (Some p) (Some m') = (map_option WriteError (answer' 0), [WriteMessages key' value']) \<and>
      (key = key' \<longleftrightarrow> e_RoomId m = e_RoomId m')"
proof -
  show ?thesis using assms by (simp add: Publish_def)
qed

theorem danmaku_written_once_witness:
  "\<exists>key. Publish (null_codec\<lparr>Marshal_Envelope := \<lambda>_. ([7], None)\<rparr>) (\<lambda>_. None) 0
     (Some (NewProducer ''t'')) (Some empty_envelope) = (None, [WriteMessages key [7]])"
proof -
  let ?c = "null_codec\<lparr>Marshal_Envelope := \<lambda>_. ([7], None)\<rparr>"
  have "EncodeBroadcastEnvelope ?c empty_envelope = ([7], None)" and "e_MsgType empty_envelope = MsgTypeDanmaku"
    by (simp_all add: EncodeBroadcastEnvelope_def empty_envelope_def MsgTypeDanmaku_def)
  from danmaku_written_once [OF this this, of "\<lambda>_. None" 0 "NewProducer ''t''" "\<lambda>_. None" 0]
  show ?thesis by auto
qed

section \<open>Idempotency keys\<close>

lemma FormatInt_no_underscore: "CHR ''_'' \<notin> set (FormatInt n)"
proof -
  have "CHR ''_'' \<notin> set (FormatNat k)" for k
  proof
    assume "CHR ''_'' \<in> set (FormatNat k)"
    then obtain d where "d < 10" and "CHR ''_'' = dec_digit d" using FormatNat_digits by blast
    then have "(of_char (CHR ''_'') :: nat) = 48 + d" by (metis dec_digit_value)
    then show False using \<open>d < 10\<close> by simp
  qed
  then show ?thesis by (simp add: FormatInt_def)
qed

lemma split_at_separator:
  "c \<notin> set a \<Longrightarrow> c \<notin> set b \<Longrightarrow> a @ c # s = b @ c # t \<longleftrightarrow> a = b \<and> s = t"
proof (induction a arbitrary: b)
  case Nil
  then show ?case by (cases b) auto
next
  case (Cons x a)
  then show ?case by (cases b) auto
qed

lemma generateIdempotencyKey_eq_iff:
  "generateIdempotencyKey now m = generateIdempotencyKey now' m' \<longleftrightarrow>
   e_UserId m = e_UserId m' \<and> e_RoomId m = e_RoomId m' \<and> e_Timestamp m = e_Timestamp m' \<and> now = now'"
  by (simp add: generateIdempotencyKey_def split_at_separator FormatInt_no_underscore)

text \<open>
  Generated idempotency keys are collision free: two messages get the same key only when user,
  room, message time and the nanosecond of generation all agree.
\<close>

theorem idempotency_keys_distinct:
  "generateIdempotencyKey now m = generateIdempotencyKey now' m' \<longleftrightarrow>
   (e_UserId m, e_RoomId m, e_Timestamp m, now) = (e_UserId m', e_RoomId m', e_Timestamp m', now')"
  by (simp add: generateIdempotencyKey_eq_iff)

end
