(* ===== verification/Kafka_Consumer.thy ===== *)
theory Kafka_Consumer
  imports Wire_Messages
begin

text \<open>
  \<open>internal/mq/consumer.go\<close>: the loop that reads envelopes from Kafka and hands them to the broadcaster,
  with its back-off and its shutdown.

  One iteration of the loop is a function of what \<open>ReadMessage\<close> returned and of the context. The
  interleaving of the loop with \<open>Close\<close>, which other goroutines call, is the step relation
  \<open>consumer_step\<close>: the stop channel is shared, and closing a closed channel panics.
\<close>

section \<open>The consumer and one iteration of its loop\<close>

datatype channel = NilChan | OpenChan | ClosedChan

record Consumer =
  reader :: bool
  handle :: bool
  retryCount :: int
  c_maxRetryCount :: int
  stopCh :: channel
  closing :: bool

definition defaultMaxRetryCount :: int where "defaultMaxRetryCount = 31"

definition NewConsumer :: "bool \<Rightarrow> Consumer" where
  "NewConsumer handler =
    \<lparr>reader = True, handle = handler, retryCount = 0, c_maxRetryCount = defaultMaxRetryCount,
     stopCh = NilChan, closing = False\<rparr>"

text \<open>
  The envelopes given to the callback (its error is only logged). What the callback of the program
  does with one is \<open>BroadcastLocal\<close>, on a worker.
\<close>

definition processMessage :: "codec \<Rightarrow> Consumer \<Rightarrow> bytes \<Rightarrow> BroadcastEnvelope list" where
  "processMessage cdc c data =
    (case DecodeBroadcastEnvelope cdc data of
       None \<Rightarrow> []
     | Some envelope \<Rightarrow> if handle c then [envelope] else [])"

text \<open>
  \<open>math.Min(30s, 1s * 2^(retryCount-1))\<close> in nanoseconds. The powers up to \<open>2^30\<close> times \<open>10^9\<close> have at most
  51 significant bits, so the floating point product is exact.
\<close>

definition backoff :: "int \<Rightarrow> int" where
  "backoff rc = min (30 * 1000000000) (1000000000 * 2 ^ nat (rc - 1))"

record read_result =
  msg_Value :: "bytes option"
  read_err :: "string option"

datatype iteration = Return | Continue | SleepThenContinue int

definition loop_body ::
  "codec \<Rightarrow> bool \<Rightarrow> read_result \<Rightarrow> Consumer \<Rightarrow> metrics \<Rightarrow>
   iteration \<times> BroadcastEnvelope list \<times> Consumer \<times> metrics" where
  "loop_body cdc ctxDone rd c m =
    (if stopCh c = ClosedChan then
       (Return, (case msg_Value rd of None \<Rightarrow> [] | Some v \<Rightarrow> processMessage cdc c v), c, m)
     else if ctxDone \<and> msg_Value rd = None then (Return, [], c, m)
     else if read_err rd \<noteq> None then
       let m = m\<lparr>KafkaConsumeErrCount := KafkaConsumeErrCount m + 1\<rparr>;
           rc = retryCount c + 1;
           rc = (if rc > c_maxRetryCount c then c_maxRetryCount c else rc)
       in (SleepThenContinue (backoff rc), [], c\<lparr>retryCount := rc\<rparr>, m)
     else
       (let c = c\<lparr>retryCount := 0\<rparr>
        in (Continue, processMessage cdc c (case msg_Value rd of None \<Rightarrow> [] | Some v \<Rightarrow> v), c, m)))"

section \<open>Running the loop\<close>

text \<open>The sleeps and envelopes of a run over the results of successive reads, until the loop returns.\<close>

fun consume ::
  "codec \<Rightarrow> (bool \<times> read_result) list \<Rightarrow> Consumer \<Rightarrow> metrics \<Rightarrow>
   int list \<times> BroadcastEnvelope list \<times> Consumer \<times> metrics" where
  "consume cdc [] c m = ([], [], c, m)"
| "consume cdc ((ctxDone, rd) # rds) c m =
    (case loop_body cdc ctxDone rd c m of
       (Return, es, c', m') \<Rightarrow> ([], es, c', m')
     | (Continue, es, c', m') \<Rightarrow>
         (case consume cdc rds c' m' of (ss, es', c2, m2) \<Rightarrow> (ss, es @ es', c2, m2))
     | (SleepThenContinue d, es, c', m') \<Rightarrow>
         (case consume cdc rds c' m' of (ss, es', c2, m2) \<Rightarrow> (d # ss, es @ es', c2, m2)))"

text \<open>\<open>retry_ok\<close>: the retry counter stays between zero and its maximum.\<close>

definition retry_ok :: "Consumer \<Rightarrow> bool" where
  "retry_ok c \<longleftrightarrow> 0 \<le> retryCount c \<and> retryCount c \<le> c_maxRetryCount c \<and> 1 \<le> c_maxRetryCount c"

lemma retry_ok_New [simp]: "retry_ok (NewConsumer h)"
  by (simp add: retry_ok_def NewConsumer_def defaultMaxRetryCount_def)

lemma backoff_bounds: "1000000000 \<le> backoff rc \<and> backoff rc \<le> 30 * 1000000000"
  by (simp add: backoff_def)

lemma loop_body_keeps:
  "loop_body cdc ctxDone rd c m = (it, es, c', m') \<Longrightarrow>
   stopCh c' = stopCh c \<and> handle c' = handle c \<and> c_maxRetryCount c' = c_maxRetryCount c \<and>
   (retry_ok c \<longrightarrow> retry_ok c')"
  by (auto simp: loop_body_def Let_def retry_ok_def split: if_splits)

text \<open>A read that gave a message, and the envelopes of such reads in order.\<close>

definition good_read :: "read_result \<Rightarrow> bool" where
  "good_read rd \<longleftrightarrow> read_err rd = None \<and> msg_Value rd \<noteq> None"

definition failed_read :: "read_result \<Rightarrow> bool" where
  "failed_read rd \<longleftrightarrow> read_err rd \<noteq> None \<and> msg_Value rd = None"

definition decoded :: "codec \<Rightarrow> read_result list \<Rightarrow> BroadcastEnvelope list" where
  "decoded cdc rds = List.map_filter
     (\<lambda>rd. case msg_Value rd of None \<Rightarrow> None | Some v \<Rightarrow> DecodeBroadcastEnvelope cdc v) rds"

lemma decoded_Cons:
  "decoded cdc (rd # rds) =
    (case msg_Value rd of None \<Rightarrow> []
     | Some v \<Rightarrow> (case DecodeBroadcastEnvelope cdc v of None \<Rightarrow> [] | Some e \<Rightarrow> [e])) @ decoded cdc rds"
  by (simp add: decoded_def List.map_filter_simps split: option.splits)

text \<open>
  C28: nothing read is lost, duplicated or reordered. While the consumer is not told to stop and its
  context is alive, whatever reads fail in between, the callback gets exactly the decodable messages
  that were read, in the order of the reads, and every failed read is counted.
\<close>

theorem consumed_in_order:
  assumes "\<forall>rd \<in> set rds. good_read rd \<or> failed_read rd"
    and "stopCh c \<noteq> ClosedChan" and "handle c"
  shows "(case consume cdc (map (Pair False) rds) c m of (sleeps, handled, c', m') \<Rightarrow>
      handled = decoded cdc rds \<and>
      length sleeps = length (filter failed_read rds) \<and>
      KafkaConsumeErrCount m' = KafkaConsumeErrCount m + of_nat (length (filter failed_read rds)))"
  using assms
proof (induction rds arbitrary: c m)
  case Nil
  then show ?case by (simp add: decoded_def List.map_filter_simps)
next
  case (Cons rd rds)
  obtain it es c' m' where b: "loop_body cdc False rd c m = (it, es, c', m')" using prod_cases4 by blast
  note k = loop_body_keeps [OF b]
  obtain ss hs c2 m2 where t: "consume cdc (map (Pair False) rds) c' m' = (ss, hs, c2, m2)"
    using prod_cases4 by blast
  have IH: "hs = decoded cdc rds \<and> length ss = length (filter failed_read rds) \<and>
      KafkaConsumeErrCount m2 = KafkaConsumeErrCount m' + of_nat (length (filter failed_read rds))"
    using Cons.IH [of c' m'] Cons.prems k by (simp add: t)
  show ?case
  proof (cases "good_read rd")
    case True
    then obtain v where v: "msg_Value rd = Some v" "read_err rd = None" by (auto simp: good_read_def)
    have "it = Continue" "KafkaConsumeErrCount m' = KafkaConsumeErrCount m" "es = (case DecodeBroadcastEnvelope cdc v of None \<Rightarrow> [] | Some e \<Rightarrow> [e])"
      using b v Cons.prems by (auto simp: loop_body_def processMessage_def Let_def split: option.splits)
    moreover have "\<not> failed_read rd" using v by (simp add: failed_read_def)
    ultimately show ?thesis using IH v(1) by (simp add: b t decoded_Cons split: option.splits)
  next
    case False
    with Cons.prems have f: "failed_read rd" by auto
    then obtain d where "it = SleepThenContinue d" "es = []"
        "KafkaConsumeErrCount m' = KafkaConsumeErrCount m + 1"
      using b Cons.prems by (auto simp: loop_body_def failed_read_def Let_def)
    moreover have "msg_Value rd = None" using f by (simp add: failed_read_def)
    ultimately show ?thesis using IH f by (simp add: b t decoded_Cons)
  qed
qed

theorem consumed_in_order_witness:
  "fst (snd (consume (null_codec\<lparr>Unmarshal_Envelope := \<lambda>_. Some empty_envelope\<rparr>) (map (Pair False)
       [\<lparr>msg_Value = None, read_err = Some ''deadline''\<rparr>, \<lparr>msg_Value = Some [1], read_err = None\<rparr>])
       (NewConsumer True) no_metrics)) = [empty_envelope]"
proof -
  let ?cdc = "null_codec\<lparr>Unmarshal_Envelope := \<lambda>_. Some empty_envelope\<rparr>"
  let ?rds = "[\<lparr>msg_Value = None, read_err = Some ''deadline''\<rparr>, \<lparr>msg_Value = Some [1], read_err = None\<rparr>]"
  have "\<forall>rd \<in> set ?rds. good_read rd \<or> failed_read rd" by (simp add: good_read_def failed_read_def)
  moreover have "stopCh (NewConsumer True) \<noteq> ClosedChan" "handle (NewConsumer True)"
    by (simp_all add: NewConsumer_def)
  ultimately have "fst (snd (consume ?cdc (map (Pair False) ?rds) (NewConsumer True) no_metrics)) = decoded ?cdc ?rds"
    using consumed_in_order [of ?rds "NewConsumer True" ?cdc no_metrics] unfolding case_prod_beta by blast
  also have "decoded ?cdc ?rds = [empty_envelope]"
    by (simp add: decoded_def List.map_filter_simps DecodeBroadcastEnvelope_def)
  finally show ?thesis .
qed

section \<open>Backing off\<close>

lemma idle_reads_sleep:
  assumes "\<forall>rd \<in> set rds. failed_read rd" and "stopCh c \<noteq> ClosedChan" and "retry_ok c"
  shows "fst (consume cdc (map (Pair False) rds) c m) =
    map (\<lambda>k. backoff (min (c_maxRetryCount c) (retryCount c + int (Suc k)))) [0..<length rds]"
  using assms
proof (induction rds arbitrary: c m)
  case Nil
  then show ?case by simp
next
  case (Cons rd rds)
  let ?rc = "min (c_maxRetryCount c) (retryCount c + 1)"
  let ?c = "c\<lparr>retryCount := ?rc\<rparr>"
  have rc: "(if retryCount c + 1 > c_maxRetryCount c then c_maxRetryCount c else retryCount c + 1) = ?rc"
    by (auto simp: min_def)
  obtain m' where b: "loop_body cdc False rd c m = (SleepThenContinue (backoff ?rc), [], ?c, m')"
    using Cons.prems unfolding loop_body_def failed_read_def Let_def rc by auto
  have ok: "stopCh ?c \<noteq> ClosedChan" "retry_ok ?c" "\<forall>rd \<in> set rds. failed_read rd"
    using Cons.prems by (auto simp: retry_ok_def)
  have "fst (consume cdc (map (Pair False) rds) ?c m') =
      map (\<lambda>k. backoff (min (c_maxRetryCount c) (?rc + int (Suc k)))) [0..<length rds]"
    using Cons.IH [OF ok(3,1,2)] by simp
  also have "\<dots> = map (\<lambda>k. backoff (min (c_maxRetryCount c) (retryCount c + int (Suc k)))) (map Suc [0..<length rds])"
    by (auto simp: min_def algebra_simps)
  finally have "fst (consume cdc (map (Pair False) (rd # rds)) c m) =
      backoff ?rc # map (\<lambda>k. backoff (min (c_maxRetryCount c) (retryCount c + int (Suc k)))) (map Suc [0..<length rds])"
    by (simp add: b case_prod_beta)
  moreover have "[0..<length (rd # rds)] = 0 # map Suc [0..<length rds]"
    by (simp add: map_Suc_upt upt_conv_Cons del: upt_Suc)
  ultimately show ?case by (simp del: consume.simps upt_Suc)
qed

text \<open>
  The consumer treats silence as failure. A topic without messages makes every five second read time
  out; each time-out is counted as an error and the pause before the next read doubles from one
  second: after \<open>n\<close> silent reads of a new consumer the pauses were 1, 2, 4, 8, 16 and then 30 seconds.
\<close>

theorem silence_backs_off:
  assumes "\<forall>rd \<in> set rds. failed_read rd"
  shows "fst (consume cdc (map (Pair False) rds) (NewConsumer h) m) =
    take (length rds) ([1000000000, 2000000000, 4000000000, 8000000000, 16000000000] @
      replicate (length rds - 5) 30000000000)"
proof -
  have pow: "2 ^ nat k \<ge> (32 :: int)" if "5 \<le> k" for k
    using that power_increasing [of 5 "nat k" "2::int"] by simp
  have late: "backoff (min 31 (int (Suc k))) = 30000000000" if "5 \<le> k" for k
    unfolding backoff_def using pow [of "min 31 (int (Suc k)) - 1"] that by (subst min_absorb1) simp_all
  have "fst (consume cdc (map (Pair False) rds) (NewConsumer h) m) =
      map (\<lambda>k. backoff (min 31 (int (Suc k)))) [0..<length rds]"
    using idle_reads_sleep [OF assms, of "NewConsumer h"] by (simp add: NewConsumer_def defaultMaxRetryCount_def retry_ok_def)
  also have "\<dots> = take (length rds) ([1000000000, 2000000000, 4000000000, 8000000000, 16000000000] @
      replicate (length rds - 5) 30000000000)" (is "?l = ?r")
  proof (rule nth_equalityI)
    fix k assume k: "k < length ?l"
    show "?l ! k = ?r ! k"
    proof (cases "k < 5")
      case True
      then have "k \<in> {0, 1, 2, 3, 4}" by auto
      with k True show ?thesis by (auto simp: backoff_def nth_append)
    next
      case False
      with k late [of k] show ?thesis by (simp add: nth_append)
    qed
  qed simp
  finally show ?thesis .
qed

theorem silence_backs_off_witness:
  "fst (consume null_codec (map (Pair False) (replicate 7 \<lparr>msg_Value = None, read_err = Some ''deadline''\<rparr>))
     (NewConsumer True) no_metrics) =
   [1000000000, 2000000000, 4000000000, 8000000000, 16000000000, 30000000000, 30000000000]"
proof -
  have "\<forall>rd \<in> set (replicate 7 \<lparr>msg_Value = None, read_err = Some ''deadline''\<rparr>). failed_read rd"
    by (simp add: failed_read_def)
  from silence_backs_off [OF this, of null_codec True no_metrics] show ?thesis
    by (simp add: numeral_eq_Suc del: consume.simps)
qed

section \<open>Shutting down\<close>

text \<open>
  The consumer shared by its loop and the callers of \<open>Close\<close>. The loop is \<open>Running\<close> between two
  iterations, \<open>Leaving\<close> once it decided to return and before the deferred \<open>close(c.stopCh)\<close>. A close of a
  closed channel is a panic of the goroutine that does it.
\<close>

datatype loop_status = NotStarted | Running | Leaving | Finished | LoopPanicked

datatype close_state = NotCalled | Closed_ok | ClosePanicked

record shared =
  con :: Consumer
  met :: metrics
  loop :: loop_status
  closer :: close_state
  given :: "BroadcastEnvelope list"

definition start_shared :: "Consumer \<Rightarrow> shared" where
  "start_shared c = \<lparr>con = c, met = no_metrics, loop = NotStarted, closer = NotCalled, given = []\<rparr>"

text \<open>\<open>Close\<close>: signal the loop, then close the reader.\<close>

definition Close :: "shared \<Rightarrow> shared" where
  "Close s =
    (if \<not> reader (con s) then s\<lparr>closer := Closed_ok\<rparr>
     else case stopCh (con s) of
            NilChan \<Rightarrow> s\<lparr>closer := Closed_ok\<rparr>
          | OpenChan \<Rightarrow> s\<lparr>con := (con s)\<lparr>stopCh := ClosedChan\<rparr>, closer := Closed_ok\<rparr>
          | ClosedChan \<Rightarrow> s\<lparr>closer := ClosePanicked\<rparr>)"

text \<open>The deferred \<open>close(c.stopCh)\<close> of \<open>Start\<close>.\<close>

definition deferred_close :: "shared \<Rightarrow> shared" where
  "deferred_close s =
    (if stopCh (con s) = OpenChan
     then s\<lparr>con := (con s)\<lparr>stopCh := ClosedChan\<rparr>, loop := Finished\<rparr>
     else s\<lparr>loop := LoopPanicked\<rparr>)"

inductive consumer_step :: "codec \<Rightarrow> shared \<Rightarrow> shared \<Rightarrow> bool" for cdc where
  start: "loop s = NotStarted \<Longrightarrow> reader (con s) \<Longrightarrow>
    consumer_step cdc s (s\<lparr>con := (con s)\<lparr>stopCh := OpenChan\<rparr>, loop := Running\<rparr>)"
| iterate: "loop s = Running \<Longrightarrow> loop_body cdc ctxDone rd (con s) (met s) = (it, es, c', m') \<Longrightarrow>
    consumer_step cdc s (s\<lparr>con := c', met := m', given := given s @ es,
      loop := (if it = Return then Leaving else Running)\<rparr>)"
| leave: "loop s = Leaving \<Longrightarrow> consumer_step cdc s (deferred_close s)"
| close: "closer s = NotCalled \<Longrightarrow> consumer_step cdc s (Close s)"

inductive_cases consumer_stepE: "consumer_step cdc s s'"

inductive reachable :: "codec \<Rightarrow> shared \<Rightarrow> shared \<Rightarrow> bool" for cdc s where
  here: "reachable cdc s s"
| more: "reachable cdc s s1 \<Longrightarrow> consumer_step cdc s1 s2 \<Longrightarrow> reachable cdc s s2"

text \<open>
  What ties the channel to its two closers once the loop was started before \<open>Close\<close>: it is closed
  exactly when one of them closed it, so the other one panics.
\<close>

definition one_closer :: "shared \<Rightarrow> bool" where
  "one_closer s \<longleftrightarrow> reader (con s) \<and> loop s \<noteq> NotStarted \<and> stopCh (con s) \<noteq> NilChan \<and>
     (stopCh (con s) = OpenChan \<longleftrightarrow> closer s = NotCalled \<and> loop s \<in> {Running, Leaving}) \<and>
     (closer s = ClosePanicked \<longrightarrow> loop s = Finished) \<and>
     (loop s = LoopPanicked \<longrightarrow> closer s = Closed_ok) \<and>
     (closer s = Closed_ok \<longrightarrow> loop s \<noteq> Finished)"

lemma consumer_step_one_closer:
  assumes "consumer_step cdc s s'" and "one_closer s"
  shows "one_closer s'"
  using assms(1)
proof cases
  case start
  then show ?thesis using assms(2) by (auto simp: one_closer_def)
next
  case (iterate ctxDone rd it es c' m')
  from loop_body_keeps [OF iterate(3)] have "stopCh c' = stopCh (con s)" by blast
  moreover have "reader c' = reader (con s)"
    using iterate(3) by (auto simp: loop_body_def Let_def split: if_splits)
  ultimately show ?thesis using assms(2) iterate by (auto simp: one_closer_def)
next
  case leave
  then show ?thesis using assms(2) by (cases "closer s") (auto simp: one_closer_def deferred_close_def)
next
  case close
  then show ?thesis using assms(2)
    by (cases "loop s") (auto simp: one_closer_def Close_def split: channel.splits)
qed

text \<open>
  C39: a graceful shutdown always panics. Whatever the interleaving and whatever is read, once the loop
  of a consumer was started, the loop and \<open>Close\<close> never both end normally: when \<open>Close\<close> returned, the
  loop has not finished, and if the loop is over it ended in a panic; when the loop finished
  first, \<open>Close\<close> panics. Both of them close the same channel.
\<close>

theorem shutdown_panics:
  assumes "reachable cdc s s'" and "consumer_step cdc (start_shared (NewConsumer h)) s" and "loop s = Running"
  shows "(closer s' = Closed_ok \<longrightarrow> loop s' \<in> {Running, Leaving, LoopPanicked}) \<and>
         (loop s' = Finished \<longrightarrow> closer s' \<in> {NotCalled, ClosePanicked}) \<and>
         (loop s' \<in> {Finished, LoopPanicked} \<and> closer s' \<noteq> NotCalled \<longrightarrow>
            loop s' = LoopPanicked \<or> closer s' = ClosePanicked)"
proof -
  from assms(2,3) have "one_closer s"
    by cases (auto simp: one_closer_def start_shared_def NewConsumer_def Close_def)
  with assms(1) have "one_closer s'"
    by induction (auto intro: consumer_step_one_closer)
  then show ?thesis by (cases "loop s'"; cases "closer s'") (auto simp: one_closer_def)
qed

theorem shutdown_panics_witness:
  "\<exists>s s'. consumer_step null_codec (start_shared (NewConsumer True)) s \<and> reachable null_codec s s' \<and>
     closer s' = Closed_ok \<and> loop s' = LoopPanicked"
proof -
  let ?n = "start_shared (NewConsumer True)"
  let ?s = "?n\<lparr>con := (con ?n)\<lparr>stopCh := OpenChan\<rparr>, loop := Running\<rparr>"
  let ?p = "Close ?s"
  let ?q = "?p\<lparr>con := con ?p, met := met ?p, given := given ?p @ [], loop := Leaving\<rparr>"
  have st: "consumer_step null_codec ?n ?s"
    by (rule consumer_step.start) (simp_all add: start_shared_def NewConsumer_def)
  have "consumer_step null_codec ?s ?p"
    by (rule consumer_step.close) (simp add: start_shared_def)
  moreover have "consumer_step null_codec ?p ?q"
    using consumer_step.iterate [of ?p null_codec False "\<lparr>msg_Value = None, read_err = None\<rparr>" Return "[]" "con ?p" "met ?p"]
    by (simp add: loop_body_def Close_def start_shared_def NewConsumer_def)
  moreover have "consumer_step null_codec ?q (deferred_close ?q)"
    by (rule consumer_step.leave) simp
  ultimately have r: "reachable null_codec ?s (deferred_close ?q)"
    by (blast intro: reachable.intros)
  have "closer (deferred_close ?q) = Closed_ok"
    by (simp add: deferred_close_def Close_def start_shared_def NewConsumer_def)
  moreover have "loop (deferred_close ?q) \<in> {Finished, LoopPanicked}"
    by (simp add: deferred_close_def)
  ultimately show ?thesis using shutdown_panics [OF r st] r st by auto
qed

end
