(* ===== verification/Go_Strings.thy ===== *)
theory Go_Strings
  imports Barrage_Prelude
begin

text \<open>
  The functions of Go's package \<open>strings\<close> that the word filters and the handshake call, on the bytes
  of their arguments.
\<close>

section \<open>Substrings\<close>

text \<open>\<open>strings.Contains\<close> and \<open>strings.HasPrefix\<close> (the library's \<^const>\<open>prefix\<close>).\<close>

fun Contains :: "string \<Rightarrow> string \<Rightarrow> bool" where
  "Contains [] w \<longleftrightarrow> w = []"
| "Contains (c # s) w \<longleftrightarrow> prefix w (c # s) \<or> Contains s w"

lemma Contains_sublist [go_simps]: "Contains s w \<longleftrightarrow> sublist w s"
  by (induction s) (auto simp: sublist_Cons_right)

section \<open>White space\<close>

text \<open>
  \<open>strings.TrimSpace\<close>: the white space characters of Unicode in UTF-8. An encoding found at either
  end of a string is always decoded as that character, because its first byte is a lead byte.
\<close>

definition space_encodings :: "nat list list" where
  "space_encodings =
    [[9], [10], [11], [12], [13], [32], [0xC2, 0x85], [0xC2, 0xA0], [0xE1, 0x9A, 0x80]] @
    map (\<lambda>k. [0xE2, 0x80, k]) ([0x80..<0x8B] @ [0xA8, 0xA9, 0xAF]) @
    [[0xE2, 0x81, 0x9F], [0xE3, 0x80, 0x80]]"

definition spaces :: "string list" where
  "spaces = map (map char_of) space_encodings"

function trim_front :: "string list \<Rightarrow> string \<Rightarrow> string" where
  "trim_front es s =
    (case find (\<lambda>e. e \<noteq> [] \<and> prefix e s) es of
       None \<Rightarrow> s
     | Some e \<Rightarrow> trim_front es (drop (length e) s))"
  by pat_completeness auto
termination
  by (relation "measure (\<lambda>(es, s). length s)") (auto simp: find_Some_iff prefix_def)

declare trim_front.simps [simp del]

definition TrimSpace :: "string \<Rightarrow> string" where
  "TrimSpace s = rev (trim_front (map rev spaces) (rev (trim_front spaces s)))"

lemma spaces_heads: "e \<in> set spaces \<union> rev ` set spaces \<Longrightarrow> e \<noteq> []"
  by (auto simp: spaces_def space_encodings_def)

text \<open>A string that no white space starts or ends is left alone.\<close>

definition untrimmed :: "string \<Rightarrow> bool" where
  "untrimmed s \<longleftrightarrow> (\<forall>e \<in> set spaces. \<not> prefix e s \<and> \<not> suffix e s)"

lemma trim_front_none: "\<forall>e \<in> set es. \<not> prefix e s \<Longrightarrow> trim_front es s = s"
  by (subst trim_front.simps) (auto split: option.splits simp: find_Some_iff)

lemma trim_front_clean: "trim_front es s = t \<Longrightarrow> e \<in> set es \<Longrightarrow> e \<noteq> [] \<Longrightarrow> \<not> prefix e t"
proof (induction es s arbitrary: t rule: trim_front.induct)
  case (1 es s)
  show ?case
  proof (cases "find (\<lambda>e. e \<noteq> [] \<and> prefix e s) es")
    case None
    with 1 show ?thesis
      by (subst (asm) trim_front.simps) (auto simp: find_None_iff)
  next
    case (Some d)
    with "1.prems" have "trim_front es (drop (length d) s) = t"
      by (subst (asm) trim_front.simps) simp
    with "1.IH" [OF Some] "1.prems" show ?thesis by blast
  qed
qed

lemma trim_front_suffix: "suffix (trim_front es s) s"
proof (induction es s rule: trim_front.induct)
  case (1 es s)
  show ?case
  proof (cases "find (\<lambda>e. e \<noteq> [] \<and> prefix e s) es")
    case None
    then show ?thesis by (subst trim_front.simps) simp
  next
    case (Some d)
    with "1.IH" [OF Some] show ?thesis
      by (subst trim_front.simps) (auto intro: suffix_order.order_trans suffix_drop)
  qed
qed

lemma TrimSpace_untrimmed: "untrimmed s \<Longrightarrow> TrimSpace s = s"
  by (simp add: TrimSpace_def untrimmed_def trim_front_none suffix_to_prefix)

lemma TrimSpace_no_trailing: "e \<in> set spaces \<Longrightarrow> \<not> suffix e (TrimSpace s)"
  using trim_front_clean [OF refl, of "rev e" "map rev spaces"] spaces_heads [of "rev e"]
  by (auto simp: TrimSpace_def suffix_to_prefix)

lemma TrimSpace_no_leading:
  assumes "e \<in> set spaces" and "TrimSpace s \<noteq> []"
  shows "\<not> prefix e (TrimSpace s)"
proof
  let ?f = "trim_front spaces s"
  assume "prefix e (TrimSpace s)"
  moreover have "prefix (TrimSpace s) ?f"
    using trim_front_suffix [of "map rev spaces" "rev ?f"] by (simp add: TrimSpace_def suffix_to_prefix)
  ultimately have "prefix e ?f" using prefix_order.order_trans by blast
  then show False using trim_front_clean [OF refl assms(1), of s] spaces_heads [of e] assms(1) by auto
qed

lemma space_ends:
  assumes "e \<in> set spaces"
  shows "e \<noteq> []" and "(of_char (hd e) :: nat) \<notin> {33..126}" and "(of_char (last e) :: nat) \<notin> {33..126}"
proof -
  have "\<forall>e \<in> set spaces. e \<noteq> [] \<and> (of_char (hd e) :: nat) \<notin> {33..126} \<and> (of_char (last e) :: nat) \<notin> {33..126}"
    by (simp add: spaces_def space_encodings_def upt_rec)
  with assms show "e \<noteq> []" "(of_char (hd e) :: nat) \<notin> {33..126}" "(of_char (last e) :: nat) \<notin> {33..126}"
    by blast+
qed

lemma untrimmed_ascii:
  assumes "s \<noteq> [] \<Longrightarrow> (of_char (hd s) :: nat) \<in> {33..126} \<and> (of_char (last s) :: nat) \<in> {33..126}"
  shows "untrimmed s"
  unfolding untrimmed_def
proof (intro ballI conjI notI)
  fix e assume e: "e \<in> set spaces"
  note ends = space_ends [OF e]
  { assume "prefix e s"
    with ends(1) have "hd s = hd e" "s \<noteq> []" by (auto simp: prefix_def)
    with assms ends(2) show False by metis }
  { assume "suffix e s"
    with ends(1) have "last s = last e" "s \<noteq> []" by (auto simp: suffix_def)
    with assms ends(3) show False by metis }
qed

end
