(* ===== verification/Text_Filter.thy ===== *)
theory Text_Filter
  imports Go_Strings
begin

text \<open>
  \<open>internal/filter\<close>: the sensitive word filters. A \<open>SimpleFilter\<close> holds a list of words; a
  \<open>ReloadableFilter\<close> holds the current \<open>SimpleFilter\<close> and replaces it when the word file changes. What
  both promise is the locale \<open>text_filter\<close>, interpreted on each of them.

  The file system is an input of the operations that read it: the answer of each \<open>os.Stat\<close> call and
  of \<open>os.Open\<close> with what can be read before the end of the file or a read error.
\<close>

section \<open>The simple filter\<close>

record Result =
  Original :: string
  Hit :: bool
  Words :: "string list"

record SimpleFilter =
  words :: "string list"

definition NewSimpleFilter :: "string list \<Rightarrow> SimpleFilter" where
  "NewSimpleFilter ws = \<lparr>words = ws\<rparr>"

definition no_result :: "string \<Rightarrow> Result" where
  "no_result text = \<lparr>Original = text, Hit = False, Words = []\<rparr>"

text \<open>The receiver is a pointer that may be nil: an option.\<close>

fun simple_Check :: "SimpleFilter option \<Rightarrow> string \<Rightarrow> Result" where
  "simple_Check None text = no_result text"
| "simple_Check (Some f) text =
     (if words f = [] \<or> text = '''' then no_result text
      else let hitWords = filter (\<lambda>word. word \<noteq> '''' \<and> Contains text word) (words f)
           in \<lparr>Original = text, Hit = (0 < length hitWords), Words = hitWords\<rparr>)"

section \<open>Reading the word file\<close>

datatype fs_error = ErrNotExist | ErrOther string

datatype load_error = FsError fs_error | ErrTooLong | ReadError string

record FileInfo =
  ModTime :: int
  Size :: int64

text \<open>
  What \<open>os.Open\<close> answers, and what reading the opened file gives: its bytes up to the end of the
  file (\<open>None\<close>) or up to a read error.
\<close>

type_synonym opened = "fs_error + (string \<times> string option)"

text \<open>
  \<open>bufio.Scanner\<close> with its default split function and buffer: lines end at a newline, one carriage
  return before it is dropped, a last line needs no newline, and a line of 64 KiB or more does not
  fit the buffer together with its end and stops the scan with \<open>ErrTooLong\<close>.
\<close>

abbreviation newline :: char where "newline \<equiv> char_of (10 :: nat)"
abbreviation carriage_return :: char where "carriage_return \<equiv> char_of (13 :: nat)"

function split_lines :: "string \<Rightarrow> string list" where
  "split_lines s =
    (if s = [] then []
     else takeWhile (\<lambda>c. c \<noteq> newline) s # split_lines (tl (dropWhile (\<lambda>c. c \<noteq> newline) s)))"
  by pat_completeness auto
termination
proof (relation "measure length", goal_cases)
  case (2 s)
  have "length (tl (dropWhile (\<lambda>c. c \<noteq> newline) s)) < length s"
    using length_dropWhile_le [of "\<lambda>c. c \<noteq> newline" s] 2 by (cases s) auto
  then show ?case by simp
qed simp

declare split_lines.simps [simp del]

definition dropCR :: "string \<Rightarrow> string" where
  "dropCR l = (if l \<noteq> [] \<and> last l = carriage_return then butlast l else l)"

definition MaxScanTokenSize :: nat where
  "MaxScanTokenSize = 64 * 1024"

definition scan_lines :: "string \<Rightarrow> string list option" where
  "scan_lines s =
    (let ls = split_lines s
     in if \<exists>l \<in> set ls. MaxScanTokenSize \<le> length l then None else Some (map dropCR ls))"

definition LoadWordsFromFile :: "opened \<Rightarrow> load_error + string list" where
  "LoadWordsFromFile file =
    (case file of
       Inl e \<Rightarrow> Inl (FsError e)
     | Inr (text, err) \<Rightarrow>
         (case scan_lines text of
            None \<Rightarrow> Inl ErrTooLong
          | Some ls \<Rightarrow>
              (case err of
                 Some e \<Rightarrow> Inl (ReadError e)
               | None \<Rightarrow> Inr (filter (\<lambda>word. \<not> (word = '''' \<or> prefix ''#'' word)) (map TrimSpace ls)))))"

section \<open>The reloadable filter\<close>

text \<open>\<open>time.Time\<close> instants are integers; the zero time is \<open>0\<close>.\<close>

record ReloadableFilter =
  rf_path :: string
  current :: "SimpleFilter option"
  lastModTime :: int
  lastFileSize :: int64

definition NewReloadableFilter :: "string \<Rightarrow> string list \<Rightarrow> ReloadableFilter" where
  "NewReloadableFilter path fallbackWords =
    \<lparr>rf_path = path, current = Some (NewSimpleFilter fallbackWords), lastModTime = 0, lastFileSize = 0\<rparr>"

fun reloadable_Check :: "ReloadableFilter option \<Rightarrow> string \<Rightarrow> Result" where
  "reloadable_Check None text = no_result text"
| "reloadable_Check (Some f) text =
     (case current f of None \<Rightarrow> no_result text | Some c \<Rightarrow> simple_Check (Some c) text)"

abbreviation unchanged :: "ReloadableFilter \<Rightarrow> FileInfo \<Rightarrow> bool" where
  "unchanged f info \<equiv> ModTime info = lastModTime f \<and> Size info = lastFileSize f"

definition loadLocked ::
  "bool \<Rightarrow> fs_error + FileInfo \<Rightarrow> opened \<Rightarrow> ReloadableFilter \<Rightarrow> load_error option \<times> ReloadableFilter" where
  "loadLocked force stat file f =
    (case stat of
       Inl e \<Rightarrow> (Some (FsError e), f)
     | Inr info \<Rightarrow>
         if \<not> force \<and> unchanged f info then (None, f)
         else case LoadWordsFromFile file of
                Inl e \<Rightarrow> (Some e, f)
              | Inr ws \<Rightarrow> (None, f\<lparr>current := Some (NewSimpleFilter ws),
                                   lastModTime := ModTime info, lastFileSize := Size info\<rparr>))"

definition LoadNow ::
  "fs_error + FileInfo \<Rightarrow> opened \<Rightarrow> ReloadableFilter \<Rightarrow> load_error option \<times> ReloadableFilter" where
  "LoadNow stat file f = (if rf_path f = '''' then (None, f) else loadLocked True stat file f)"

text \<open>\<open>stat1\<close> answers the \<open>os.Stat\<close> of \<open>reloadIfChanged\<close>, \<open>stat2\<close> that of the \<open>loadLocked\<close> it calls.\<close>

definition reloadIfChanged ::
  "fs_error + FileInfo \<Rightarrow> fs_error + FileInfo \<Rightarrow> opened \<Rightarrow> ReloadableFilter \<Rightarrow>
   load_error option \<times> ReloadableFilter" where
  "reloadIfChanged stat1 stat2 file f =
    (case stat1 of
       Inl ErrNotExist \<Rightarrow> (None, f)
     | Inl e \<Rightarrow> (Some (FsError e), f)
     | Inr info \<Rightarrow> if unchanged f info then (None, f) else loadLocked False stat2 file f)"

text \<open>
  \<open>StartAutoReload\<close>: no ticker without a path or a positive interval; otherwise one \<open>reloadIfChanged\<close>
  for each tick, whose error is only logged.
\<close>

type_synonym disk_view = "(fs_error + FileInfo) \<times> (fs_error + FileInfo) \<times> opened"

definition reload_tick :: "ReloadableFilter \<Rightarrow> disk_view \<Rightarrow> ReloadableFilter" where
  "reload_tick f v = (case v of (stat1, stat2, file) \<Rightarrow> snd (reloadIfChanged stat1 stat2 file f))"

definition StartAutoReload :: "int \<Rightarrow> disk_view list \<Rightarrow> ReloadableFilter \<Rightarrow> ReloadableFilter" where
  "StartAutoReload interval ticks f =
    (if rf_path f = '''' \<or> interval \<le> 0 then f else foldl reload_tick f ticks)"

section \<open>The contract of a filter\<close>

text \<open>
  The \<open>Filter\<close> interface: a filter reports, in the order of its vocabulary, the non-empty words the
  text contains, and hits exactly when there is one.
\<close>

locale text_filter =
  fixes check :: "'f \<Rightarrow> string \<Rightarrow> Result"
    and vocabulary :: "'f \<Rightarrow> string list"
  assumes check_Original: "Original (check f t) = t"
    and check_Words: "Words (check f t) = filter (\<lambda>w. w \<noteq> '''' \<and> sublist w t) (vocabulary f)"
    and check_Hit: "Hit (check f t) \<longleftrightarrow> Words (check f t) \<noteq> []"
begin

lemma hit_iff: "Hit (check f t) \<longleftrightarrow> (\<exists>w \<in> set (vocabulary f). w \<noteq> '''' \<and> sublist w t)"
  by (auto simp: check_Hit check_Words filter_empty_conv)

lemma hit_mono: "Hit (check f t) \<Longrightarrow> sublist t t' \<Longrightarrow> Hit (check f t')"
  unfolding hit_iff by (meson sublist_order.order_trans)

lemma empty_text_passes: "\<not> Hit (check f '''')"
  by (auto simp: hit_iff)

lemma larger_vocabulary: "set (vocabulary f) \<subseteq> set (vocabulary g) \<Longrightarrow> Hit (check f t) \<Longrightarrow> Hit (check g t)"
  unfolding hit_iff by blast

end

definition simple_vocabulary :: "SimpleFilter option \<Rightarrow> string list" where
  "simple_vocabulary f = (case f of None \<Rightarrow> [] | Some f \<Rightarrow> words f)"

definition reloadable_vocabulary :: "ReloadableFilter option \<Rightarrow> string list" where
  "reloadable_vocabulary f = (case f of None \<Rightarrow> [] | Some f \<Rightarrow> simple_vocabulary (current f))"

lemma no_result_simps [simp]:
  "Original (no_result t) = t" "\<not> Hit (no_result t)" "Words (no_result t) = []"
  by (simp_all add: no_result_def)

interpretation simple_filter: text_filter simple_Check simple_vocabulary
proof
  fix f t
  show "Original (simple_Check f t) = t"
    by (cases f) (auto simp: Let_def)
  show "Words (simple_Check f t) = filter (\<lambda>w. w \<noteq> '''' \<and> sublist w t) (simple_vocabulary f)"
    by (cases f) (auto simp: Let_def simple_vocabulary_def go_simps filter_empty_conv intro!: filter_cong)
  show "Hit (simple_Check f t) \<longleftrightarrow> Words (simple_Check f t) \<noteq> []"
    by (cases f) (auto simp: Let_def)
qed

lemma reloadable_Check_simple:
  "reloadable_Check f t = simple_Check (case f of None \<Rightarrow> None | Some f \<Rightarrow> current f) t"
  by (cases f) (auto split: option.splits)

interpretation reloadable_filter: text_filter reloadable_Check reloadable_vocabulary
  by unfold_locales
    (auto simp: reloadable_Check_simple reloadable_vocabulary_def simple_filter.check_Original
      simple_filter.check_Words simple_filter.check_Hit simple_vocabulary_def split: option.splits)

declare simple_Check.simps [simp del] reloadable_Check.simps [simp del]

section \<open>Splitting into lines\<close>

lemma split_lines_Nil [simp]: "split_lines [] = []"
  by (simp add: split_lines.simps)

lemma split_lines_line:
  assumes "newline \<notin> set l"
  shows "split_lines (l @ newline # s) = l # split_lines s"
proof -
  have "takeWhile (\<lambda>c. c \<noteq> newline) (l @ newline # s) = l"
    and "dropWhile (\<lambda>c. c \<noteq> newline) (l @ newline # s) = newline # s"
    using assms by (auto simp: takeWhile_append dropWhile_append)
  then show ?thesis by (subst split_lines.simps) simp
qed

lemma split_lines_concat:
  "\<forall>l \<in> set ls. newline \<notin> set l \<Longrightarrow> split_lines (concat (map (\<lambda>l. l @ [newline]) ls)) = ls"
  by (induction ls) (auto simp: split_lines_line)

section \<open>Properties\<close>

text \<open>The text of a file with the given lines.\<close>

definition file_of :: "string list \<Rightarrow> string" where
  "file_of ls = concat (map (\<lambda>l. l @ [newline]) ls)"

definition is_word :: "string \<Rightarrow> bool" where
  "is_word w \<longleftrightarrow> w \<noteq> '''' \<and> \<not> prefix ''#'' w"

lemma is_word_alt: "is_word = (\<lambda>w. w \<noteq> '''' \<and> \<not> prefix ''#'' w)"
  by (simp add: is_word_def fun_eq_iff)

lemma LoadWords_lines:
  assumes "\<forall>l \<in> set ls. newline \<notin> set l"
  shows "LoadWordsFromFile (Inr (file_of ls, None)) =
    (if \<exists>l \<in> set ls. MaxScanTokenSize \<le> length l then Inl ErrTooLong
     else Inr (filter is_word (map (TrimSpace \<circ> dropCR) ls)))"
  using split_lines_concat [OF assms]
  by (simp add: LoadWordsFromFile_def scan_lines_def file_of_def is_word_alt comp_def)

lemma dropCR_untrimmed: "untrimmed l \<Longrightarrow> dropCR l = l"
proof -
  have "[carriage_return] \<in> set spaces" by (simp add: spaces_def space_encodings_def)
  then show "untrimmed l \<Longrightarrow> dropCR l = l"
    by (auto simp: untrimmed_def dropCR_def suffix_def dest!: bspec)
      (metis append_butlast_last_id)
qed

text \<open>
  Loading a word file. A file of lines shorter than 64 KiB that no white space surrounds loads as
  exactly its lines that are neither blank nor comments, in order; a line of 64 KiB or more rejects
  the file as a whole.
\<close>

theorem word_file_loads:
  assumes "\<forall>l \<in> set ls. newline \<notin> set l \<and> untrimmed l"
  shows "LoadWordsFromFile (Inr (file_of ls, None)) =
    (if \<exists>l \<in> set ls. 64 * 1024 \<le> length l then Inl ErrTooLong
     else Inr (filter (\<lambda>l. l \<noteq> '''' \<and> \<not> prefix ''#'' l) ls))"
proof -
  have "map (TrimSpace \<circ> dropCR) ls = ls"
    using assms by (intro map_idI) (simp add: dropCR_untrimmed TrimSpace_untrimmed)
  then show ?thesis
    using assms by (subst LoadWords_lines) (auto simp: is_word_alt MaxScanTokenSize_def)
qed

theorem word_file_loads_witness:
  "LoadWordsFromFile (Inr (file_of [''# list'', ''spam'', '''', ''bad word''], None)) =
     Inr [''spam'', ''bad word'']"
proof -
  have "\<forall>l \<in> set [''# list'', ''spam'', '''', ''bad word'']. newline \<notin> set l \<and> untrimmed l"
    by (auto intro!: untrimmed_ascii simp: char_of_eq_iff)
  from word_file_loads [OF this] show ?thesis by simp
qed

text \<open>
  What a filter hits. The reloadable filter, nil or not, reports exactly the non-empty words of its
  current list that occur in the text, hits exactly when there is one, and so keeps hitting when the
  text is extended on either side or the list grows.
\<close>

theorem filter_hits_exactly:
  "Words (reloadable_Check f t) = filter (\<lambda>w. w \<noteq> '''' \<and> sublist w t) (reloadable_vocabulary f) \<and>
   (Hit (reloadable_Check f t) \<longleftrightarrow> Words (reloadable_Check f t) \<noteq> []) \<and>
   Original (reloadable_Check f t) = t \<and>
   (Hit (reloadable_Check f t) \<longrightarrow> Hit (reloadable_Check f (a @ t @ b))) \<and>
   (set (reloadable_vocabulary f) \<subseteq> set (reloadable_vocabulary g) \<and> Hit (reloadable_Check f t) \<longrightarrow>
      Hit (reloadable_Check g t))"
  using reloadable_filter.check_Words reloadable_filter.check_Hit reloadable_filter.check_Original
    reloadable_filter.larger_vocabulary reloadable_filter.hit_mono [of f t "a @ t @ b"]
  by blast

theorem filter_hits_exactly_witness:
  "Hit (reloadable_Check (Some (NewReloadableFilter ''p'' [''x'', ''bad''])) ''so bad!'')"
proof -
  let ?f = "Some (NewReloadableFilter ''p'' [''x'', ''bad''])"
  have "Hit (reloadable_Check ?f ''bad'')"
    by (simp add: reloadable_filter.hit_iff reloadable_vocabulary_def simple_vocabulary_def
        NewReloadableFilter_def NewSimpleFilter_def)
  then have "Hit (reloadable_Check ?f (''so '' @ ''bad'' @ ''!''))"
    using filter_hits_exactly [of ?f "''bad''" "''so ''" "''!''"] by blast
  then show ?thesis by simp
qed

lemma loadLocked_cases:
  "loadLocked force stat file f = (e, f') \<Longrightarrow>
   f' = f \<or> (e = None \<and> (\<exists>info ws. stat = Inr info \<and> LoadWordsFromFile file = Inr ws \<and>
     f' = f\<lparr>current := Some (NewSimpleFilter ws), lastModTime := ModTime info, lastFileSize := Size info\<rparr>))"
  by (auto simp: loadLocked_def split: sum.splits if_splits)



end
