(* ===== verification/Admission.thy ===== *)
theory Admission
  imports Barrage_Prelude
begin

text \<open>
  \<open>internal/app/app.go\<close>: the two admission limits of the application, the token bucket of
  \<open>RateLimiter\<close> and the connections per user of \<open>addUserConn\<close> and \<open>RemoveUserConn\<close>.

  Every token count the code computes is an integer: it starts at \<open>capacity - 1\<close>, gains \<open>elapsed * rate\<close>
  and loses one. The code keeps it in a \<open>float64\<close>, which is exact below 2^53 in absolute value, beyond
  any refill of a clock that runs forward, and caps it at the capacity; the model uses integers.
\<close>

section \<open>The token bucket\<close>

record userBucket =
  tokens :: int
  lastUpdate :: int64

record RateLimiter =
  users :: "int64 \<rightharpoonup> userBucket"
  rate :: int
  capacity :: int

definition NewRateLimiter :: "int \<Rightarrow> int \<Rightarrow> RateLimiter" where
  "NewRateLimiter r c = \<lparr>users = Map.empty, rate = r, capacity = c\<rparr>"

definition Allow :: "int64 \<Rightarrow> RateLimiter \<Rightarrow> int64 \<Rightarrow> bool \<times> RateLimiter" where
  "Allow now r userId =
    (case users r userId of
       None \<Rightarrow>
         (True, r\<lparr>users := (users r)(userId \<mapsto> \<lparr>tokens = capacity r - 1, lastUpdate = now\<rparr>)\<rparr>)
     | Some bucket \<Rightarrow>
         let elapsed = sint (now - lastUpdate bucket);
             t = tokens bucket + elapsed * rate r;
             t = (if t > capacity r then capacity r else t)
         in if t \<ge> 1 then
              (True, r\<lparr>users := (users r)(userId \<mapsto> \<lparr>tokens = t - 1, lastUpdate = now\<rparr>)\<rparr>)
            else (False, r\<lparr>users := (users r)(userId \<mapsto> \<lparr>tokens = t, lastUpdate = now\<rparr>)\<rparr>))"

text \<open>A sequence of calls, each with its clock reading and user, and the answers given.\<close>

fun allow_run :: "RateLimiter \<Rightarrow> (int64 \<times> int64) list \<Rightarrow> (int64 \<times> bool) list \<times> RateLimiter" where
  "allow_run r [] = ([], r)"
| "allow_run r ((now, u) # cs) =
    (case Allow now r u of
       (ok, r') \<Rightarrow> (case allow_run r' cs of (oks, r'') \<Rightarrow> ((u, ok) # oks, r'')))"

lemma Allow_keeps [simp]:
  "rate (snd (Allow now r u)) = rate r" "capacity (snd (Allow now r u)) = capacity r"
  by (auto simp: Allow_def Let_def split: option.splits)

lemma Allow_other: "v \<noteq> u \<Longrightarrow> users (snd (Allow now r u)) v = users r v"
  by (auto simp: Allow_def Let_def split: option.splits)

lemma Allow_own: "users r u = users r' u \<Longrightarrow> rate r = rate r' \<Longrightarrow> capacity r = capacity r' \<Longrightarrow>
    fst (Allow now r u) = fst (Allow now r' u) \<and>
    users (snd (Allow now r u)) u = users (snd (Allow now r' u)) u"
  by (auto simp: Allow_def Let_def split: option.splits)

text \<open>
  Users do not share a budget. The answers a user gets in any sequence of calls are those of the
  user's own calls alone.
\<close>

theorem rate_limit_isolated:
  "filter (\<lambda>(v, ok). v = u) (fst (allow_run r cs)) =
   fst (allow_run r (filter (\<lambda>(t, v). v = u) cs))"
proof -
  have "filter (\<lambda>(v, ok). v = u) (fst (allow_run r cs)) =
      fst (allow_run r' (filter (\<lambda>(t, v). v = u) cs))"
    if "users r u = users r' u" "rate r = rate r'" "capacity r = capacity r'" for r r'
    using that
  proof (induction cs arbitrary: r r')
    case Nil
    then show ?case by simp
  next
    case (Cons c cs)
    obtain t v where c: "c = (t, v)" by (cases c)
    show ?case
    proof (cases "v = u")
      case True
      note own = Allow_own [OF Cons.prems, of t]
      then show ?thesis
        using Cons.IH [of "snd (Allow t r u)" "snd (Allow t r' u)"] Cons.prems True
        by (simp add: c case_prod_beta)
    next
      case False
      then have "users (snd (Allow t r v)) u = users r' u" using Allow_other [of u v t r] Cons.prems by simp
      then show ?thesis
        using Cons.IH [of "snd (Allow t r v)" r'] Cons.prems False by (simp add: c case_prod_beta)
    qed
  qed
  then show ?thesis by blast
qed

text \<open>
  The budget of a user at a time: what the bucket would hold then, at least zero, and for a user not
  yet seen the capacity, at least the one message that opens a bucket.
\<close>

definition budget :: "RateLimiter \<Rightarrow> int64 \<Rightarrow> int \<Rightarrow> int" where
  "budget r u t =
    (case users r u of
       None \<Rightarrow> max 1 (capacity r)
     | Some b \<Rightarrow> max 0 (min (capacity r) (tokens b + (t - sint (lastUpdate b)) * rate r)))"

text \<open>Clock readings at or after the last update of every bucket, far from the ends of \<open>int64\<close>.\<close>

definition clock_ok :: "RateLimiter \<Rightarrow> int \<Rightarrow> bool" where
  "clock_ok r t \<longleftrightarrow> 0 \<le> t \<and> t < 2 ^ 62 \<and>
     (\<forall>u b. users r u = Some b \<longrightarrow> 0 \<le> sint (lastUpdate b) \<and> sint (lastUpdate b) \<le> t)"

lemma elapsed_exact:
  assumes "0 \<le> sint l" and "sint l \<le> sint n"
  shows "sint (n - l :: int64) = sint n - sint l"
proof -
  have "sint n < 2 ^ 63" using sint_lt [of n] by simp
  moreover have "n - l = of_int (sint n - sint l)" by simp
  ultimately show ?thesis
    using assms by (simp only: signed_of_int) (simp add: signed_take_bit_int_eq_self_iff)
qed

lemma budget_nonneg: "0 \<le> budget r u t"
  by (simp add: budget_def le_max_iff_disj split: option.splits)

lemma budget_grows:
  assumes "t \<le> t'" and "0 \<le> rate r"
  shows "budget r u t' \<le> budget r u t + (t' - t) * rate r"
proof -
  have "0 \<le> (t' - t) * rate r" using assms by simp
  then show ?thesis
    by (auto simp: budget_def left_diff_distrib split: option.splits)
qed

lemma Allow_budget:
  assumes "clock_ok r (sint now)" and "0 \<le> rate r" and "Allow now r u = (ok, r')"
  shows "budget r' v (sint now) \<le> budget r v (sint now) - (if v = u \<and> ok then 1 else 0)"
    and "clock_ok r' (sint now)"
proof -
  have el: "sint (now - lastUpdate b) = sint now - sint (lastUpdate b)" if "users r u = Some b" for b
    using assms(1) that by (intro elapsed_exact) (auto simp: clock_ok_def)
  show "budget r' v (sint now) \<le> budget r v (sint now) - (if v = u \<and> ok then 1 else 0)"
    using assms(3) el by (auto simp: Allow_def budget_def Let_def split: option.splits if_splits)
  show "clock_ok r' (sint now)"
    using assms(1,3) by (auto simp: Allow_def clock_ok_def Let_def split: option.splits if_splits)
qed

lemma allow_run_budget:
  assumes "clock_ok r t" and "0 \<le> rate r" and "sorted (map (sint \<circ> fst) cs)"
    and "\<forall>c \<in> set cs. t \<le> sint (fst c) \<and> sint (fst c) \<le> t'" and "t \<le> t'" and "t' < 2 ^ 62"
  shows "int (length (filter (\<lambda>(v, ok). v = u \<and> ok) (fst (allow_run r cs)))) \<le> budget r u t + (t' - t) * rate r"
  using assms
proof (induction cs arbitrary: r t)
  case Nil
  then show ?case using budget_nonneg [of r u t] by simp
next
  case (Cons c cs)
  obtain now v where c: "c = (now, v)" by (cases c)
  obtain ok r' where a: "Allow now r v = (ok, r')" by fastforce
  have t: "t \<le> sint now" "sint now \<le> t'" using Cons.prems c by auto
  have ck: "clock_ok r (sint now)" using Cons.prems t by (force simp: clock_ok_def)
  note st = Allow_budget [OF ck Cons.prems(2) a]
  have r': "rate r' = rate r" using Allow_keeps(1) [of now r v] a by simp
  have "int (length (filter (\<lambda>(v, ok). v = u \<and> ok) (fst (allow_run r' cs))))
      \<le> budget r' u (sint now) + (t' - sint now) * rate r'"
    using Cons.prems c r' t st(2) by (intro Cons.IH) auto
  also have "\<dots> \<le> budget r u t + (sint now - t) * rate r - (if u = v \<and> ok then 1 else 0) + (t' - sint now) * rate r"
    using st(1) [of u] budget_grows [OF t(1) Cons.prems(2), of u] r' by simp
  finally show ?case by (auto simp: c a case_prod_unfold algebra_simps)
qed

text \<open>
  C17: the rate limit holds. In any sequence of calls whose clock never runs backwards, from a limiter in
  any state the clock has reached, the number of messages a user gets through in a window from \<open>t\<close> to
  \<open>t'\<close> is at most the burst capacity (at least one) plus the rate times the length of the window.
\<close>

theorem rate_limit_bound:
  assumes "clock_ok r t" and "0 \<le> rate r" and "sorted (map (sint \<circ> fst) cs)"
    and "\<forall>c \<in> set cs. t \<le> sint (fst c) \<and> sint (fst c) \<le> t'" and "t \<le> t'" and "t' < 2 ^ 62"
  shows "int (length (filter (\<lambda>(v, ok). v = u \<and> ok) (fst (allow_run r cs))))
    \<le> max 1 (capacity r) + (t' - t) * rate r"
proof -
  have "budget r u t \<le> max 1 (capacity r)" by (auto simp: budget_def split: option.splits)
  with allow_run_budget [OF assms, of u] show ?thesis by simp
qed

theorem rate_limit_bound_witness:
  "length (filter (\<lambda>(v, ok). v = 7 \<and> ok)
     (fst (allow_run (NewRateLimiter 2 3) (replicate 50 (100, 7) @ replicate 50 (102, 7))))) \<le> 7"
proof -
  have "clock_ok (NewRateLimiter 2 3) 100" "0 \<le> rate (NewRateLimiter 2 3)"
    by (simp_all add: clock_ok_def NewRateLimiter_def)
  moreover have "sorted (map (sint \<circ> fst) (replicate 50 (100 :: int64, 7 :: int64) @ replicate 50 (102, 7)))"
    by (simp add: sorted_append map_replicate sorted_replicate)
  moreover have "\<forall>c \<in> set (replicate 50 (100 :: int64, 7 :: int64) @ replicate 50 (102, 7)).
      100 \<le> sint (fst c) \<and> sint (fst c) \<le> 102"
    by simp
  ultimately have "int (length (filter (\<lambda>(v, ok). v = 7 \<and> ok)
     (fst (allow_run (NewRateLimiter 2 3) (replicate 50 (100, 7) @ replicate 50 (102, 7)))))) \<le> 7"
    using rate_limit_bound [of "NewRateLimiter 2 3" 100 "replicate 50 (100, 7) @ replicate 50 (102, 7)" 102 7]
    by (simp add: NewRateLimiter_def)
  then show ?thesis by linarith
qed

text \<open>\<open>solvent\<close>: the rate and the capacity allow at least one message, and no bucket is overdrawn.\<close>

definition solvent :: "RateLimiter \<Rightarrow> bool" where
  "solvent r \<longleftrightarrow> 1 \<le> rate r \<and> 1 \<le> capacity r \<and> (\<forall>u b. users r u = Some b \<longrightarrow> 0 \<le> tokens b)"

lemma Allow_solvent:
  assumes "solvent r" and "clock_ok r (sint now)"
  shows "solvent (snd (Allow now r u))"
proof -
  have "0 \<le> sint (now - lastUpdate b) * rate r" if "users r u = Some b" for b
    using assms that elapsed_exact [of "lastUpdate b" now] by (auto simp: clock_ok_def solvent_def)
  then show ?thesis
    using assms(1) by (fastforce simp: Allow_def solvent_def Let_def split: option.splits if_splits)
qed

lemma allow_run_solvent:
  assumes "solvent r" and "clock_ok r t" and "sorted (map (sint \<circ> fst) cs)"
    and "\<forall>c \<in> set cs. t \<le> sint (fst c) \<and> sint (fst c) \<le> t'" and "t \<le> t'" and "t' < 2 ^ 62"
  shows "solvent (snd (allow_run r cs)) \<and> clock_ok (snd (allow_run r cs)) t'"
  using assms
proof (induction cs arbitrary: r t)
  case Nil
  then show ?case by (force simp: clock_ok_def)
next
  case (Cons c cs)
  obtain now v where c: "c = (now, v)" by (cases c)
  obtain ok r' where a: "Allow now r v = (ok, r')" by fastforce
  have ck: "clock_ok r (sint now)" using Cons.prems c by (force simp: clock_ok_def)
  have "0 \<le> rate r" using Cons.prems(1) by (simp add: solvent_def)
  from Allow_budget(2) [OF ck this a] Allow_solvent [OF Cons.prems(1) ck, of v]
  have "solvent r'" "clock_ok r' (sint now)" by (simp_all add: a)
  with Cons show ?case by (simp add: c a case_prod_unfold)
qed

text \<open>
  C40: the limit lets go. With a positive rate and a capacity of at least one, after any calls of a clock
  that never runs backwards, at any second later than all of them every user is allowed a message.
\<close>

theorem rate_limit_recovers:
  assumes "1 \<le> r" and "1 \<le> cap" and "sorted (map (sint \<circ> fst) cs)"
    and "\<forall>c \<in> set cs. 0 \<le> sint (fst c) \<and> sint (fst c) < sint now" and "0 < sint now" and "sint now < 2 ^ 62"
  shows "fst (Allow now (snd (allow_run (NewRateLimiter r cap) cs)) u)"
proof -
  let ?r = "snd (allow_run (NewRateLimiter r cap) cs)"
  have "solvent (NewRateLimiter r cap)" and "clock_ok (NewRateLimiter r cap) 0"
    using assms(1,2) by (simp_all add: solvent_def clock_ok_def NewRateLimiter_def)
  then have ok: "solvent ?r \<and> clock_ok ?r (sint now - 1)"
    using assms by (intro allow_run_solvent) auto
  have "sint (now - lastUpdate b) \<ge> 1" if "users ?r u = Some b" for b
  proof -
    have "0 \<le> sint (lastUpdate b)" "sint (lastUpdate b) \<le> sint now - 1"
      using ok that by (auto simp: clock_ok_def)
    then show ?thesis by (simp add: elapsed_exact)
  qed
  then have "1 \<le> sint (now - lastUpdate b) * rate ?r" if "users ?r u = Some b" for b
    using ok that mult_mono [of 1 "sint (now - lastUpdate b)" 1 "rate ?r"] by (auto simp: solvent_def)
  then show ?thesis
    using ok by (fastforce simp: Allow_def solvent_def Let_def split: option.splits)
qed

theorem rate_limit_recovers_witness:
  "fst (Allow 101 (snd (allow_run (NewRateLimiter 1 2) (replicate 9 (100, 7)))) 7)"
proof -
  have "sorted (map (sint \<circ> fst) (replicate 9 (100 :: int64, 7 :: int64)))"
    by (simp add: map_replicate sorted_replicate)
  then show ?thesis
    using rate_limit_recovers [of 1 2 "replicate 9 (100, 7)" 101 7] by simp
qed

section \<open>Connections per user\<close>

type_synonym user_conns = "int64 \<rightharpoonup> int64"

definition user_count :: "user_conns \<Rightarrow> int64 \<Rightarrow> int64" where
  "user_count m u = (case m u of None \<Rightarrow> 0 | Some n \<Rightarrow> n)"

definition addUserConn :: "int64 \<Rightarrow> user_conns \<Rightarrow> int64 \<Rightarrow> bool \<times> user_conns" where
  "addUserConn MaxConnsPerUser m userId =
    (let count = user_count m userId + 1
     in if sint count > sint MaxConnsPerUser then (False, m) else (True, m(userId \<mapsto> count)))"

definition RemoveUserConn :: "user_conns \<Rightarrow> int64 \<Rightarrow> user_conns" where
  "RemoveUserConn m userId =
    (let count = user_count m userId - 1
     in if sint count > 0 then m(userId \<mapsto> count) else m(userId := None))"

text \<open>The specification: a number per user, at most the limit.\<close>

datatype user_op = AddUser int64 | RemoveUser int64

fun user_spec_step :: "nat \<Rightarrow> (int64 \<Rightarrow> nat) \<Rightarrow> user_op \<Rightarrow> (int64 \<Rightarrow> nat)" where
  "user_spec_step limit f (AddUser u) = (if f u < limit then f(u := Suc (f u)) else f)"
| "user_spec_step limit f (RemoveUser u) = f(u := f u - 1)"

fun user_step :: "int64 \<Rightarrow> user_conns \<Rightarrow> user_op \<Rightarrow> user_conns" where
  "user_step maxc m (AddUser u) = snd (addUserConn maxc m u)"
| "user_step maxc m (RemoveUser u) = RemoveUserConn m u"

text \<open>\<open>counts limit m f\<close>: the map holds the positive numbers, and no entry for zero.\<close>

definition counts :: "nat \<Rightarrow> user_conns \<Rightarrow> (int64 \<Rightarrow> nat) \<Rightarrow> bool" where
  "counts limit m f \<longleftrightarrow>
     (\<forall>u. m u = (if f u = 0 then None else Some (of_nat (f u)))) \<and> (\<forall>u. f u \<le> limit)"

lemma counts_user_count: "counts limit m f \<Longrightarrow> user_count m u = of_nat (f u)"
  by (simp add: counts_def user_count_def)

lemma sint_count: "k < 2 ^ 63 \<Longrightarrow> sint (of_nat k :: int64) = int k"
  by (rule sint_of_nat_small) simp

lemma addUserConn_spec:
  assumes "counts limit m f" and "sint maxc = int limit" and "limit < 2 ^ 62"
  shows "fst (addUserConn maxc m u) \<longleftrightarrow> f u < limit"
    and "counts limit (snd (addUserConn maxc m u)) (user_spec_step limit f (AddUser u))"
proof -
  have le: "f u \<le> limit" using assms(1) by (simp add: counts_def)
  have c: "user_count m u + 1 = of_nat (Suc (f u))" using counts_user_count [OF assms(1)] by simp
  have s: "sint (of_nat (Suc (f u)) :: int64) = int (Suc (f u))" using le assms(3) by (intro sint_count) simp
  show "fst (addUserConn maxc m u) \<longleftrightarrow> f u < limit"
    unfolding addUserConn_def Let_def c s assms(2) by auto
  show "counts limit (snd (addUserConn maxc m u)) (user_spec_step limit f (AddUser u))"
    unfolding addUserConn_def Let_def c s assms(2) using assms(1) by (auto simp: counts_def)
qed

lemma RemoveUserConn_spec:
  assumes "counts limit m f" and "limit < 2 ^ 62"
  shows "counts limit (RemoveUserConn m u) (user_spec_step limit f (RemoveUser u))"
proof (cases "f u")
  case 0
  then have "user_count m u - 1 = - 1" "m u = None"
    using counts_user_count [OF assms(1), of u] assms(1) by (simp_all add: counts_def)
  then show ?thesis using assms(1) 0 by (auto simp: RemoveUserConn_def counts_def)
next
  case (Suc k)
  have le: "k \<le> limit" using assms(1) Suc by (metis Suc_leD counts_def)
  have c: "user_count m u - 1 = of_nat k" using counts_user_count [OF assms(1), of u] Suc by simp
  have s: "sint (of_nat k :: int64) = int k" using le assms(2) by (intro sint_count) simp
  show ?thesis
    unfolding RemoveUserConn_def Let_def c s using assms(1) Suc le by (auto simp: counts_def)
qed

text \<open>
  C35: the connections per user refine a bounded count. After any sequence of joins and leaves the map
  holds, for every user, the number the specification counts (no entry for zero), which never
  exceeds the configured limit, and a join is admitted exactly below the limit.
\<close>

theorem user_conns_refine:
  assumes "sint maxc = int limit" and "limit < 2 ^ 62"
  shows "(let m = foldl (user_step maxc) Map.empty ops; f = foldl (user_spec_step limit) (\<lambda>_. 0) ops
     in (\<forall>u. m u = (if f u = 0 then None else Some (of_nat (f u)))) \<and> (\<forall>u. f u \<le> limit) \<and>
        (\<forall>u. fst (addUserConn maxc m u) \<longleftrightarrow> f u < limit))"
proof -
  have "counts limit (foldl (user_step maxc) Map.empty ops) (foldl (user_spec_step limit) (\<lambda>_. 0) ops)"
  proof (induction ops rule: rev_induct)
    case Nil
    then show ?case by (simp add: counts_def)
  next
    case (snoc x xs)
    then show ?case
      using addUserConn_spec(2) [OF _ assms] RemoveUserConn_spec [OF _ assms(2)]
      by (cases x) (simp_all del: user_spec_step.simps)
  qed
  with addUserConn_spec(1) [OF this assms] show ?thesis by (simp add: counts_def Let_def)
qed

theorem user_conns_refine_witness:
  "fst (addUserConn 2 (foldl (user_step 2) Map.empty [AddUser 7, AddUser 7, RemoveUser 7]) 7)"
  using user_conns_refine [of 2 2 "[AddUser 7, AddUser 7, RemoveUser 7]"] by (simp add: Let_def)

end
