(* ===== verification/App_Core.thy ===== *)
theory App_Core
  imports Loop_Routing Broadcaster Kafka_Producer Kafka_Consumer Text_Filter Admission
begin

text \<open>
  \<open>internal/config/config.go\<close> and \<open>internal/app/app.go\<close>: the application object and its handlers of
  inbound messages, its kicks, system messages and heartbeat check.

  A \<open>node\<close> is the application with what it shares with the network side: the contexts of the
  connections, the counters and the connection sequence. A handler takes an \<open>env\<close>, the answers of
  the world it asks (clock readings, gnet, Kafka), and gives the effects it causes, in order, and the
  node after. The lines of the code that only log are not modelled.
\<close>

section \<open>Configuration\<close>

record Config =
  ListenAddr :: string
  WorkerPoolSize :: int
  SensitiveWordsPath :: string
  SensitiveWordsReloadInterval :: int
  EnableKafka :: bool
  KafkaBrokers :: "string list"
  KafkaTopic :: string
  KafkaGroupID :: string
  AuthToken :: string
  BannedUsers :: "int64 list"
  RegistryType :: string
  RegistryAddr :: string
  NodeId :: string
  ServiceName :: string
  MetricsAddr :: string
  MaxConns :: int64
  MaxConnsPerUser :: int64
  MsgRatePerUser :: int
  MsgBurstCapacity :: int

text \<open>\<open>Load\<close>: the host name, the random suffix, the process id and the number of CPUs are its inputs.\<close>

definition Load :: "string \<Rightarrow> int64 \<Rightarrow> int \<Rightarrow> int \<Rightarrow> Config" where
  "Load hostname randSuffix pid numCPU =
    \<lparr>ListenAddr = ''tcp://0.0.0.0:9000'',
     WorkerPoolSize = (if numCPU * 4 > 2048 then 2048 else numCPU * 4),
     SensitiveWordsPath = ''configs/sensitive_words.txt'',
     SensitiveWordsReloadInterval = 2 * 1000000000,
     EnableKafka = False, KafkaBrokers = [''127.0.0.1:9092''],
     KafkaTopic = ''barrage-broadcast'',
     KafkaGroupID = ''barrage-'' @ hostname @ ''-'' @ FormatInt (sint randSuffix),
     AuthToken = '''', BannedUsers = [],
     RegistryType = ''consul'', RegistryAddr = '''',
     NodeId = ''barrage-'' @ hostname @ ''-'' @ FormatInt pid, ServiceName = ''barrage'',
     MetricsAddr = '':9090'', MaxConns = 100000, MaxConnsPerUser = 3,
     MsgRatePerUser = 10, MsgBurstCapacity = 20\<rparr>"

section \<open>Texts of the program\<close>

definition utf8 :: "nat list \<Rightarrow> string" where
  "utf8 bs = map char_of bs"

definition msg_bad_token :: string where
  "msg_bad_token =
    utf8 [233, 137, 180, 230, 157, 131, 229, 164, 177, 232, 180, 165, 58, 32, 230, 151,
      160, 230, 149, 136, 231, 154, 132, 32, 116, 111, 107, 101, 110]"

definition msg_bad_user :: string where
  "msg_bad_user =
    utf8 [229, 135, 134, 229, 133, 165, 229, 164, 177, 232, 180, 165, 58, 32, 230, 151,
      160, 230, 149, 136, 231, 154, 132, 231, 148, 168, 230, 136, 183, 32, 73, 68]"

definition msg_banned :: string where
  "msg_banned =
    utf8 [229, 135, 134, 229, 133, 165, 229, 164, 177, 232, 180, 165, 58, 32, 232, 175,
      165, 231, 148, 168, 230, 136, 183, 229, 183, 178, 232, 162, 171, 229, 176, 129,
      231, 166, 129]"

definition msg_no_room :: string where
  "msg_no_room =
    utf8 [229, 135, 134, 229, 133, 165, 229, 164, 177, 232, 180, 165, 58, 32, 230, 136,
      191, 233, 151, 180, 228, 184, 141, 229, 173, 152, 229, 156, 168, 230, 136, 150,
      229, 183, 178, 229, 133, 179, 233, 151, 173]"

definition msg_too_many_conns :: string where
  "msg_too_many_conns =
    utf8 [232, 175, 165, 232, 180, 166, 229, 143, 183, 232, 191, 158, 230, 142, 165,
      230, 149, 176, 232, 191, 135, 229, 164, 154, 239, 188, 140, 232, 175, 183, 231,
      168, 141, 229, 144, 142, 233, 135, 141, 232, 175, 149]"

definition msg_too_fast :: string where
  "msg_too_fast =
    utf8 [229, 143, 145, 233, 128, 129, 233, 162, 145, 231, 142, 135, 232, 191, 135,
      229, 191, 171, 239, 188, 140, 232, 175, 183, 231, 168, 141, 229, 144, 142, 233,
      135, 141, 232, 175, 149]"

definition msg_sensitive :: string where
  "msg_sensitive =
    utf8 [230, 182, 136, 230, 129, 175, 229, 140, 133, 229, 144, 171, 230, 149, 143,
      230, 132, 159, 232, 175, 141, 239, 188, 140, 229, 143, 145, 233, 128, 129, 229,
      164, 177, 232, 180, 165]"

definition defaultSensitiveWords :: "string list" where
  "defaultSensitiveWords =
    [utf8 [229, 130, 187, 233, 128, 188], utf8 [228, 187, 150, 229, 166, 136, 231, 154,
      132], utf8 [229, 158, 131, 229, 156, 190]]"

section \<open>The application and its surroundings\<close>

text \<open>
  The broadcaster of the code points to the room manager of the application; the model keeps whether
  there is one and hands it the manager. \<open>AllConns\<close> lists the entries of the \<open>sync.Map\<close> in the order a
  \<open>Range\<close> visits them.
\<close>

record app =
  Cfg :: Config
  LoopSt :: loop_state
  TextFilter :: "ReloadableFilter option"
  LoopCount :: int
  RoomManager :: Manager
  hasBroadcaster :: bool
  AppProducer :: "Producer option"
  AppConsumer :: "Consumer option"
  AllConns :: "(string \<times> conn) list"
  CurrConnCount :: int64
  userConnCount :: user_conns
  AppLimiter :: "RateLimiter option"

record node =
  napp :: app
  nctx :: contexts
  nmet :: metrics
  connSeq :: uint64

record env =
  now_unix :: int64
  frame_ms :: int64
  envelope_ms :: int64
  now_nano :: int64
  EventLoopOf :: "conn \<Rightarrow> event_loop option"
  Outbound :: "conn \<Rightarrow> int"
  KafkaAnswer :: "nat \<Rightarrow> string option"
  ExecuteAnswer :: "event_loop \<Rightarrow> string option"

text \<open>The closures the application posts to event loops.\<close>

datatype loop_task = KickTask conn string | GlobalMsgTask conn bytes

datatype effect = Net net_action | Kafka mq_effect | Post event_loop loop_task

text \<open>
  \<open>New\<close>, up to the registry. \<open>pool_ok\<close> is the answer of the worker pool library, \<open>stat\<close> and \<open>file\<close> those
  of the file system to \<open>LoadNow\<close>.
\<close>

datatype new_result = NewPanic | NewError | NewApp app

definition New :: "int \<Rightarrow> bool \<Rightarrow> fs_error + FileInfo \<Rightarrow> opened \<Rightarrow> Config \<Rightarrow> new_result" where
  "New numCPU pool_ok stat file cfg =
    (let loopCount = (if numCPU \<le> 0 then 1 else numCPU)
     in if \<not> pool_ok then NewError
        else case NewManager loopCount of
          None \<Rightarrow> NewPanic
        | Some roomManager \<Rightarrow>
          let rf = NewReloadableFilter (SensitiveWordsPath cfg) defaultSensitiveWords;
              rf = (if SensitiveWordsPath cfg \<noteq> '''' then snd (LoadNow stat file rf) else rf);
              kafka = EnableKafka cfg \<and> 0 < length (KafkaBrokers cfg) \<and> KafkaTopic cfg \<noteq> ''''
          in NewApp
            \<lparr>Cfg = cfg,
             LoopSt = \<lparr>lrReg = Some NewLoopRegistry, lrDisp = Some NewLoopDispatcher\<rparr>,
             TextFilter = Some rf, LoopCount = loopCount, RoomManager = roomManager,
             hasBroadcaster = True,
             AppProducer = (if kafka then Some (NewProducer (KafkaTopic cfg)) else None),
             AppConsumer = (if kafka then Some (NewConsumer True) else None),
             AllConns = [], CurrConnCount = 0, userConnCount = Map.empty,
             AppLimiter = Some (NewRateLimiter (MsgRatePerUser cfg) (MsgBurstCapacity cfg))\<rparr>)"

section \<open>Answering a client\<close>

definition isUserBanned :: "app \<Rightarrow> int64 \<Rightarrow> bool" where
  "isUserBanned a userID = (userID \<in> set (BannedUsers (Cfg a)))"

definition error_frame :: "env \<Rightarrow> codec \<Rightarrow> int64 \<Rightarrow> int64 \<Rightarrow> int32 \<Rightarrow> string \<Rightarrow> bytes" where
  "error_frame env cdc roomID userID code message =
    (let errPayload = fst (Marshal_ErrorMsg cdc \<lparr>err_Code = code, err_Message = message\<rparr>);
         errorFrame = \<lparr>f_Op = OpType_OP_ERROR, f_RoomId = roomID, f_UserId = userID,
                       f_Payload = errPayload, f_Timestamp = frame_ms env\<rparr>
     in fst (Marshal_Frame cdc errorFrame))"

definition sendError :: "env \<Rightarrow> codec \<Rightarrow> conn \<Rightarrow> ConnContext \<Rightarrow> int32 \<Rightarrow> string \<Rightarrow> effect list" where
  "sendError env cdc c ctx code message =
    [Net (AsyncWrite c (BuildBinaryFrame (error_frame env cdc (RoomID ctx) (UserID ctx) code message)))]"

section \<open>Inbound messages\<close>

definition handleJoinRoom :: "env \<Rightarrow> codec \<Rightarrow> conn \<Rightarrow> ConnContext \<Rightarrow> Frame \<Rightarrow> node \<Rightarrow> effect list \<times> node" where
  "handleJoinRoom env cdc c ctx frame n =
    (case Unmarshal_JoinRoomReq cdc (f_Payload frame) of
       None \<Rightarrow> ([], n)
     | Some req \<Rightarrow>
       let a = napp n
       in if AuthToken (Cfg a) \<noteq> '''' \<and> join_Token req \<noteq> AuthToken (Cfg a) then
            (sendError env cdc c ctx 401 msg_bad_token, n)
          else if sint (join_UserId req) \<le> 0 then (sendError env cdc c ctx 403 msg_bad_user, n)
          else if isUserBanned a (join_UserId req) then (sendError env cdc c ctx 403 msg_banned, n)
          else if sint (join_RoomId req) \<le> 0 then (sendError env cdc c ctx 404 msg_no_room, n)
          else case addUserConn (MaxConnsPerUser (Cfg a)) (userConnCount a) (join_UserId req) of
            (False, uc) \<Rightarrow> (sendError env cdc c ctx 429 msg_too_many_conns, n)
          | (True, uc) \<Rightarrow>
            (case ResolveLoopIdx (EventLoopOf env) (Some c) (LoopSt a) of
               (loopIdx, ls) \<Rightarrow>
                 let ctx' = ctx\<lparr>UserID := join_UserId req, RoomID := join_RoomId req,
                                IsPremium := join_IsPremium req, LoopIdx := loopIdx\<rparr>;
                     rooms = AddConnInLoop (RoomManager a) (RoomID ctx') (LoopIdx ctx') (ConnID ctx') (Some c)
                 in ([], n\<lparr>napp := a\<lparr>userConnCount := uc, LoopSt := ls, RoomManager := rooms\<rparr>,
                           nctx := (nctx n)(c \<mapsto> ctx')\<rparr>)))"

definition chat_envelope :: "env \<Rightarrow> ConnContext \<Rightarrow> bytes \<Rightarrow> BroadcastEnvelope" where
  "chat_envelope env ctx data =
    \<lparr>e_MsgType = 0, e_IdempotencyKey = '''', e_RoomId = RoomID ctx, e_UserId = UserID ctx,
     e_SenderConnId = ConnID ctx, e_IsPremium = IsPremium ctx, e_Payload = data,
     e_Timestamp = envelope_ms env, e_VideoTs = 0\<rparr>"

definition chat_frame :: "env \<Rightarrow> ConnContext \<Rightarrow> bytes \<Rightarrow> Frame" where
  "chat_frame env ctx payload =
    \<lparr>f_Op = OpType_OP_BROADCAST, f_RoomId = RoomID ctx, f_UserId = UserID ctx,
     f_Payload = payload, f_Timestamp = frame_ms env\<rparr>"

text \<open>Local fan-out of an envelope: the end of \<open>handleChat\<close> and of \<open>BroadcastSystemMsg\<close>.\<close>

definition broadcast_here :: "env \<Rightarrow> BroadcastEnvelope \<Rightarrow> node \<Rightarrow> effect list \<times> node" where
  "broadcast_here env e n =
    (if HasLocalRoom (RoomManager (napp n)) (e_RoomId e) \<and> hasBroadcaster (napp n) then
       case BroadcastLocal (nctx n) (Outbound env) (Some \<lparr>Rooms = Some (RoomManager (napp n))\<rparr>) (Some e) (nmet n) of
         (acts, mt) \<Rightarrow> (map Net acts, n\<lparr>nmet := mt\<rparr>)
     else ([], n))"

definition handleChat :: "env \<Rightarrow> codec \<Rightarrow> conn \<Rightarrow> ConnContext \<Rightarrow> Frame \<Rightarrow> node \<Rightarrow> effect list \<times> node" where
  "handleChat env cdc c ctx frame n =
    (if sint (RoomID ctx) \<le> 0 \<or> sint (UserID ctx) \<le> 0 then ([], n)
     else
       let a = napp n;
           (ok, lim) = (case AppLimiter a of
                          None \<Rightarrow> (True, None)
                        | Some l \<Rightarrow> (case Allow (now_unix env) l (UserID ctx) of (ok, l') \<Rightarrow> (ok, Some l')));
           n = n\<lparr>napp := a\<lparr>AppLimiter := lim\<rparr>\<rparr>
       in if \<not> ok then
            (sendError env cdc c ctx 429 msg_too_fast,
             n\<lparr>nmet := (nmet n)\<lparr>RateLimitRejectCount := RateLimitRejectCount (nmet n) + 1\<rparr>\<rparr>)
          else case Unmarshal_ChatMsg cdc (f_Payload frame) of
            None \<Rightarrow> ([], n)
          | Some msg \<Rightarrow>
            if TextFilter a \<noteq> None \<and> Hit (reloadable_Check (TextFilter a) (chat_Content msg)) then
              (sendError env cdc c ctx 400 msg_sensitive,
               n\<lparr>nmet := (nmet n)\<lparr>FilterRejectCount := FilterRejectCount (nmet n) + 1\<rparr>\<rparr>)
            else case Marshal_Frame cdc (chat_frame env ctx (f_Payload frame)) of
              (data, Some err) \<Rightarrow> ([], n)
            | (data, None) \<Rightarrow>
              let envelope = chat_envelope env ctx data
              in case AppProducer a of
                   Some p \<Rightarrow>
                     (case Publish cdc (KafkaAnswer env) (now_nano env) (Some p) (Some envelope) of
                        (None, tr) \<Rightarrow> (map Kafka tr, n)
                      | (Some err, tr) \<Rightarrow>
                          (map Kafka tr,
                           n\<lparr>nmet := (nmet n)\<lparr>KafkaPublishErrCount := KafkaPublishErrCount (nmet n) + 1\<rparr>\<rparr>))
                 | None \<Rightarrow> broadcast_here env envelope n)"

text \<open>A heartbeat only logs: the activity time was refreshed when its bytes arrived.\<close>

definition handleHeartbeat :: "codec \<Rightarrow> Frame \<Rightarrow> node \<Rightarrow> effect list \<times> node" where
  "handleHeartbeat cdc frame n =
    (case Unmarshal_Heartbeat cdc (f_Payload frame) of None \<Rightarrow> ([], n) | Some heartbeat \<Rightarrow> ([], n))"

definition HandleInbound :: "env \<Rightarrow> codec \<Rightarrow> InboundTask option \<Rightarrow> node \<Rightarrow> effect list \<times> node" where
  "HandleInbound env cdc task n =
    (case task of
       None \<Rightarrow> ([], n)
     | Some t \<Rightarrow>
       (case nctx n (task_Conn t) of
          None \<Rightarrow> ([], n)
        | Some ctx \<Rightarrow>
          if length (task_Data t) = 0 \<or> length (task_Data t) > 64 * 1024 then ([], n)
          else case Unmarshal_Frame cdc (task_Data t) of
            None \<Rightarrow> ([], n)
          | Some frame \<Rightarrow>
            if f_Op frame = OpType_OP_JOIN_ROOM then handleJoinRoom env cdc (task_Conn t) ctx frame n
            else if f_Op frame = OpType_OP_CHAT then handleChat env cdc (task_Conn t) ctx frame n
            else if f_Op frame = OpType_OP_HEARTBEAT then handleHeartbeat cdc frame n
            else ([], n)))"

section \<open>Kicking, system messages, heartbeats\<close>

definition post ::
  "env \<Rightarrow> int \<Rightarrow> loop_task \<Rightarrow> node \<Rightarrow> effect list \<times> node" where
  "post env loopIdx t n =
    (let a = napp n
     in case Dispatch (ExecuteAnswer env) loopIdx (Some t) (lrDisp (LoopSt a)) of
          (err, d, handed) \<Rightarrow>
            (map (\<lambda>(l, u). Post l u) handed, n\<lparr>napp := a\<lparr>LoopSt := (LoopSt a)\<lparr>lrDisp := d\<rparr>\<rparr>\<rparr>))"

definition KickConn :: "env \<Rightarrow> string \<Rightarrow> string \<Rightarrow> node \<Rightarrow> effect list \<times> node" where
  "KickConn env connID reason n =
    (case map_of (AllConns (napp n)) connID of
       None \<Rightarrow> ([], n)
     | Some c \<Rightarrow>
       (case nctx n c of
          None \<Rightarrow> ([], n)
        | Some cCtx \<Rightarrow> post env (LoopIdx cCtx) (KickTask c reason) n))"

text \<open>A \<open>Range\<close> over the entries of \<open>AllConns\<close>, with the effects in order.\<close>

fun range_conns ::
  "(conn \<Rightarrow> node \<Rightarrow> effect list \<times> node) \<Rightarrow> (string \<times> conn) list \<Rightarrow> node \<Rightarrow> effect list \<times> node" where
  "range_conns f [] n = ([], n)"
| "range_conns f ((k, c) # rest) n =
    (case f c n of (es, n') \<Rightarrow> (case range_conns f rest n' of (es', n'') \<Rightarrow> (es @ es', n'')))"

definition KickUser :: "env \<Rightarrow> int64 \<Rightarrow> string \<Rightarrow> node \<Rightarrow> effect list \<times> node" where
  "KickUser env userID reason n =
    (if sint userID \<le> 0 then ([], n)
     else range_conns
       (\<lambda>c n. case nctx n c of
                None \<Rightarrow> ([], n)
              | Some cCtx \<Rightarrow> if UserID cCtx \<noteq> userID then ([], n)
                             else KickConn env (ConnID cCtx) reason n)
       (AllConns (napp n)) n)"

definition BroadcastSystemMsg ::
  "env \<Rightarrow> codec \<Rightarrow> int64 \<Rightarrow> string \<Rightarrow> int32 \<Rightarrow> node \<Rightarrow> effect list \<times> node" where
  "BroadcastSystemMsg env cdc roomID content msgType n =
    (if sint roomID \<le> 0 then ([], n)
     else
       let payload = fst (Marshal_SystemMsg cdc \<lparr>sys_Content = content, sys_Type = msgType\<rparr>);
           outFrame = \<lparr>f_Op = OpType_OP_SYSTEM, f_RoomId = roomID, f_UserId = 0,
                       f_Payload = payload, f_Timestamp = frame_ms env\<rparr>;
           data = fst (Marshal_Frame cdc outFrame);
           envelope = \<lparr>e_MsgType = 0, e_IdempotencyKey = '''', e_RoomId = roomID, e_UserId = 0,
                       e_SenderConnId = ''SYSTEM'', e_IsPremium = True, e_Payload = data,
                       e_Timestamp = envelope_ms env, e_VideoTs = 0\<rparr>
       in case AppProducer (napp n) of
            None \<Rightarrow> broadcast_here env envelope n
          | Some p \<Rightarrow>
            (case Publish cdc (KafkaAnswer env) (now_nano env) (Some p) (Some envelope) of
               (None, tr) \<Rightarrow> (map Kafka tr, n)
             | (Some err, tr) \<Rightarrow>
                 (let n = n\<lparr>nmet := (nmet n)\<lparr>KafkaPublishErrCount := KafkaPublishErrCount (nmet n) + 1\<rparr>\<rparr>
                  in case broadcast_here env envelope n of (es, n') \<Rightarrow> (map Kafka tr @ es, n'))))"

definition BroadcastGlobalSystemMsg ::
  "env \<Rightarrow> codec \<Rightarrow> string \<Rightarrow> int32 \<Rightarrow> node \<Rightarrow> effect list \<times> node" where
  "BroadcastGlobalSystemMsg env cdc content msgType n =
    (let payload = fst (Marshal_SystemMsg cdc \<lparr>sys_Content = content, sys_Type = msgType\<rparr>)
     in range_conns
       (\<lambda>c n. case nctx n c of
                None \<Rightarrow> ([], n)
              | Some cCtx \<Rightarrow> post env (LoopIdx cCtx) (GlobalMsgTask c payload) n)
       (AllConns (napp n)) n)"

text \<open>
  A posted task when its event loop runs it; it reads the context then. The close after a kick is the
  callback of the write.
\<close>

definition kick_closure :: "env \<Rightarrow> codec \<Rightarrow> conn \<Rightarrow> string \<Rightarrow> node \<Rightarrow> net_action list" where
  "kick_closure env cdc c reason n =
    (case nctx n c of
       None \<Rightarrow> []
     | Some cCtx \<Rightarrow>
       [AsyncWrite c (BuildBinaryFrame (error_frame env cdc (RoomID cCtx) (UserID cCtx) 403 reason)),
        CloseConn c])"

definition global_closure :: "env \<Rightarrow> codec \<Rightarrow> conn \<Rightarrow> bytes \<Rightarrow> node \<Rightarrow> net_action list" where
  "global_closure env cdc c payload n =
    (case nctx n c of
       None \<Rightarrow> []
     | Some cCtx \<Rightarrow>
       let outFrame = \<lparr>f_Op = OpType_OP_SYSTEM, f_RoomId = RoomID cCtx, f_UserId = 0,
                       f_Payload = payload, f_Timestamp = frame_ms env\<rparr>
       in [AsyncWrite c (BuildBinaryFrame (fst (Marshal_Frame cdc outFrame)))])"

definition run_loop_task :: "env \<Rightarrow> codec \<Rightarrow> loop_task \<Rightarrow> node \<Rightarrow> net_action list" where
  "run_loop_task env cdc t n =
    (case t of
       KickTask c reason \<Rightarrow> kick_closure env cdc c reason n
     | GlobalMsgTask c payload \<Rightarrow> global_closure env cdc c payload n)"

text \<open>One tick of \<open>StartHeartbeatCheck\<close>.\<close>

definition heartbeat_tick :: "int64 \<Rightarrow> node \<Rightarrow> effect list \<times> node" where
  "heartbeat_tick now n =
    range_conns
      (\<lambda>c n. case nctx n c of
               None \<Rightarrow> ([], n)
             | Some cCtx \<Rightarrow>
               if sint (now - LastActiveTime cCtx) > 90 then
                 ([Net (CloseConn c)],
                  n\<lparr>napp := (napp n)\<lparr>AllConns := AList.delete (ConnID cCtx) (AllConns (napp n))\<rparr>\<rparr>)
               else ([], n))
      (AllConns (napp n)) n"

text \<open>\<open>StartTextFilterReload\<close>: the ticks of the filter's reload, when the application has one.\<close>

definition StartTextFilterReload :: "disk_view list \<Rightarrow> node \<Rightarrow> node" where
  "StartTextFilterReload ticks n =
    (case TextFilter (napp n) of
       None \<Rightarrow> n
     | Some rf \<Rightarrow>
       n\<lparr>napp := (napp n)\<lparr>TextFilter :=
           Some (StartAutoReload (SensitiveWordsReloadInterval (Cfg (napp n))) ticks rf)\<rparr>\<rparr>)"

section \<open>Reading effects\<close>

fun nets :: "effect list \<Rightarrow> net_action list" where
  "nets [] = []"
| "nets (Net a # es) = a # nets es"
| "nets (Kafka m # es) = nets es"
| "nets (Post l t # es) = nets es"

fun posts :: "effect list \<Rightarrow> (event_loop \<times> loop_task) list" where
  "posts [] = []"
| "posts (Post l t # es) = (l, t) # posts es"
| "posts (Net a # es) = posts es"
| "posts (Kafka m # es) = posts es"

lemma nets_append [simp]: "nets (es @ fs) = nets es @ nets fs"
  by (induction es rule: nets.induct) auto

lemma posts_append [simp]: "posts (es @ fs) = posts es @ posts fs"
  by (induction es rule: posts.induct) auto

lemma nets_map_Net [simp]: "nets (map Net as) = as"
  by (induction as) auto

lemma nets_map_Kafka [simp]: "nets (map Kafka tr) = []"
  by (induction tr) auto

lemma posts_map [simp]:
  "posts (map Net as) = []" "posts (map Kafka tr) = []" "posts (map (\<lambda>(l, u). Post l u) ps) = ps"
  by (induction as, auto) (induction tr, auto, induction ps, auto)

lemma nets_map_Post [simp]: "nets (map (\<lambda>(l, u). Post l u) ps) = []"
  by (induction ps) auto

section \<open>Joining a room\<close>

text \<open>The admission rules, in the order the code tries them: the error code of the first that fails.\<close>

definition join_refusal :: "app \<Rightarrow> JoinRoomReq \<Rightarrow> (int32 \<times> string) option" where
  "join_refusal a req =
    (if AuthToken (Cfg a) \<noteq> '''' \<and> join_Token req \<noteq> AuthToken (Cfg a) then Some (401, msg_bad_token)
     else if sint (join_UserId req) \<le> 0 then Some (403, msg_bad_user)
     else if join_UserId req \<in> set (BannedUsers (Cfg a)) then Some (403, msg_banned)
     else if sint (join_RoomId req) \<le> 0 then Some (404, msg_no_room)
     else if \<not> fst (addUserConn (MaxConnsPerUser (Cfg a)) (userConnCount a) (join_UserId req))
     then Some (429, msg_too_many_conns)
     else None)"

definition join_node :: "env \<Rightarrow> conn \<Rightarrow> ConnContext \<Rightarrow> JoinRoomReq \<Rightarrow> node \<Rightarrow> node" where
  "join_node env c ctx req n =
    (let a = napp n; (loopIdx, ls) = ResolveLoopIdx (EventLoopOf env) (Some c) (LoopSt a)
     in n\<lparr>napp := a\<lparr>userConnCount := snd (addUserConn (MaxConnsPerUser (Cfg a)) (userConnCount a) (join_UserId req)),
                   LoopSt := ls,
                   RoomManager := AddConnInLoop (RoomManager a) (join_RoomId req) loopIdx (ConnID ctx) (Some c)\<rparr>,
          nctx := (nctx n)(c \<mapsto> ctx\<lparr>UserID := join_UserId req, RoomID := join_RoomId req,
                                  IsPremium := join_IsPremium req, LoopIdx := loopIdx\<rparr>)\<rparr>)"

lemma handleJoinRoom_eq:
  assumes "Unmarshal_JoinRoomReq cdc (f_Payload frame) = Some req"
  shows "handleJoinRoom env cdc c ctx frame n =
    (case join_refusal (napp n) req of
       Some (code, text) \<Rightarrow> (sendError env cdc c ctx code text, n)
     | None \<Rightarrow> ([], join_node env c ctx req n))"
  using assms
  by (auto simp: handleJoinRoom_def join_refusal_def join_node_def isUserBanned_def Let_def
      split: prod.splits bool.splits)

lemma HandleInbound_join:
  assumes "nctx n (task_Conn t) = Some ctx" and "0 < length (task_Data t)" "length (task_Data t) \<le> 64 * 1024"
    and "Unmarshal_Frame cdc (task_Data t) = Some frame" and "f_Op frame = OpType_OP_JOIN_ROOM"
  shows "HandleInbound env cdc (Some t) n = handleJoinRoom env cdc (task_Conn t) ctx frame n"
  using assms by (simp add: HandleInbound_def)

text \<open>
  C14: admission to a room. A join request is admitted exactly when its token is the configured one (if
  any), its user id is positive and not banned, its room id is positive and the user is below the
  connection limit. If so it makes the connection a member of that room on the logical loop of its
  event loop, leaves every other membership alone, records user, room and loop in the context and
  counts the connection; if not it answers one error frame and changes nothing.
\<close>

theorem join_admission:
  assumes "nctx n c = Some ctx" and "0 < length data" "length data \<le> 64 * 1024"
    and "Unmarshal_Frame cdc data = Some frame" and "f_Op frame = OpType_OP_JOIN_ROOM"
    and "Unmarshal_JoinRoomReq cdc (f_Payload frame) = Some req"
    and "wf_manager (RoomManager (napp n))" and "in_order (EventLoopOf env) (LoopSt (napp n))"
    and "finite (ran (EventLoopOf env))" "card (ran (EventLoopOf env)) \<le> loopCount (RoomManager (napp n))"
    and "EventLoopOf env c = Some l" and "ConnID ctx \<noteq> ''''"
  shows "(case HandleInbound env cdc (Some \<lparr>task_Conn = c, task_Data = data\<rparr>) n of (es, n') \<Rightarrow>
      (join_refusal (napp n) req = None \<longrightarrow>
        es = [] \<and>
        (\<exists>i ctx'. nctx n' = (nctx n)(c \<mapsto> ctx') \<and> ConnID ctx' = ConnID ctx \<and>
          UserID ctx' = join_UserId req \<and> RoomID ctx' = join_RoomId req \<and> LoopIdx ctx' = i \<and>
          loop_index (LoopSt (napp n')) l = Some i \<and>
          members (RoomManager (napp n')) =
            (members (RoomManager (napp n)))(join_RoomId req :=
              (members (RoomManager (napp n)) (join_RoomId req))((i, ConnID ctx) \<mapsto> c)) \<and>
          user_count (userConnCount (napp n')) (join_UserId req) =
            user_count (userConnCount (napp n)) (join_UserId req) + 1)) \<and>
      (join_refusal (napp n) req \<noteq> None \<longrightarrow>
        n' = n \<and> (\<exists>code text. join_refusal (napp n) req = Some (code, text) \<and>
          es = sendError env cdc c ctx code text)))"
proof -
  let ?a = "napp n" and ?E = "EventLoopOf env"
  have h: "HandleInbound env cdc (Some \<lparr>task_Conn = c, task_Data = data\<rparr>) n =
      handleJoinRoom env cdc c ctx frame n"
    using HandleInbound_join [of n "\<lparr>task_Conn = c, task_Data = data\<rparr>"] assms(1-5) by simp
  show ?thesis
  proof (cases "join_refusal ?a req")
    case (Some r)
    then show ?thesis by (cases r) (simp add: h handleJoinRoom_eq [OF assms(6)])
  next
    case None
    obtain i ls where r: "ResolveLoopIdx ?E (Some c) (LoopSt ?a) = (i, ls)" by fastforce
    have "loopCount (RoomManager ?a) \<le> 64" using assms(7) by (simp add: wf_manager_def wf_geometry_def)
    with assms(10) have small: "card (ran ?E) < 2 ^ 31" by simp
    note res = resolve_in_order [OF assms(8,9) small r]
    have idx: "loop_index ls l = Some i" using res(3) assms(11) .
    have "0 \<le> i \<and> i < int (loopCount (RoomManager ?a))"
      using in_order_index(1) [OF res(1) idx] assms(9,10) by auto
    moreover have room: "0 < sint (join_RoomId req)"
      and adm: "fst (addUserConn (MaxConnsPerUser (Cfg ?a)) (userConnCount ?a) (join_UserId req))"
      using None by (auto simp: join_refusal_def split: if_splits)
    ultimately have slot: "valid_slot (RoomManager ?a) (join_RoomId req) i (ConnID ctx)"
      using assms(12) by (simp add: valid_slot_def)
    have mem: "members (AddConnInLoop (RoomManager ?a) (join_RoomId req) i (ConnID ctx) (Some c)) =
        (members (RoomManager ?a))(join_RoomId req := (members (RoomManager ?a) (join_RoomId req))((i, ConnID ctx) \<mapsto> c))"
      using slot by (auto simp: members_Add [OF assms(7)] fun_eq_iff)
    have cnt: "user_count (snd (addUserConn (MaxConnsPerUser (Cfg ?a)) (userConnCount ?a) (join_UserId req))) (join_UserId req)
        = user_count (userConnCount ?a) (join_UserId req) + 1"
      using adm by (auto simp: addUserConn_def user_count_def Let_def split: if_splits)
    let ?ctx' = "ctx\<lparr>UserID := join_UserId req, RoomID := join_RoomId req,
        IsPremium := join_IsPremium req, LoopIdx := i\<rparr>"
    have "nctx (join_node env c ctx req n) = (nctx n)(c \<mapsto> ?ctx')"
      and "LoopSt (napp (join_node env c ctx req n)) = ls"
      and "members (RoomManager (napp (join_node env c ctx req n))) =
        (members (RoomManager ?a))(join_RoomId req := (members (RoomManager ?a) (join_RoomId req))((i, ConnID ctx) \<mapsto> c))"
      and "user_count (userConnCount (napp (join_node env c ctx req n))) (join_UserId req) =
        user_count (userConnCount ?a) (join_UserId req) + 1"
      by (simp_all add: join_node_def r Let_def mem cnt)
    then show ?thesis
      using idx None unfolding h handleJoinRoom_eq [OF assms(6)]
      by (simp only: option.case prod.case simp_thms) (intro exI [of _ i] exI [of _ ?ctx'], simp)
  qed
qed

section \<open>A fresh node\<close>

lemma New_facts:
  assumes "New numCPU ok stat file cfg = NewApp a"
  shows "wf_manager (RoomManager a)" and "small_manager (RoomManager a)" and "exact_manager (RoomManager a)"
    and "members (RoomManager a) = (\<lambda>rid k. None)" and "LoopSt a = new_loops" and "Cfg a = cfg"
    and "AllConns a = []" and "CurrConnCount a = 0" and "userConnCount a = Map.empty"
    and "int (loopCount (RoomManager a)) = max 1 numCPU" and "hasBroadcaster a" and "TextFilter a \<noteq> None"
proof -
  from assms obtain m where "NewManager (if numCPU \<le> 0 then 1 else numCPU) = Some m" and "RoomManager a = m"
    by (auto simp: New_def Let_def split: if_splits option.splits)
  with wf_NewManager [of _ m]
  show "wf_manager (RoomManager a)" "small_manager (RoomManager a)" "exact_manager (RoomManager a)"
    "members (RoomManager a) = (\<lambda>rid k. None)" "int (loopCount (RoomManager a)) = max 1 numCPU"
    by (auto split: if_splits)
  show "LoopSt a = new_loops" "Cfg a = cfg" "AllConns a = []" "CurrConnCount a = 0"
    "userConnCount a = Map.empty" "hasBroadcaster a" "TextFilter a \<noteq> None"
    using assms by (auto simp: New_def Let_def split: if_splits option.splits)
qed

lemma in_order_new_loops: "in_order E new_loops"
  using numbered_new by (force simp: in_order_def)

definition new_node :: "app \<Rightarrow> node" where
  "new_node a = \<lparr>napp = a, nctx = Map.empty, nmet = no_metrics, connSeq = 0\<rparr>"

text \<open>The node of the concrete runs: two event loops, the default configuration, no word file.\<close>

definition sample_app :: app where
  "sample_app =
    (case New 2 True (Inl ErrNotExist) (Inl ErrNotExist) (Load ''host'' 5 42 2) of
       NewApp a \<Rightarrow> a | _ \<Rightarrow> undefined)"

lemma sample_app_New:
  "New 2 True (Inl ErrNotExist) (Inl ErrNotExist) (Load ''host'' 5 42 2) = NewApp sample_app"
  by (simp add: sample_app_def New_def NewManager_def Let_def)

lemma sample_app_loopCount: "loopCount (RoomManager sample_app) = 2"
  using New_facts(10) [OF sample_app_New] by simp

definition sample_env :: env where
  "sample_env =
    \<lparr>now_unix = 1000, frame_ms = 1000000, envelope_ms = 1000000, now_nano = 1000000000,
     EventLoopOf = [7 \<mapsto> 70, 8 \<mapsto> 80], Outbound = (\<lambda>_. 0), KafkaAnswer = (\<lambda>_. None),
     ExecuteAnswer = (\<lambda>_. None)\<rparr>"

lemma sample_env_loops:
  "finite (ran (EventLoopOf sample_env))" "card (ran (EventLoopOf sample_env)) = 2"
proof -
  have "EventLoopOf sample_env 7 = Some 70" "EventLoopOf sample_env 8 = Some 80"
    by (simp_all add: sample_env_def)
  moreover have "EventLoopOf sample_env c = Some l \<Longrightarrow> l \<in> {70, 80}" for c l
    by (auto simp: sample_env_def split: if_splits)
  ultimately have "ran (EventLoopOf sample_env) = {70, 80}" unfolding ran_def by blast
  then show "finite (ran (EventLoopOf sample_env))" "card (ran (EventLoopOf sample_env)) = 2" by simp_all
qed

definition join_req :: "int64 \<Rightarrow> int64 \<Rightarrow> JoinRoomReq" where
  "join_req u r = \<lparr>join_RoomId = r, join_UserId = u, join_IsPremium = False, join_Token = ''''\<rparr>"

definition frame_of :: "OpType \<Rightarrow> Frame" where
  "frame_of p = \<lparr>f_Op = p, f_RoomId = 0, f_UserId = 0, f_Payload = [9], f_Timestamp = 0\<rparr>"

theorem join_admission_witness:
  "\<exists>n'. HandleInbound sample_env
       (null_codec\<lparr>Unmarshal_Frame := \<lambda>_. Some (frame_of 1), Unmarshal_JoinRoomReq := \<lambda>_. Some (join_req 42 5)\<rparr>)
       (Some \<lparr>task_Conn = 7, task_Data = [1]\<rparr>)
       ((new_node sample_app)\<lparr>nctx := [7 \<mapsto> new_ConnContext ''1'']\<rparr>) = ([], n') \<and>
     (\<exists>i. members (RoomManager (napp n')) 5 (i, ''1'') = Some 7)"
proof -
  let ?n = "(new_node sample_app)\<lparr>nctx := [7 \<mapsto> new_ConnContext ''1'']\<rparr>"
  let ?cdc = "null_codec\<lparr>Unmarshal_Frame := \<lambda>_. Some (frame_of 1), Unmarshal_JoinRoomReq := \<lambda>_. Some (join_req 42 5)\<rparr>"
  note facts = New_facts [OF sample_app_New]
  have ref: "join_refusal (napp ?n) (join_req 42 5) = None"
    by (simp add: join_refusal_def new_node_def facts(6,9) join_req_def Load_def addUserConn_def user_count_def Let_def)
  obtain es n' where h: "HandleInbound sample_env ?cdc (Some \<lparr>task_Conn = 7, task_Data = [1]\<rparr>) ?n = (es, n')"
    by fastforce
  have r: "nctx ?n 7 = Some (new_ConnContext ''1'')" "Unmarshal_Frame ?cdc [1] = Some (frame_of 1)"
    "f_Op (frame_of 1) = OpType_OP_JOIN_ROOM" "Unmarshal_JoinRoomReq ?cdc (f_Payload (frame_of 1)) = Some (join_req 42 5)"
    "wf_manager (RoomManager (napp ?n))" "in_order (EventLoopOf sample_env) (LoopSt (napp ?n))"
    "card (ran (EventLoopOf sample_env)) \<le> loopCount (RoomManager (napp ?n))"
    "EventLoopOf sample_env 7 = Some 70" "ConnID (new_ConnContext ''1'') \<noteq> ''''"
    by (simp_all add: sample_app_loopCount new_node_def frame_of_def OpType_OP_JOIN_ROOM_def facts in_order_new_loops
        sample_env_loops new_ConnContext_def) (simp_all add: sample_env_def)
  from join_admission [OF r(1) _ _ r(2-6) sample_env_loops(1) r(7-9)] ref
  have "es = [] \<and> (\<exists>i. members (RoomManager (napp n')) =
      (members (RoomManager (napp ?n)))(5 := (members (RoomManager (napp ?n)) 5)((i, ''1'') \<mapsto> 7)))"
    unfolding h prod.case by (simp add: new_ConnContext_def join_req_def) blast
  with h show ?thesis by (auto intro!: exI [of _ n'])
qed

section \<open>Chatting\<close>

definition chat_admitted :: "env \<Rightarrow> app \<Rightarrow> ConnContext \<Rightarrow> bool" where
  "chat_admitted env a ctx \<longleftrightarrow> 0 < sint (RoomID ctx) \<and> 0 < sint (UserID ctx) \<and>
     (case AppLimiter a of None \<Rightarrow> True | Some l \<Rightarrow> fst (Allow (now_unix env) l (UserID ctx)))"

definition charge_limiter :: "env \<Rightarrow> ConnContext \<Rightarrow> node \<Rightarrow> node" where
  "charge_limiter env ctx n =
    n\<lparr>napp := (napp n)\<lparr>AppLimiter :=
        map_option (\<lambda>l. snd (Allow (now_unix env) l (UserID ctx))) (AppLimiter (napp n))\<rparr>\<rparr>"

lemma charge_limiter_simps [simp]:
  "nctx (charge_limiter env ctx n) = nctx n" "nmet (charge_limiter env ctx n) = nmet n"
  "RoomManager (napp (charge_limiter env ctx n)) = RoomManager (napp n)"
  "hasBroadcaster (napp (charge_limiter env ctx n)) = hasBroadcaster (napp n)"
  "AllConns (napp (charge_limiter env ctx n)) = AllConns (napp n)"
  "CurrConnCount (napp (charge_limiter env ctx n)) = CurrConnCount (napp n)"
  "userConnCount (napp (charge_limiter env ctx n)) = userConnCount (napp n)"
  "LoopSt (napp (charge_limiter env ctx n)) = LoopSt (napp n)"
  "Cfg (napp (charge_limiter env ctx n)) = Cfg (napp n)"
  by (simp_all add: charge_limiter_def)

lemma handleChat_admitted:
  assumes "chat_admitted env (napp n) ctx" and "Unmarshal_ChatMsg cdc (f_Payload frame) = Some msg"
  shows "handleChat env cdc c ctx frame n =
    (let n1 = charge_limiter env ctx n; a = napp n
     in if Hit (reloadable_Check (TextFilter a) (chat_Content msg)) then
          (sendError env cdc c ctx 400 msg_sensitive,
           n1\<lparr>nmet := (nmet n)\<lparr>FilterRejectCount := FilterRejectCount (nmet n) + 1\<rparr>\<rparr>)
        else case Marshal_Frame cdc (chat_frame env ctx (f_Payload frame)) of
          (data, Some err) \<Rightarrow> ([], n1)
        | (data, None) \<Rightarrow>
          (case AppProducer a of
             Some p \<Rightarrow>
               (case Publish cdc (KafkaAnswer env) (now_nano env) (Some p) (Some (chat_envelope env ctx data)) of
                  (None, tr) \<Rightarrow> (map Kafka tr, n1)
                | (Some err, tr) \<Rightarrow> (map Kafka tr,
                     n1\<lparr>nmet := (nmet n)\<lparr>KafkaPublishErrCount := KafkaPublishErrCount (nmet n) + 1\<rparr>\<rparr>))
           | None \<Rightarrow> broadcast_here env (chat_envelope env ctx data) n1))"
proof -
  have nofilter: "TextFilter (napp n) \<noteq> None" if "Hit (reloadable_Check (TextFilter (napp n)) t)" for t
    using that by (cases "TextFilter (napp n)") (auto simp: reloadable_filter.hit_iff reloadable_vocabulary_def)
  have "(case AppLimiter (napp n) of None \<Rightarrow> (True, None)
        | Some l \<Rightarrow> (case Allow (now_unix env) l (UserID ctx) of (ok, l') \<Rightarrow> (ok, Some l'))) =
      (True, map_option (\<lambda>l. snd (Allow (now_unix env) l (UserID ctx))) (AppLimiter (napp n)))"
    using assms(1) by (auto simp: chat_admitted_def split: option.splits prod.splits)
  then show ?thesis
    using assms nofilter unfolding handleChat_def
    by (auto simp: chat_admitted_def charge_limiter_def Let_def split: prod.splits option.splits)
qed



text \<open>The sample node with connection 7 in room 5 as user 42, and connection 8 beside it.\<close>

definition chat_node :: node where
  "chat_node =
    (new_node sample_app)
      \<lparr>napp := sample_app\<lparr>RoomManager :=
          AddConnInLoop (AddConnInLoop (RoomManager sample_app) 5 0 ''1'' (Some 7)) 5 1 ''2'' (Some 8)\<rparr>,
       nctx := [7 \<mapsto> (new_ConnContext ''1'')\<lparr>UserID := 42, RoomID := 5\<rparr>,
                8 \<mapsto> (new_ConnContext ''2'')\<lparr>UserID := 43, RoomID := 5, LoopIdx := 1\<rparr>]\<rparr>"

lemma small_from_members:
  assumes "wf_manager m" and "\<And>rid. card (dom (members m rid)) < 2 ^ 31"
  shows "small_manager m"
  using assms(2) by (auto simp: small_manager_def small_room_def card_members [OF assms(1), symmetric])

lemma chat_node_rooms:
  "wf_manager (RoomManager (napp chat_node))"
  "members (RoomManager (napp chat_node)) =
    (\<lambda>rid k. None)(5 := [(0, ''1'') \<mapsto> 7, (1, ''2'') \<mapsto> 8])"
  "small_manager (RoomManager (napp chat_node))"
proof -
  note facts = New_facts [OF sample_app_New]
  let ?m1 = "AddConnInLoop (RoomManager sample_app) 5 0 ''1'' (Some 7)"
  have wf1: "wf_manager ?m1" by (rule wf_Add [OF facts(1)])
  then show wf: "wf_manager (RoomManager (napp chat_node))" by (simp add: chat_node_def wf_Add)
  have slot: "valid_slot (RoomManager sample_app) 5 0 ''1''" by (simp add: valid_slot_def sample_app_loopCount)
  have "loopCount ?m1 = 2" by (simp add: sample_app_loopCount)
  then have slot1: "valid_slot ?m1 5 1 ''2''" by (simp add: valid_slot_def)
  have "members ?m1 = (\<lambda>rid k. None)(5 := [(0, ''1'') \<mapsto> 7])"
    using slot by (intro ext) (simp add: members_Add [OF facts(1)] facts(4))
  then show mem: "members (RoomManager (napp chat_node)) =
      (\<lambda>rid k. None)(5 := [(0, ''1'') \<mapsto> 7, (1, ''2'') \<mapsto> 8])"
    using slot1 by (intro ext) (auto simp: chat_node_def members_Add [OF wf1])
  show "small_manager (RoomManager (napp chat_node))"
  proof (rule small_from_members [OF wf])
    fix rid
    have "card (dom (members (RoomManager (napp chat_node)) rid)) \<le> card {(0 :: int, ''1''), (1, ''2'')}"
      unfolding mem by (intro card_mono) (auto split: if_splits)
    also have "\<dots> \<le> 2" by simp
    finally show "card (dom (members (RoomManager (napp chat_node)) rid)) < 2 ^ 31" by simp
  qed
qed



section \<open>The heartbeat check\<close>

text \<open>The table of connections is keyed by the connection ids of their contexts.\<close>

definition keyed :: "contexts \<Rightarrow> (string \<times> conn) list \<Rightarrow> bool" where
  "keyed ctxs tab \<longleftrightarrow> keys_distinct tab \<and>
     (\<forall>(k, c) \<in> set tab. \<forall>ctx. ctxs c = Some ctx \<longrightarrow> ConnID ctx = k)"

lemma keyed_ConnID: "keyed ctxs tab \<Longrightarrow> (k, c) \<in> set tab \<Longrightarrow> ctxs c = Some ctx \<Longrightarrow> ConnID ctx = k"
  unfolding keyed_def by fast

lemma keyed_map_of: "keyed ctxs tab \<Longrightarrow> (k, c) \<in> set tab \<Longrightarrow> map_of tab k = Some c"
  by (simp add: keyed_def)

definition idle_conn :: "int64 \<Rightarrow> contexts \<Rightarrow> conn \<Rightarrow> bool" where
  "idle_conn now ctxs c \<longleftrightarrow>
     (case ctxs c of None \<Rightarrow> False | Some ctx \<Rightarrow> 90 < sint (now - LastActiveTime ctx))"

lemma delete_filter: "AList.delete k tab = filter (\<lambda>(k', c). k' \<noteq> k) tab"
  by (auto simp: AList.delete_eq case_prod_unfold intro: filter_cong)

lemma heartbeat_range:
  "range_conns
      (\<lambda>c n. case nctx n c of
               None \<Rightarrow> ([], n)
             | Some cCtx \<Rightarrow>
               if sint (now - LastActiveTime cCtx) > 90 then
                 ([Net (CloseConn c)],
                  n\<lparr>napp := (napp n)\<lparr>AllConns := AList.delete (ConnID cCtx) (AllConns (napp n))\<rparr>\<rparr>)
               else ([], n)) tab n =
    (map (\<lambda>(k, c). Net (CloseConn c)) (filter (\<lambda>(k, c). idle_conn now (nctx n) c) tab),
     n\<lparr>napp := (napp n)\<lparr>AllConns :=
         foldl (\<lambda>t c. AList.delete (ConnID (the (nctx n c))) t) (AllConns (napp n))
           (map snd (filter (\<lambda>(k, c). idle_conn now (nctx n) c) tab))\<rparr>\<rparr>)"
proof (induction tab arbitrary: n)
  case Nil
  then show ?case by simp
next
  case (Cons e tab)
  obtain k c where e: "e = (k, c)" by (cases e)
  show ?case
  proof (cases "nctx n c")
    case None
    then show ?thesis using Cons [of n] by (simp add: e idle_conn_def)
  next
    case (Some ctx)
    then show ?thesis
      using Cons [of n] Cons [of "n\<lparr>napp := (napp n)\<lparr>AllConns := AList.delete (ConnID ctx) (AllConns (napp n))\<rparr>\<rparr>"]
      by (simp add: e idle_conn_def)
  qed
qed

lemma heartbeat_survivors:
  assumes "keyed (nctx n) (AllConns (napp n))"
  shows "foldl (\<lambda>t c. AList.delete (ConnID (the (nctx n c))) t) (AllConns (napp n))
      (map snd (filter (\<lambda>(k, c). idle_conn now (nctx n) c) (AllConns (napp n)))) =
    filter (\<lambda>(k, c). \<not> idle_conn now (nctx n) c) (AllConns (napp n))"
proof -
  let ?tab = "AllConns (napp n)" and ?dead = "\<lambda>c. idle_conn now (nctx n) c"
  have gone: "foldl (\<lambda>t c. AList.delete (ConnID (the (nctx n c))) t) ?tab cs =
      filter (\<lambda>(k, c). k \<notin> (\<lambda>c. ConnID (the (nctx n c))) ` set cs) ?tab" for cs
  proof (induction cs rule: rev_induct)
    case Nil
    then show ?case by simp
  next
    case (snoc c cs)
    then show ?case by (auto simp: delete_filter case_prod_unfold intro: filter_cong)
  qed
  have key: "(k, c) \<in> set ?tab \<Longrightarrow> ?dead c \<Longrightarrow> ConnID (the (nctx n c)) = k" for k c
    using assms by (fastforce simp: keyed_def idle_conn_def split: option.splits)
  have inj: "(k, c) \<in> set ?tab \<Longrightarrow> (k, c') \<in> set ?tab \<Longrightarrow> c = c'" for k c c'
    using assms by (auto simp: keyed_def dest: eq_key_imp_eq_value)
  have "filter (\<lambda>(k, c). k \<notin> (\<lambda>c. ConnID (the (nctx n c))) ` set (map snd (filter (\<lambda>(k, c). ?dead c) ?tab))) ?tab =
      filter (\<lambda>(k, c). \<not> ?dead c) ?tab"
  proof (rule filter_cong [OF refl])
    fix e assume e: "e \<in> set ?tab"
    obtain k c where kc: "e = (k, c)" by (cases e)
    have "k \<in> (\<lambda>c. ConnID (the (nctx n c))) ` set (map snd (filter (\<lambda>(k, c). ?dead c) ?tab)) \<longleftrightarrow> ?dead c"
    proof
      assume "k \<in> (\<lambda>c. ConnID (the (nctx n c))) ` set (map snd (filter (\<lambda>(k, c). ?dead c) ?tab))"
      then obtain k' c' where "(k', c') \<in> set ?tab" "?dead c'" "k = ConnID (the (nctx n c'))" by auto
      then show "?dead c" using key inj e kc by metis
    next
      assume "?dead c"
      then show "k \<in> (\<lambda>c. ConnID (the (nctx n c))) ` set (map snd (filter (\<lambda>(k, c). ?dead c) ?tab))"
        using key e kc by force
    qed
    then show "(case e of (k, c) \<Rightarrow> k \<notin> (\<lambda>c. ConnID (the (nctx n c))) ` set (map snd (filter (\<lambda>(k, c). ?dead c) ?tab))) =
        (case e of (k, c) \<Rightarrow> \<not> ?dead c)"
      by (simp add: kc)
  qed
  then show ?thesis unfolding gone .
qed

text \<open>
  The heartbeat check closes exactly the dead connections. One tick asks gnet to close, once each
  and in the order of the table, exactly the registered connections silent for more than 90 seconds,
  removes exactly those from the table, and changes nothing else of the node.
\<close>

theorem heartbeat_closes_idle:
  assumes "keyed (nctx n) (AllConns (napp n))"
  shows "heartbeat_tick now n =
    (map (\<lambda>(k, c). Net (CloseConn c)) (filter (\<lambda>(k, c). idle_conn now (nctx n) c) (AllConns (napp n))),
     n\<lparr>napp := (napp n)\<lparr>AllConns := filter (\<lambda>(k, c). \<not> idle_conn now (nctx n) c) (AllConns (napp n))\<rparr>\<rparr>)"
  unfolding heartbeat_tick_def heartbeat_range heartbeat_survivors [OF assms] ..

theorem heartbeat_closes_idle_witness:
  "nets (fst (heartbeat_tick 500 (chat_node\<lparr>napp := (napp chat_node)\<lparr>AllConns := [(''1'', 7), (''2'', 8)]\<rparr>,
      nctx := [7 \<mapsto> (new_ConnContext ''1'')\<lparr>LastActiveTime := 409\<rparr>, 8 \<mapsto> (new_ConnContext ''2'')\<lparr>LastActiveTime := 410\<rparr>]\<rparr>)))
   = [CloseConn 7]"
proof -
  let ?n = "chat_node\<lparr>napp := (napp chat_node)\<lparr>AllConns := [(''1'', 7), (''2'', 8)]\<rparr>,
      nctx := [7 \<mapsto> (new_ConnContext ''1'')\<lparr>LastActiveTime := 409\<rparr>, 8 \<mapsto> (new_ConnContext ''2'')\<lparr>LastActiveTime := 410\<rparr>]\<rparr>"
  have "keyed (nctx ?n) (AllConns (napp ?n))" by (simp add: keyed_def new_ConnContext_def)
  from heartbeat_closes_idle [OF this, of 500] show ?thesis by (simp add: idle_conn_def)
qed

section \<open>Kicking\<close>

definition bound_loop :: "node \<Rightarrow> int \<Rightarrow> event_loop option" where
  "bound_loop n i = (case lrDisp (LoopSt (napp n)) of None \<Rightarrow> None | Some d \<Rightarrow> loops d i)"

lemma post_bound:
  assumes "bound_loop n i = Some l" and "ExecuteAnswer env l = None"
  shows "fst (post env i t n) = [Post l t]"
  using assms by (auto simp: post_def bound_loop_def Dispatch_def Let_def split: option.splits)

lemma post_unbound: "bound_loop n i = None \<Longrightarrow> fst (post env i t n) = []"
  by (auto simp: post_def bound_loop_def Dispatch_def Let_def split: option.splits)

lemma post_keeps [simp]:
  "nctx (snd (post env i t n)) = nctx n" "AllConns (napp (snd (post env i t n))) = AllConns (napp n)"
  "bound_loop (snd (post env i t n)) = bound_loop n" "RoomManager (napp (snd (post env i t n))) = RoomManager (napp n)"
  by (auto simp: post_def bound_loop_def Dispatch_def Let_def fun_eq_iff split: option.splits prod.splits)

lemma KickConn_keeps [simp]:
  "nctx (snd (KickConn env k r n)) = nctx n" "AllConns (napp (snd (KickConn env k r n))) = AllConns (napp n)"
  "bound_loop (snd (KickConn env k r n)) = bound_loop n"
  by (auto simp: KickConn_def split: option.splits)

text \<open>One connection on the way of \<open>KickUser\<close> through the table, and the whole way.\<close>

abbreviation kick_visit :: "env \<Rightarrow> int64 \<Rightarrow> string \<Rightarrow> conn \<Rightarrow> node \<Rightarrow> effect list \<times> node" where
  "kick_visit env userID reason c m \<equiv>
    (case nctx m c of
       None \<Rightarrow> ([], m)
     | Some cCtx \<Rightarrow> if UserID cCtx \<noteq> userID then ([], m) else KickConn env (ConnID cCtx) reason m)"

abbreviation same_table :: "node \<Rightarrow> node \<Rightarrow> bool" where
  "same_table n m \<equiv> nctx m = nctx n \<and> AllConns (napp m) = AllConns (napp n) \<and> bound_loop m = bound_loop n"

lemma kick_visit_keeps: "same_table m (snd (kick_visit env userID reason c m))"
  by (auto split: option.splits)

lemma kick_visit_posts:
  assumes keyed: "keyed (nctx n) (AllConns (napp n))" and exec: "\<forall>l. ExecuteAnswer env l = None"
    and bound: "\<forall>(k, c) \<in> set (AllConns (napp n)). \<forall>ctx. nctx n c = Some ctx \<longrightarrow> UserID ctx = userID \<longrightarrow>
           (\<exists>l. EventLoopOf env c = Some l \<and> bound_loop n (LoopIdx ctx) = Some l)"
    and mem: "(k, c) \<in> set (AllConns (napp n))" and m: "same_table n m"
  shows "fst (kick_visit env userID reason c m) = (if \<exists>ctx. nctx n c = Some ctx \<and> UserID ctx = userID
      then [Post (the (EventLoopOf env c)) (KickTask c reason)] else [])"
proof (cases "\<exists>ctx. nctx n c = Some ctx \<and> UserID ctx = userID")
  case True
  then obtain ctx where ctx: "nctx n c = Some ctx" "UserID ctx = userID" by blast
  then obtain l where l: "EventLoopOf env c = Some l" "bound_loop n (LoopIdx ctx) = Some l"
    using bspec [OF bound mem] by auto
  have "ConnID ctx = k" using keyed_ConnID [OF keyed mem ctx(1)] .
  then have "map_of (AllConns (napp n)) (ConnID ctx) = Some c"
    using keyed_map_of [OF keyed mem] by simp
  then have "KickConn env (ConnID ctx) reason m = post env (LoopIdx ctx) (KickTask c reason) m"
    using m ctx by (simp add: KickConn_def)
  then show ?thesis
    using ctx l m exec post_bound [of m "LoopIdx ctx" l env "KickTask c reason"] by simp
next
  case False
  then show ?thesis using m by (auto split: option.splits)
qed

lemma kick_range_posts:
  assumes "keyed (nctx n) (AllConns (napp n))" "\<forall>l. ExecuteAnswer env l = None"
    and "\<forall>(k, c) \<in> set (AllConns (napp n)). \<forall>ctx. nctx n c = Some ctx \<longrightarrow> UserID ctx = userID \<longrightarrow>
           (\<exists>l. EventLoopOf env c = Some l \<and> bound_loop n (LoopIdx ctx) = Some l)"
    and "set tab \<subseteq> set (AllConns (napp n))" and "same_table n m"
  shows "fst (range_conns (kick_visit env userID reason) tab m) =
      map (\<lambda>(k, c). Post (the (EventLoopOf env c)) (KickTask c reason))
        (filter (\<lambda>(k, c). \<exists>ctx. nctx n c = Some ctx \<and> UserID ctx = userID) tab)"
  using assms(4,5)
proof (induction tab arbitrary: m)
  case (Cons e tab)
  obtain k c where e: "e = (k, c)" by (cases e)
  have "same_table n (snd (kick_visit env userID reason c m))"
    using Cons.prems(2) kick_visit_keeps [where m = m and c = c] by simp
  with Cons have "fst (range_conns (kick_visit env userID reason) tab (snd (kick_visit env userID reason c m))) =
      map (\<lambda>(k, c). Post (the (EventLoopOf env c)) (KickTask c reason))
        (filter (\<lambda>(k, c). \<exists>ctx. nctx n c = Some ctx \<and> UserID ctx = userID) tab)" by simp
  moreover have "fst (range_conns (kick_visit env userID reason) (e # tab) m) = fst (kick_visit env userID reason c m) @
      fst (range_conns (kick_visit env userID reason) tab (snd (kick_visit env userID reason c m)))"
    by (simp add: e case_prod_beta)
  ultimately show ?case using kick_visit_posts [OF assms(1-3), where k = k and c = c and m = m] Cons.prems by (simp add: e)
qed simp

text \<open>
  C34: kicking a user reaches all of the user's connections. If the table is keyed by the contexts and
  every connection of the user was resolved to its event loop, whose queue accepts tasks, then a kick
  posts, for every registered connection of the user and no other, one kick task to the event loop
  of that connection; when the task runs it writes the reason and then closes the connection.
\<close>

theorem kick_user_reaches_all:
  assumes "0 < sint userID" and "keyed (nctx n) (AllConns (napp n))" and "\<forall>l. ExecuteAnswer env l = None"
    and "\<forall>(k, c) \<in> set (AllConns (napp n)). \<forall>ctx. nctx n c = Some ctx \<longrightarrow> UserID ctx = userID \<longrightarrow>
           (\<exists>l. EventLoopOf env c = Some l \<and> bound_loop n (LoopIdx ctx) = Some l)"
  shows "fst (KickUser env userID reason n) =
      map (\<lambda>(k, c). Post (the (EventLoopOf env c)) (KickTask c reason))
        (filter (\<lambda>(k, c). \<exists>ctx. nctx n c = Some ctx \<and> UserID ctx = userID) (AllConns (napp n))) \<and>
    (\<forall>c ctx. nctx n c = Some ctx \<longrightarrow>
      run_loop_task env cdc (KickTask c reason) n =
        [AsyncWrite c (BuildBinaryFrame (error_frame env cdc (RoomID ctx) (UserID ctx) 403 reason)), CloseConn c])"
proof
  show "fst (KickUser env userID reason n) =
      map (\<lambda>(k, c). Post (the (EventLoopOf env c)) (KickTask c reason))
        (filter (\<lambda>(k, c). \<exists>ctx. nctx n c = Some ctx \<and> UserID ctx = userID) (AllConns (napp n)))"
    using assms(1) kick_range_posts [OF assms(2-4) order_refl, where m = n and reason = reason] by (simp add: KickUser_def)
  show "\<forall>c ctx. nctx n c = Some ctx \<longrightarrow>
      run_loop_task env cdc (KickTask c reason) n =
        [AsyncWrite c (BuildBinaryFrame (error_frame env cdc (RoomID ctx) (UserID ctx) 403 reason)), CloseConn c]"
    by (simp add: run_loop_task_def kick_closure_def)
qed

theorem kick_user_reaches_all_witness:
  "fst (KickUser sample_env 42 ''bye'' (chat_node\<lparr>napp := (napp chat_node)\<lparr>AllConns := [(''1'', 7), (''2'', 8)],
      LoopSt := resolve_all (EventLoopOf sample_env) [7, 8] new_loops\<rparr>\<rparr>)) = [Post 70 (KickTask 7 ''bye'')]"
proof -
  let ?n = "chat_node\<lparr>napp := (napp chat_node)\<lparr>AllConns := [(''1'', 7), (''2'', 8)],
      LoopSt := resolve_all (EventLoopOf sample_env) [7, 8] new_loops\<rparr>\<rparr>"
  have b: "bound_loop ?n 0 = Some 70"
    by (simp add: bound_loop_def resolve_all_def ResolveLoopIdx_def GetOrAssign_def Bind_def sample_env_def
        NewLoopRegistry_def NewLoopDispatcher_def Let_def)
  have k: "keyed (nctx ?n) (AllConns (napp ?n))" by (simp add: keyed_def chat_node_def new_ConnContext_def)
  have r: "\<forall>(k, c) \<in> set (AllConns (napp ?n)). \<forall>ctx. nctx ?n c = Some ctx \<longrightarrow> UserID ctx = 42 \<longrightarrow>
      (\<exists>l. EventLoopOf sample_env c = Some l \<and> bound_loop ?n (LoopIdx ctx) = Some l)"
    using b by (simp add: chat_node_def new_ConnContext_def sample_env_def)
  have e: "\<forall>l. ExecuteAnswer sample_env l = None" "0 < sint (42 :: int64)" by (simp_all add: sample_env_def)
  have f: "filter (\<lambda>(k, c). \<exists>ctx. nctx ?n c = Some ctx \<and> UserID ctx = 42) (AllConns (napp ?n)) = [(''1'', 7)]"
    by (simp add: chat_node_def new_ConnContext_def)
  have l: "EventLoopOf sample_env 7 = Some 70" by (simp add: sample_env_def)
  show ?thesis
    unfolding conjunct1 [OF kick_user_reaches_all [OF e(2) k e(1) r]] f list.map prod.case l option.sel ..
qed

text \<open>
  A kick before the first join misses. The context of a connection that has not joined a room names
  loop 0, whatever event loop the connection runs on: while no connection was resolved a kick of it
  does nothing at all, and once loop 0 is bound the task goes to that loop.
\<close>

theorem kick_before_join_misses:
  assumes "map_of (AllConns (napp n)) connID = Some c" and "nctx n c = Some (new_ConnContext connID)"
    and "\<forall>l. ExecuteAnswer env l = None"
  shows "fst (KickConn env connID reason n) =
    (case bound_loop n 0 of None \<Rightarrow> [] | Some l \<Rightarrow> [Post l (KickTask c reason)])"
proof -
  have "KickConn env connID reason n = post env 0 (KickTask c reason) n"
    using assms by (simp add: KickConn_def new_ConnContext_def)
  then show ?thesis
    using assms(3) by (cases "bound_loop n 0") (simp_all add: post_unbound post_bound)
qed

theorem kick_before_join_misses_witness:
  "fst (KickConn sample_env ''1'' ''bye'' ((new_node sample_app)\<lparr>napp := sample_app\<lparr>AllConns := [(''1'', 8)]\<rparr>,
      nctx := [8 \<mapsto> new_ConnContext ''1'']\<rparr>)) = []"
proof -
  let ?n = "(new_node sample_app)\<lparr>napp := sample_app\<lparr>AllConns := [(''1'', 8)]\<rparr>, nctx := [8 \<mapsto> new_ConnContext ''1'']\<rparr>"
  have "bound_loop ?n 0 = None" by (simp add: bound_loop_def New_facts(5) [OF sample_app_New] NewLoopDispatcher_def)
  moreover have "\<forall>l. ExecuteAnswer sample_env l = None" by (simp add: sample_env_def)
  ultimately show ?thesis using kick_before_join_misses [of ?n "''1''" 8 sample_env "''bye''"] by simp
qed

end
