(* ===== verification/Ws_Decode.thy ===== *)
theory Ws_Decode
  imports Ws_Frame
begin

text \<open>
  \<open>internal/server/websocket.go\<close>, the frame decoder: \<open>decodeOneFrame\<close> reads one masked client frame,
  \<open>DecodeWebSocketFrames\<close> reads as many complete frames as the buffer holds. The specification side
  is \<open>client_frame\<close>, the frame a client sends by RFC 6455, and \<open>frame_stream\<close>, a structural reading of
  a byte stream that the offset-based loop of the code is proved equal to.
\<close>

section \<open>Errors, frames and limits\<close>

datatype ws_error =
    ErrIncompleteFrame
  | ErrInvalidFrame
  | ErrNotWebSocket
  | ErrFragmentNotSupported
  | ErrControlFrameInvalid
  | ErrRSVNotZero
  | ErrPayloadTooLarge

record WebSocketFrame =
  wf_Opcode :: byte
  wf_Payload :: bytes

definition MaxWebSocketPayloadSize :: nat where
  "MaxWebSocketPayloadSize = 64 * 1024"

section \<open>One frame\<close>

text \<open>The checks on the two header bytes, in the order of the code.\<close>

definition check_header :: "byte \<Rightarrow> byte \<Rightarrow> ws_error option" where
  "check_header b0 b1 =
    (let fin = b0 AND 0x80 \<noteq> 0;
         rsv1 = b0 AND 0x40 \<noteq> 0;
         rsv2 = b0 AND 0x20 \<noteq> 0;
         rsv3 = b0 AND 0x10 \<noteq> 0;
         opcode = b0 AND 0x0F;
         masked = b1 AND 0x80 \<noteq> 0;
         payloadLen = unat (b1 AND 0x7F)
     in if rsv1 \<or> rsv2 \<or> rsv3 then Some ErrRSVNotZero
        else if 0x08 \<le> opcode \<and> \<not> fin then Some ErrControlFrameInvalid
        else if 0x08 \<le> opcode \<and> 125 < payloadLen then Some ErrControlFrameInvalid
        else if \<not> fin \<or> opcode = 0x00 then Some ErrFragmentNotSupported
        else if opcode \<noteq> 0x1 \<and> opcode \<noteq> 0x2 \<and> opcode \<noteq> 0x8 \<and> opcode \<noteq> 0x9 \<and> opcode \<noteq> 0xA
          then Some ErrInvalidFrame
        else if \<not> masked then Some ErrInvalidFrame
        else None)"

text \<open>The \<open>switch payloadLen\<close>: the payload's length and the offset after the length field.\<close>

definition extended_length :: "bytes \<Rightarrow> nat \<Rightarrow> ws_error + nat \<times> nat" where
  "extended_length data payloadLen =
    (let offset = 2
     in if payloadLen = 126 then
          (if length data < offset + 2 then Inl ErrIncompleteFrame
           else Inr (be_uint (take 2 (drop offset data)), offset + 2))
        else if payloadLen = 127 then
          (if length data < offset + 8 then Inl ErrIncompleteFrame
           else let v = be_uint (take 8 (drop offset data))
                in if v > 2 ^ 31 - 1 then Inl ErrInvalidFrame else Inr (v, offset + 8))
        else Inr (payloadLen, offset))"

text \<open>\<open>for i := 0; i < payloadLen; i++ { payload[i] ^= maskKey[i%4] }\<close>\<close>

definition unmask :: "bytes \<Rightarrow> bytes \<Rightarrow> bytes" where
  "unmask maskKey payload = map (\<lambda>i. payload ! i XOR maskKey ! (i mod 4)) [0..<length payload]"

definition decodeOneFrame :: "bytes \<Rightarrow> ws_error + WebSocketFrame \<times> nat" where
  "decodeOneFrame data =
    (if length data < 2 then Inl ErrIncompleteFrame
     else let b0 = data ! 0; b1 = data ! 1
     in case check_header b0 b1 of
          Some err \<Rightarrow> Inl err
        | None \<Rightarrow>
          (case extended_length data (unat (b1 AND 0x7F)) of
             Inl err \<Rightarrow> Inl err
           | Inr (payloadLen, offset) \<Rightarrow>
             if payloadLen > MaxWebSocketPayloadSize then Inl ErrPayloadTooLarge
             else if length data < offset + 4 then Inl ErrIncompleteFrame
             else let maskKey = take 4 (drop offset data); offset = offset + 4
             in if length data < offset + payloadLen then Inl ErrIncompleteFrame
                else Inr (\<lparr>wf_Opcode = b0 AND 0x0F,
                           wf_Payload = unmask maskKey (take payloadLen (drop offset data))\<rparr>,
                          offset + payloadLen)))"

lemma length_unmask [simp]: "length (unmask key p) = length p"
  by (simp add: unmask_def)


lemma extended_length_append:
  "extended_length data l = Inr (n, k) \<Longrightarrow> extended_length (data @ e) l = Inr (n, k)"
  by (auto simp: extended_length_def Let_def split: if_splits)

lemma extended_length_append_error:
  "extended_length data l = Inl err \<Longrightarrow> err \<noteq> ErrIncompleteFrame \<Longrightarrow>
     extended_length (data @ e) l = Inl err"
  by (auto simp: extended_length_def Let_def split: if_splits)

lemma extended_length_offset:
  "extended_length data l = Inr (n, k) \<Longrightarrow> 2 \<le> k \<and> k \<le> 10"
  by (auto simp: extended_length_def Let_def split: if_splits)

text \<open>What a successful decode says of the input, in one place.\<close>

lemma decodeOneFrame_InrE:
  assumes "decodeOneFrame data = Inr (f, n)"
  obtains payloadLen k where "2 \<le> length data"
    and "check_header (data ! 0) (data ! 1) = None"
    and "extended_length data (unat (data ! 1 AND 0x7F)) = Inr (payloadLen, k)"
    and "payloadLen \<le> MaxWebSocketPayloadSize" and "2 \<le> k" and "n = k + 4 + payloadLen"
    and "n \<le> length data"
    and "f = \<lparr>wf_Opcode = data ! 0 AND 0x0F,
              wf_Payload = unmask (take 4 (drop k data)) (take payloadLen (drop (k + 4) data))\<rparr>"
proof -
  from assms have len: "2 \<le> length data" and chk: "check_header (data ! 0) (data ! 1) = None"
    by (auto simp: decodeOneFrame_def Let_def split: if_splits option.splits)
  with assms obtain payloadLen k
    where ext: "extended_length data (unat (data ! 1 AND 0x7F)) = Inr (payloadLen, k)"
    by (auto simp: decodeOneFrame_def Let_def split: if_splits sum.splits)
  show thesis
    by (rule that [of payloadLen k])
      (use assms len chk ext extended_length_offset [OF ext] in
        \<open>auto simp: decodeOneFrame_def Let_def split: if_splits\<close>)
qed

lemma decodeOneFrame_consumes:
  assumes "decodeOneFrame data = Inr (f, n)"
  shows "6 \<le> n \<and> n \<le> length data \<and> length (wf_Payload f) \<le> MaxWebSocketPayloadSize \<and>
         length (wf_Payload f) + 6 \<le> n"
  using assms by (elim decodeOneFrame_InrE) auto

text \<open>A complete frame is read the same whatever follows it, and so is a frame that is refused.\<close>

lemma decodeOneFrame_append:
  assumes "decodeOneFrame data = Inr (f, n)"
  shows "decodeOneFrame (data @ e) = Inr (f, n)"
  using assms
proof (elim decodeOneFrame_InrE)
  fix payloadLen k
  assume h: "2 \<le> length data" "check_header (data ! 0) (data ! 1) = None"
    "extended_length data (unat (data ! 1 AND 0x7F)) = Inr (payloadLen, k)"
    "payloadLen \<le> MaxWebSocketPayloadSize" "n = k + 4 + payloadLen" "n \<le> length data"
    "f = \<lparr>wf_Opcode = data ! 0 AND 0x0F,
          wf_Payload = unmask (take 4 (drop k data)) (take payloadLen (drop (k + 4) data))\<rparr>"
  from extended_length_append [OF h(3), of e] h
  show ?thesis by (auto simp: decodeOneFrame_def Let_def nth_append)
qed

lemma decodeOneFrame_append_error:
  assumes "decodeOneFrame data = Inl err" and "err \<noteq> ErrIncompleteFrame"
  shows "decodeOneFrame (data @ e) = Inl err"
proof -
  from assms have len: "2 \<le> length data"
    by (auto simp: decodeOneFrame_def split: if_splits)
  then have hd: "(data @ e) ! 0 = data ! 0" "(data @ e) ! 1 = data ! 1"
    by (auto simp: nth_append)
  show ?thesis
  proof (cases "check_header (data ! 0) (data ! 1)")
    case (Some err')
    with assms len hd show ?thesis by (simp add: decodeOneFrame_def)
  next
    case None
    show ?thesis
    proof (cases "extended_length data (unat (data ! 1 AND 0x7F))")
      case (Inl err')
      with assms len None have "err' = err" by (simp add: decodeOneFrame_def)
      with Inl extended_length_append_error [of data "unat (data ! 1 AND 0x7F)" err e] assms len None hd
      show ?thesis by (simp add: decodeOneFrame_def)
    next
      case (Inr r)
      obtain payloadLen k where r: "r = (payloadLen, k)" by (cases r)
      from extended_length_append [of data _ payloadLen k e] Inr r assms len None hd
      show ?thesis by (auto simp: decodeOneFrame_def Let_def split: if_splits)
    qed
  qed
qed

text \<open>An incomplete frame is short: at most a ten-byte header, the key and the payload limit.\<close>

lemma decodeOneFrame_incomplete_short:
  assumes "decodeOneFrame data = Inl ErrIncompleteFrame"
  shows "length data < 14 + MaxWebSocketPayloadSize"
proof (rule ccontr)
  assume "\<not> ?thesis"
  then have len: "14 + MaxWebSocketPayloadSize \<le> length data" by simp
  then have len2: "\<not> length data < 2" by simp
  have chk: "check_header b0 b1 \<noteq> Some ErrIncompleteFrame" for b0 b1
    by (simp add: check_header_def Let_def)
  from len have ext: "extended_length data l \<noteq> Inl ErrIncompleteFrame" for l
    by (auto simp: extended_length_def Let_def)
  from assms len2 chk ext obtain payloadLen k where
    "extended_length data (unat (data ! 1 AND 0x7F)) = Inr (payloadLen, k)"
    and "payloadLen \<le> MaxWebSocketPayloadSize"
    and "length data < k + 4 + payloadLen"
    by (auto simp: decodeOneFrame_def Let_def split: if_splits option.splits sum.splits prod.splits)
  with extended_length_offset len show False by fastforce
qed

section \<open>The decoding loop\<close>

text \<open>
  \<open>for offset < len(data)\<close>: frames are appended as they are read, an incomplete frame ends the loop
  and any other error drops the frames read so far (\<open>return nil, offset, err\<close>). A frame is at least
  six bytes long, so the loop ends.
\<close>

function decode_loop ::
  "bytes \<Rightarrow> WebSocketFrame list \<Rightarrow> nat \<Rightarrow> WebSocketFrame list \<times> nat \<times> ws_error option" where
  "decode_loop data frames offset =
    (if offset < length data then
       (case decodeOneFrame (drop offset data) of
          Inl ErrIncompleteFrame \<Rightarrow> (frames, offset, None)
        | Inl err \<Rightarrow> ([], offset, Some err)
        | Inr (frame, n) \<Rightarrow> decode_loop data (frames @ [frame]) (offset + n))
     else (frames, offset, None))"
  by pat_completeness auto
termination
  by (relation "measure (\<lambda>(data, frames, offset). length data - offset)")
    (auto dest: decodeOneFrame_consumes)

declare decode_loop.simps [simp del]

text \<open>
  The same loop given a number of rounds it may take; \<open>None\<close> when they do not suffice.
\<close>

fun decode_within ::
  "nat \<Rightarrow> bytes \<Rightarrow> WebSocketFrame list \<Rightarrow> nat \<Rightarrow> (WebSocketFrame list \<times> nat \<times> ws_error option) option" where
  "decode_within k data frames offset =
    (if offset < length data then
       (case k of
          0 \<Rightarrow> None
        | Suc k \<Rightarrow>
          (case decodeOneFrame (drop offset data) of
             Inl ErrIncompleteFrame \<Rightarrow> Some (frames, offset, None)
           | Inl err \<Rightarrow> Some ([], offset, Some err)
           | Inr (frame, n) \<Rightarrow> decode_within k data (frames @ [frame]) (offset + n)))
     else Some (frames, offset, None))"

declare decode_within.simps [simp del]

definition DecodeWebSocketFrames :: "bytes \<Rightarrow> WebSocketFrame list \<times> nat \<times> ws_error option" where
  "DecodeWebSocketFrames data = decode_loop data [] 0"

section \<open>Reading a stream\<close>

text \<open>
  The reference reading: the complete frames at the front of the stream, the bytes left, and the
  error that stopped it, if one did.
\<close>

function frame_stream :: "bytes \<Rightarrow> WebSocketFrame list \<times> bytes \<times> ws_error option" where
  "frame_stream bs =
    (case decodeOneFrame bs of
       Inl err \<Rightarrow> ([], bs, if err = ErrIncompleteFrame then None else Some err)
     | Inr (f, n) \<Rightarrow> (case frame_stream (drop n bs) of (fs, rest, err) \<Rightarrow> (f # fs, rest, err)))"
  by pat_completeness auto
termination
  by (relation "measure length") (auto dest: decodeOneFrame_consumes)

declare frame_stream.simps [simp del]

lemma frame_stream_Nil [simp]: "frame_stream [] = ([], [], None)"
  by (simp add: frame_stream.simps decodeOneFrame_def)

lemma frame_stream_Inl:
  "decodeOneFrame bs = Inl err \<Longrightarrow>
     frame_stream bs = ([], bs, if err = ErrIncompleteFrame then None else Some err)"
  by (simp add: frame_stream.simps [of bs])

lemma frame_stream_Inr:
  "decodeOneFrame bs = Inr (f, n) \<Longrightarrow> frame_stream (drop n bs) = (fs, rest, err) \<Longrightarrow>
     frame_stream bs = (f # fs, rest, err)"
  by (simp add: frame_stream.simps [of bs])

lemma frame_stream_rest:
  "frame_stream bs = (fs, rest, err) \<Longrightarrow> \<exists>pre. bs = pre @ rest"
proof (induction bs arbitrary: fs rest err rule: frame_stream.induct)
  case (1 bs)
  show ?case
  proof (cases "decodeOneFrame bs")
    case (Inl e)
    with "1.prems" show ?thesis by (simp add: frame_stream_Inl)
  next
    case (Inr r)
    obtain f n where r: "r = (f, n)" by (cases r)
    obtain gs rest' err' where s: "frame_stream (drop n bs) = (gs, rest', err')"
      by (cases "frame_stream (drop n bs)")
    from "1.IH" [OF Inr r [symmetric] s] obtain pre where "drop n bs = pre @ rest'" by blast
    then have "bs = (take n bs @ pre) @ rest'" by (metis append_assoc append_take_drop_id)
    moreover have "rest = rest'" using "1.prems" Inr r s by (simp add: frame_stream_Inr)
    ultimately show ?thesis by blast
  qed
qed

lemma decode_loop_stream:
  assumes "offset \<le> length data" and "frame_stream (drop offset data) = (fs, rest, err)"
  shows "decode_loop data frames offset =
    (if err = None then frames @ fs else [], length data - length rest, err)"
  using assms
proof (induction data frames offset arbitrary: fs rest err rule: decode_loop.induct)
  case (1 data frames offset)
  show ?case
  proof (cases "offset < length data")
    case False
    with "1.prems" show ?thesis by (simp add: decode_loop.simps [of data])
  next
    case True
    show ?thesis
    proof (cases "decodeOneFrame (drop offset data)")
      case (Inl e)
      with "1.prems" True show ?thesis
        by (cases e) (auto simp: decode_loop.simps [of data] frame_stream_Inl)
    next
      case (Inr r)
      obtain f n where r: "r = (f, n)" by (cases r)
      have "n \<le> length data - offset"
        using decodeOneFrame_consumes [of "drop offset data" f n] Inr r by simp
      with True have n: "offset + n \<le> length data" by linarith
      obtain gs rest' err' where s: "frame_stream (drop (offset + n) data) = (gs, rest', err')"
        by (cases "frame_stream (drop (offset + n) data)")
      then have "frame_stream (drop offset data) = (f # gs, rest', err')"
        using Inr r by (intro frame_stream_Inr [of _ f n]) (simp_all add: add.commute)
      with "1.prems" have "fs = f # gs" "rest = rest'" "err = err'" by simp_all
      with "1.IH" [OF True Inr r [symmetric] n s] True Inr r show ?thesis
        by (simp add: decode_loop.simps [of data])
    qed
  qed
qed

text \<open>Bytes that arrive later do not change what was read before.\<close>

lemma frame_stream_append:
  assumes "frame_stream a = (fs, rest, None)" and "frame_stream (rest @ b) = (gs, rest', err)"
  shows "frame_stream (a @ b) = (fs @ gs, rest', err)"
  using assms
proof (induction a arbitrary: fs rest rule: frame_stream.induct)
  case (1 a)
  show ?case
  proof (cases "decodeOneFrame a")
    case (Inl e)
    with "1.prems" show ?thesis by (auto simp: frame_stream_Inl split: if_splits)
  next
    case (Inr r)
    obtain f n where r: "r = (f, n)" by (cases r)
    obtain fs' rest1 err1 where s: "frame_stream (drop n a) = (fs', rest1, err1)"
      by (cases "frame_stream (drop n a)")
    with "1.prems"(1) Inr r have eq: "fs = f # fs'" "rest1 = rest" "err1 = None"
      by (simp_all add: frame_stream_Inr)
    have "drop n (a @ b) = drop n a @ b"
      using decodeOneFrame_consumes [of a f n] Inr r by simp
    moreover from "1.IH" [OF Inr r [symmetric]] s eq "1.prems"(2)
    have "frame_stream (drop n a @ b) = (fs' @ gs, rest', err)" by simp
    ultimately have "frame_stream (a @ b) = (f # (fs' @ gs), rest', err)"
      using decodeOneFrame_append [of a f n b] Inr r by (intro frame_stream_Inr) auto
    with eq show ?thesis by simp
  qed
qed

lemma frame_stream_append_error:
  "frame_stream a = (fs, rest, Some err) \<Longrightarrow> frame_stream (a @ b) = (fs, rest @ b, Some err)"
proof (induction a arbitrary: fs rest rule: frame_stream.induct)
  case (1 a)
  show ?case
  proof (cases "decodeOneFrame a")
    case (Inl e)
    with "1.prems" decodeOneFrame_append_error [OF Inl, of b] show ?thesis
      by (auto simp: frame_stream_Inl split: if_splits)
  next
    case (Inr r)
    obtain f n where r: "r = (f, n)" by (cases r)
    obtain fs' rest1 err1 where s: "frame_stream (drop n a) = (fs', rest1, err1)"
      by (cases "frame_stream (drop n a)")
    with "1.prems" Inr r have eq: "fs = f # fs'" "rest1 = rest" "err1 = Some err"
      by (simp_all add: frame_stream_Inr)
    have "drop n (a @ b) = drop n a @ b"
      using decodeOneFrame_consumes [of a f n] Inr r by simp
    with "1.IH" [OF Inr r [symmetric]] s eq
    have "frame_stream (drop n (a @ b)) = (fs', rest @ b, Some err)" by simp
    with decodeOneFrame_append [of a f n b] Inr r
    have "frame_stream (a @ b) = (f # fs', rest @ b, Some err)"
      by (intro frame_stream_Inr) auto
    with eq show ?thesis by simp
  qed
qed

text \<open>After a run without error the bytes left are an incomplete frame, hence few.\<close>

lemma frame_stream_rest_incomplete:
  "frame_stream bs = (fs, rest, None) \<Longrightarrow> decodeOneFrame rest = Inl ErrIncompleteFrame"
proof (induction bs arbitrary: fs rest rule: frame_stream.induct)
  case (1 bs)
  show ?case
  proof (cases "decodeOneFrame bs")
    case (Inl e)
    with "1.prems" show ?thesis by (auto simp: frame_stream_Inl split: if_splits)
  next
    case (Inr r)
    obtain f n where r: "r = (f, n)" by (cases r)
    obtain fs' rest1 err1 where s: "frame_stream (drop n bs) = (fs', rest1, err1)"
      by (cases "frame_stream (drop n bs)")
    with "1.prems" Inr r have "rest1 = rest" "err1 = None" by (simp_all add: frame_stream_Inr)
    with "1.IH" [OF Inr r [symmetric]] s show ?thesis by simp
  qed
qed

section \<open>The client's frames\<close>

text \<open>
  The client's masking, as section 5.3 of RFC 6455 has it: each byte is combined with the next byte of the
  key, which starts over after its end.
\<close>

fun rfc_mask :: "bytes \<Rightarrow> bytes \<Rightarrow> bytes" where
  "rfc_mask key [] = []"
| "rfc_mask key (p # ps) = (p XOR hd key) # rfc_mask (rotate1 key) ps"

lemma length_rfc_mask [simp]: "length (rfc_mask key p) = length p"
  by (induction key p rule: rfc_mask.induct) simp_all

lemma nth_rfc_mask:
  "i < length p \<Longrightarrow> key \<noteq> [] \<Longrightarrow> rfc_mask key p ! i = p ! i XOR key ! (i mod length key)"
proof (induction key p arbitrary: i rule: rfc_mask.induct)
  case (2 key p ps)
  show ?case
  proof (cases i)
    case 0
    then show ?thesis using "2.prems"(2) by (simp add: hd_conv_nth)
  next
    case (Suc j)
    have "rotate1 key ! (j mod length key) = key ! (Suc j mod length key)"
      using "2.prems"(2) by (simp add: nth_rotate1 mod_Suc_eq)
    then show ?thesis using "2.IH" [of j] "2.prems" by (simp add: Suc)
  qed
qed simp

lemma unmask_rfc_mask [simp]:
  assumes "length key = 4"
  shows "unmask key (rfc_mask key p) = p"
proof (rule nth_equalityI)
  have "key \<noteq> []" using assms by auto
  then show "unmask key (rfc_mask key p) ! i = p ! i" if "i < length (unmask key (rfc_mask key p))" for i
    using that nth_rfc_mask [of i p key] assms by (simp add: unmask_def xor.assoc)
qed simp

text \<open>A frame as RFC 6455 has a client send it: FIN set, masked, with the shortest length field.\<close>

definition client_frame :: "bytes \<Rightarrow> WebSocketFrame \<Rightarrow> bytes" where
  "client_frame key f =
    (let n = length (wf_Payload f);
         len = (if n < 126 then [0x80 OR of_nat n]
                else if n \<le> 65535 then [0x80 OR 126] @ put_be 2 n
                else [0x80 OR 127] @ put_be 8 n)
     in [0x80 OR wf_Opcode f] @ len @ key @ rfc_mask key (wf_Payload f))"

text \<open>What the server accepts: the five opcodes, short control frames, payloads up to the limit.\<close>

definition acceptable :: "WebSocketFrame \<Rightarrow> bool" where
  "acceptable f \<longleftrightarrow>
     wf_Opcode f \<in> {OpText, OpBinary, OpClose, OpPing, OpPong} \<and>
     length (wf_Payload f) \<le> MaxWebSocketPayloadSize \<and>
     (wf_Opcode f \<in> {OpClose, OpPing, OpPong} \<longrightarrow> length (wf_Payload f) \<le> 125)"

lemma accepted_opcode_cases:
  assumes "acceptable f"
  shows "wf_Opcode f \<in> {1, 2, 8, 9, 10}"
  using assms by (auto simp: acceptable_def opcode_defs)

lemma masked_length_byte:
  assumes "n < 128"
  shows "(0x80 OR of_nat n) AND 0x80 \<noteq> (0 :: byte)" and "unat ((0x80 OR of_nat n) AND (0x7F :: byte)) = n"
proof -
  show "(0x80 OR of_nat n) AND 0x80 \<noteq> (0 :: byte)"
  proof
    assume "(0x80 OR of_nat n) AND 0x80 = (0 :: byte)"
    then have "bit ((0x80 OR of_nat n) AND 0x80 :: byte) 7 = bit (0 :: byte) 7" by simp
    then show False by (simp add: bit_simps)
  qed
  have "(0x80 OR of_nat n) AND 0x7F = (of_nat n :: byte)"
  proof (rule bit_word_eqI)
    fix i
    assume "i < LENGTH(8)"
    then have i: "i \<in> {0,1,2,3,4,5,6,7}" by auto
    have u: "unat (of_nat n :: byte) = n" using assms by (simp add: unat_of_nat)
    have "\<not> bit (unat (of_nat n :: byte)) 7"
      unfolding u using assms by (simp add: bit_iff_odd)
    then have "\<not> bit (of_nat n :: byte) 7" by (simp only: bit_unsigned_iff) simp
    with i show "bit ((0x80 OR of_nat n) AND 0x7F :: byte) i = bit (of_nat n :: byte) i"
      by (auto simp: bit_simps)
  qed
  then show "unat ((0x80 OR of_nat n) AND (0x7F :: byte)) = n"
    using assms by (simp add: unat_of_nat)
qed

lemma check_header_client:
  assumes "acceptable f" and "l < 128" and "8 \<le> wf_Opcode f \<Longrightarrow> l \<le> 125"
  shows "check_header (0x80 OR wf_Opcode f) (0x80 OR of_nat l) = None"
  using accepted_opcode_cases [OF assms(1)] assms(3) masked_length_byte [OF assms(2)]
  by (auto simp: check_header_def)

lemma client_opcode:
  assumes "acceptable f"
  shows "(0x80 OR wf_Opcode f) AND 0x0F = wf_Opcode f"
  using accepted_opcode_cases [OF assms] by auto

lemma acceptable_control:
  "acceptable f \<Longrightarrow> 8 \<le> wf_Opcode f \<Longrightarrow> length (wf_Payload f) \<le> 125"
  by (auto simp: acceptable_def opcode_defs word_le_nat_alt)

lemma decodeOneFrame_client:
  assumes ok: "acceptable f" and key: "length key = 4"
  shows "decodeOneFrame (client_frame key f @ rest) = Inr (f, length (client_frame key f))"
proof -
  let ?n = "length (wf_Payload f)"
  note hd = check_header_client [OF ok] acceptable_control [OF ok] client_opcode [OF ok]
  have lim: "?n \<le> 65536" using ok by (simp add: acceptable_def MaxWebSocketPayloadSize_def)
  have f: "\<lparr>wf_Opcode = wf_Opcode f, wf_Payload = wf_Payload f\<rparr> = f" by simp
  consider (small) "?n < 126" | (mid) "126 \<le> ?n" "?n \<le> 65535" | (large) "65535 < ?n" by linarith
  then show ?thesis
  proof cases
    case small
    then have "check_header (0x80 OR wf_Opcode f) (0x80 OR of_nat ?n) = None"
      using hd by (intro hd(1)) auto
    then show ?thesis
      using small key hd(3) masked_length_byte [of ?n] lim
      by (simp add: decodeOneFrame_def client_frame_def extended_length_def MaxWebSocketPayloadSize_def f)
  next
    case mid
    then have "check_header (0x80 OR wf_Opcode f) (0x80 OR of_nat 126) = None"
      using hd by (intro hd(1)) fastforce+
    then show ?thesis
      using mid key hd(3) masked_length_byte [of 126] lim
      by (simp add: decodeOneFrame_def client_frame_def extended_length_def MaxWebSocketPayloadSize_def f)
  next
    case large
    then have "check_header (0x80 OR wf_Opcode f) (0x80 OR of_nat 127) = None"
      using hd by (intro hd(1)) fastforce+
    then show ?thesis
      using large key hd(3) masked_length_byte [of 127] lim
      by (simp add: decodeOneFrame_def client_frame_def extended_length_def MaxWebSocketPayloadSize_def f)
  qed
qed

lemma frame_stream_client:
  assumes "\<And>f. f \<in> set fs \<Longrightarrow> acceptable f" and "length keys = length fs"
    and "\<And>k. k \<in> set keys \<Longrightarrow> length k = 4" and "decodeOneFrame rest = Inl ErrIncompleteFrame"
  shows "frame_stream (concat (map2 client_frame keys fs) @ rest) = (fs, rest, None)"
  using assms
proof (induction fs arbitrary: keys)
  case Nil
  then show ?case by (simp add: frame_stream_Inl)
next
  case (Cons f fs)
  then obtain k ks where keys: "keys = k # ks" by (cases keys) auto
  let ?tl = "concat (map2 client_frame ks fs) @ rest"
  have "frame_stream ?tl = (fs, rest, None)"
    using Cons keys by (intro Cons.IH) auto
  moreover have "decodeOneFrame (client_frame k f @ ?tl) = Inr (f, length (client_frame k f))"
    using Cons.prems keys by (intro decodeOneFrame_client) auto
  ultimately have "frame_stream (client_frame k f @ ?tl) = (f # fs, rest, None)"
    by (intro frame_stream_Inr) auto
  with keys show ?case by simp
qed

text \<open>Every frame that comes out of the decoder is one the server means to accept.\<close>

lemma opcode_from_header:
  assumes "check_header b0 b1 = None"
  shows "b0 AND 0x0F \<in> {OpText, OpBinary, OpClose, OpPing, OpPong}"
    and "b0 AND 0xF0 = 0x80" and "b1 AND 0x80 \<noteq> 0"
    and "8 \<le> b0 AND 0x0F \<Longrightarrow> unat (b1 AND 0x7F) \<le> 125"
proof -
  show "b0 AND 0x0F \<in> {OpText, OpBinary, OpClose, OpPing, OpPong}"
    using assms by (auto simp: check_header_def Let_def opcode_defs split: if_splits)
  show "b1 AND 0x80 \<noteq> 0" "8 \<le> b0 AND 0x0F \<Longrightarrow> unat (b1 AND 0x7F) \<le> 125"
    using assms by (auto simp: check_header_def Let_def split: if_splits)
  have bits: "b0 AND 0x80 \<noteq> 0" "b0 AND 0x40 = 0" "b0 AND 0x20 = 0" "b0 AND 0x10 = 0"
    using assms by (auto simp: check_header_def Let_def split: if_splits)
  have pick: "b0 AND 0x80 = (if bit b0 7 then 0x80 else 0)" "b0 AND 0x40 = (if bit b0 6 then 0x40 else 0)"
    "b0 AND 0x20 = (if bit b0 5 then 0x20 else 0)" "b0 AND 0x10 = (if bit b0 4 then 0x10 else 0)"
    by (rule bit_word_eqI; auto simp: bit_simps less_Suc_eq numeral_eq_Suc)+
  from bits have "bit b0 7" "\<not> bit b0 6" "\<not> bit b0 5" "\<not> bit b0 4"
    by (auto simp: pick split: if_splits)
  then show "b0 AND 0xF0 = 0x80"
    by (intro bit_word_eqI) (auto simp: bit_simps less_Suc_eq numeral_eq_Suc)
qed

lemma decodeOneFrame_acceptable:
  assumes "decodeOneFrame data = Inr (f, n)"
  shows "acceptable f"
  using assms
proof (elim decodeOneFrame_InrE)
  fix payloadLen k
  assume chk: "check_header (data ! 0) (data ! 1) = None"
    and ext: "extended_length data (unat (data ! 1 AND 0x7F)) = Inr (payloadLen, k)"
    and lim: "payloadLen \<le> MaxWebSocketPayloadSize" "n = k + 4 + payloadLen" "n \<le> length data"
    and f: "f = \<lparr>wf_Opcode = data ! 0 AND 0x0F,
          wf_Payload = unmask (take 4 (drop k data)) (take payloadLen (drop (k + 4) data))\<rparr>"
  have len: "length (wf_Payload f) = payloadLen" using f lim by simp
  have "payloadLen \<le> 125" if "wf_Opcode f \<in> {OpClose, OpPing, OpPong}"
  proof -
    from that f have "8 \<le> data ! 0 AND 0x0F" by (auto simp: opcode_defs word_le_nat_alt)
    then have "unat (data ! 1 AND 0x7F) \<le> 125" by (rule opcode_from_header(4) [OF chk])
    with ext show ?thesis by (auto simp: extended_length_def Let_def split: if_splits)
  qed
  with len lim opcode_from_header(1) [OF chk] f show ?thesis by (simp add: acceptable_def)
qed

lemma frame_stream_acceptable:
  "frame_stream bs = (fs, rest, err) \<Longrightarrow> f \<in> set fs \<Longrightarrow> acceptable f"
proof (induction bs arbitrary: fs rest err rule: frame_stream.induct)
  case (1 bs)
  show ?case
  proof (cases "decodeOneFrame bs")
    case (Inl e)
    with "1.prems" show ?thesis by (simp add: frame_stream_Inl)
  next
    case (Inr r)
    obtain g n where r: "r = (g, n)" by (cases r)
    obtain fs' rest1 err1 where s: "frame_stream (drop n bs) = (fs', rest1, err1)"
      by (cases "frame_stream (drop n bs)")
    with "1.prems" Inr r have "fs = g # fs'" by (simp add: frame_stream_Inr)
    with "1.IH" [OF Inr r [symmetric] s] "1.prems" decodeOneFrame_acceptable Inr r show ?thesis by auto
  qed
qed

lemma DecodeWebSocketFrames_stream:
  "frame_stream data = (fs, rest, err) \<Longrightarrow>
     DecodeWebSocketFrames data = (if err = None then fs else [], length data - length rest, err)"
  using decode_loop_stream [of 0 data fs rest err "[]"] by (simp add: DecodeWebSocketFrames_def)

section \<open>Properties\<close>

text \<open>
  C2: the server reads back what clients send. A run of acceptable client frames, masked with any
  keys and followed by the beginning of a further frame, decodes to exactly these frames with
  their payloads unmasked; all of their bytes are consumed and none of the tail, and no error
  is reported.
\<close>

theorem client_frames_decoded:
  assumes "\<forall>f \<in> set fs. acceptable f" and "length keys = length fs"
    and "\<forall>k \<in> set keys. length k = 4" and "decodeOneFrame tail = Inl ErrIncompleteFrame"
  shows "DecodeWebSocketFrames (concat (map2 client_frame keys fs) @ tail)
       = (fs, length (concat (map2 client_frame keys fs)), None)"
proof -
  have "frame_stream (concat (map2 client_frame keys fs) @ tail) = (fs, tail, None)"
    using assms by (intro frame_stream_client) auto
  then show ?thesis by (simp add: DecodeWebSocketFrames_stream)
qed

theorem client_frames_decoded_witness:
  "DecodeWebSocketFrames (concat (map2 client_frame [[1, 2, 3, 4]]
      [\<lparr>wf_Opcode = OpBinary, wf_Payload = [7, 8, 9, 10, 11]\<rparr>]) @ [0x82])
   = ([\<lparr>wf_Opcode = OpBinary, wf_Payload = [7, 8, 9, 10, 11]\<rparr>], 11, None)"
  using client_frames_decoded [of "[\<lparr>wf_Opcode = OpBinary, wf_Payload = [7, 8, 9, 10, 11]\<rparr>]"
      "[[1, 2, 3, 4]]" "[0x82]"]
  by (simp add: acceptable_def MaxWebSocketPayloadSize_def decodeOneFrame_def client_frame_def)

text \<open>
  C15: reading does not depend on how TCP cut the stream. If a first buffer decodes without error,
  decoding the buffer with later bytes appended gives the same frames first, then what the
  unconsumed half packet together with the later bytes decodes to; the consumed counts add up. An error in
  the later part is reported the same (the loop then returns no frames).
\<close>

theorem decode_split_anywhere:
  assumes "DecodeWebSocketFrames a = (fs, n, None)"
    and "DecodeWebSocketFrames (drop n a @ b) = (gs, m, err)"
  shows "DecodeWebSocketFrames (a @ b) = (if err = None then fs @ gs else [], n + m, err)"
proof -
  obtain fs' r e where a: "frame_stream a = (fs', r, e)" by (cases "frame_stream a")
  from DecodeWebSocketFrames_stream [OF a] assms(1)
  have e: "e = None" and fs: "fs' = fs" and n: "n = length a - length r" by (auto split: if_splits)
  from frame_stream_rest [OF a] n have r: "drop n a = r" and le: "n + length r = length a" by auto
  obtain gs' r' e' where b: "frame_stream (r @ b) = (gs', r', e')" by (cases "frame_stream (r @ b)")
  from DecodeWebSocketFrames_stream [OF b] assms(2) r
  have gs: "gs = (if e' = None then gs' else [])" and m: "m = length (r @ b) - length r'" and e': "e' = err"
    by auto
  have "frame_stream (a @ b) = (fs @ gs', r', err)"
    using frame_stream_append [of a fs r b gs' r' e'] a b e e' fs by simp
  moreover have "length r' \<le> length (r @ b)" using frame_stream_rest [OF b] by (metis length_append le_add2)
  ultimately show ?thesis
    using le m gs e' by (auto simp: DecodeWebSocketFrames_stream)
qed

theorem decode_split_anywhere_witness:
  "DecodeWebSocketFrames ([0x81, 0x81, 0, 0, 0, 0, 65, 0x82] @ [0x80, 1, 2, 3, 4])
   = ([\<lparr>wf_Opcode = 1, wf_Payload = [65]\<rparr>, \<lparr>wf_Opcode = 2, wf_Payload = []\<rparr>], 13, None)"
proof -
  have a: "DecodeWebSocketFrames [0x81, 0x81, 0, 0, 0, 0, 65, 0x82]
      = ([\<lparr>wf_Opcode = 1, wf_Payload = [65]\<rparr>], 7, None)"
    by (simp add: DecodeWebSocketFrames_def decode_loop.simps decodeOneFrame_def check_header_def
        extended_length_def unmask_def MaxWebSocketPayloadSize_def)
  have b: "DecodeWebSocketFrames (drop 7 [0x81, 0x81, 0, 0, 0, 0, 65, 0x82] @ [0x80, 1, 2, 3, 4])
      = ([\<lparr>wf_Opcode = 2, wf_Payload = []\<rparr>], 6, None)"
    by (simp add: DecodeWebSocketFrames_def decode_loop.simps decodeOneFrame_def check_header_def
        extended_length_def unmask_def MaxWebSocketPayloadSize_def)
  show ?thesis using decode_split_anywhere [OF a b] by simp
qed

text \<open>
  What the decoder lets through. Every frame returned has one of the five supported opcodes, a
  payload of at most 64 KB and, if it is a control frame, of at most 125 bytes; no more bytes are
  consumed than the buffer holds; and without an error the bytes left are an incomplete frame,
  fewer than 64 KB + 14, so an honest half packet never reaches the 130 KB limit of the read
  buffer.
\<close>

theorem decoded_frames_bounded:
  assumes "DecodeWebSocketFrames data = (fs, n, err)"
  shows "(\<forall>f \<in> set fs. acceptable f) \<and> n \<le> length data \<and>
         (err = None \<longrightarrow> length data - n < MaxWebSocketPayloadSize + 14 \<and> length data - n < 130 * 1024)"
proof -
  obtain fs' r e where s: "frame_stream data = (fs', r, e)" by (cases "frame_stream data")
  with assms have eq: "fs = (if err = None then fs' else [])" "n = length data - length r" "e = err"
    by (auto simp: DecodeWebSocketFrames_stream)
  have "length r < MaxWebSocketPayloadSize + 14" if "err = None"
    using decodeOneFrame_incomplete_short frame_stream_rest_incomplete s eq(3) that by fastforce
  moreover have "length r \<le> length data" using frame_stream_rest [OF s] by auto
  ultimately show ?thesis
    using frame_stream_acceptable [OF s] eq by (auto simp: MaxWebSocketPayloadSize_def)
qed

theorem decoded_frames_bounded_witness:
  "DecodeWebSocketFrames [0x81, 0x81, 0, 0, 0, 0, 65] = ([\<lparr>wf_Opcode = 1, wf_Payload = [65]\<rparr>], 7, None)
   \<and> acceptable \<lparr>wf_Opcode = 1, wf_Payload = [65]\<rparr>"
proof -
  have a: "DecodeWebSocketFrames [0x81, 0x81, 0, 0, 0, 0, 65]
      = ([\<lparr>wf_Opcode = 1, wf_Payload = [65]\<rparr>], 7, None)"
    by (simp add: DecodeWebSocketFrames_def decode_loop.simps decodeOneFrame_def check_header_def
        extended_length_def unmask_def MaxWebSocketPayloadSize_def)
  with decoded_frames_bounded [OF a] show ?thesis by simp
qed

text \<open>
  C16: decoding ends, and quickly. Whatever the buffer holds, one round of the loop per six bytes of it and one more
  suffice: the loop with this many rounds returns, and returns the decoder's result.
\<close>

theorem decode_terminates:
  "decode_within (length data div 6 + 1) data [] 0 = Some (DecodeWebSocketFrames data)"
proof -
  have "decode_within k data frames offset = Some (decode_loop data frames offset)"
    if "(length data - offset) div 6 < k" for k frames offset
    using that
  proof (induction k arbitrary: frames offset)
    case (Suc k)
    show ?case
    proof (cases "offset < length data")
      case False
      then show ?thesis by (simp add: decode_within.simps [of "Suc k"] decode_loop.simps [of data])
    next
      case True
      show ?thesis
      proof (cases "decodeOneFrame (drop offset data)")
        case (Inl e)
        then show ?thesis
          using True by (cases e) (simp_all add: decode_within.simps [of "Suc k"] decode_loop.simps [of data])
      next
        case (Inr r)
        obtain f n where r: "r = (f, n)" by (cases r)
        have n: "6 \<le> n" "n \<le> length data - offset" using decodeOneFrame_consumes [OF Inr [unfolded r]] by auto
        then have "(length data - (offset + n)) div 6 < k"
          using Suc.prems True by (simp add: div_less_iff_less_mult)
        then show ?thesis
          using Suc.IH True Inr r by (simp add: decode_within.simps [of "Suc k"] decode_loop.simps [of data frames offset])
      qed
    qed
  qed simp
  from this [of 0] show ?thesis by (simp add: DecodeWebSocketFrames_def)
qed

end
