(* ===== verification/Ws_Handshake.thy ===== *)
theory Ws_Handshake
  imports Go_Strings Ws_Decode
begin

text \<open>
  \<open>internal/server/websocket.go\<close>, first half: the WebSocket opening handshake. The key is taken from the
  header lines of the request, and the answer carries the Base64 form of a SHA-1 digest
  (\<open>crypto/sha1\<close> and \<open>encoding/base64\<close> of the standard library, modelled here).
\<close>

section \<open>Header lines\<close>

text \<open>\<open>strings.Split(text, "\r\n")\<close>, and \<open>strings.SplitN(line, ":", 2)\<close> with both parts present.\<close>

abbreviation CR :: char where "CR \<equiv> char_of (13 :: nat)"
abbreviation LF :: char where "LF \<equiv> char_of (10 :: nat)"

definition crlf :: string where "crlf = [CR, LF]"

function Split_crlf :: "string \<Rightarrow> string list" where
  "Split_crlf [] = [[]]"
| "Split_crlf (c # s) =
    (if c = CR \<and> s \<noteq> [] \<and> hd s = LF then [] # Split_crlf (tl s)
     else case Split_crlf s of l # ls \<Rightarrow> (c # l) # ls | [] \<Rightarrow> [[c]])"
  by pat_completeness auto
termination
  by (relation "measure length") auto

definition after_colon :: "string \<Rightarrow> string option" where
  "after_colon line =
    (case dropWhile (\<lambda>c. c \<noteq> CHR '':'') line of [] \<Rightarrow> None | _ # rest \<Rightarrow> Some rest)"

text \<open>
  \<open>strings.ToLower\<close>, as far as a search for ASCII text can tell: besides the ASCII capitals only U+0130
  and U+212A have a lower case in ASCII, \<open>i\<close> and \<open>k\<close>; every other byte outside ASCII becomes some bytes
  outside ASCII and is left as it is.
\<close>

definition lower_char :: "char \<Rightarrow> char" where
  "lower_char c = (let n = of_char c :: nat in if 65 \<le> n \<and> n \<le> 90 then char_of (n + 32) else c)"

function ToLower :: "string \<Rightarrow> string" where
  "ToLower [] = []"
| "ToLower (c # s) =
    (if prefix (map char_of [0xE2 :: nat, 0x84, 0xAA]) (c # s) then CHR ''k'' # ToLower (drop 2 s)
     else if prefix (map char_of [0xC4 :: nat, 0xB0]) (c # s) then CHR ''i'' # ToLower (drop 1 s)
     else lower_char c # ToLower s)"
  by pat_completeness auto
termination
  by (relation "measure length") auto

record header_scan =
  hasUpgrade :: bool
  hasConnectionUpgrade :: bool
  scan_key :: string

definition scan_line :: "header_scan \<Rightarrow> string \<Rightarrow> header_scan" where
  "scan_line st line =
    (let lowerLine = ToLower line;
         st = (if prefix ''upgrade:'' lowerLine \<and> Contains lowerLine ''websocket''
               then st\<lparr>hasUpgrade := True\<rparr> else st);
         st = (if prefix ''connection:'' lowerLine \<and> Contains lowerLine ''upgrade''
               then st\<lparr>hasConnectionUpgrade := True\<rparr> else st)
     in if prefix ''sec-websocket-key:'' lowerLine
        then (case after_colon line of None \<Rightarrow> st | Some v \<Rightarrow> st\<lparr>scan_key := TrimSpace v\<rparr>)
        else st)"

definition extractWebSocketKey :: "bytes \<Rightarrow> ws_error + string" where
  "extractWebSocketKey req =
    (let lines = Split_crlf (string_of_bytes req);
         st = foldl scan_line \<lparr>hasUpgrade = False, hasConnectionUpgrade = False, scan_key = ''''\<rparr> lines
     in if \<not> hasUpgrade st \<or> \<not> hasConnectionUpgrade st \<or> scan_key st = '''' then Inl ErrNotWebSocket
        else Inr (scan_key st))"

section \<open>SHA-1\<close>

definition rotl32 :: "nat \<Rightarrow> uint32 \<Rightarrow> uint32" where
  "rotl32 n w = push_bit n w OR drop_bit (32 - n) w"

definition sha1_pad :: "bytes \<Rightarrow> bytes" where
  "sha1_pad msg =
    msg @ [0x80] @ replicate ((119 - length msg mod 64) mod 64) 0 @ put_be 8 (8 * length msg)"

text \<open>The sixteen words of a block, and the schedule extended to eighty, newest word first.\<close>

fun be_words :: "bytes \<Rightarrow> uint32 list" where
  "be_words (a # b # c # d # rest) = of_nat (be_uint [a, b, c, d]) # be_words rest"
| "be_words _ = []"

fun extend_schedule :: "nat \<Rightarrow> uint32 list \<Rightarrow> uint32 list" where
  "extend_schedule 0 ws = ws"
| "extend_schedule (Suc n) ws =
    extend_schedule n (rotl32 1 (ws ! 2 XOR ws ! 7 XOR ws ! 13 XOR ws ! 15) # ws)"

definition sha1_schedule :: "uint32 list \<Rightarrow> uint32 list" where
  "sha1_schedule block = rev (extend_schedule 64 (rev block))"

type_synonym sha1_state = "uint32 \<times> uint32 \<times> uint32 \<times> uint32 \<times> uint32"

definition sha1_round :: "uint32 \<times> (uint32 \<Rightarrow> uint32 \<Rightarrow> uint32 \<Rightarrow> uint32) \<Rightarrow> sha1_state \<Rightarrow> uint32 \<Rightarrow> sha1_state" where
  "sha1_round kf s w =
    (case (kf, s) of ((k, f), (a, b, c, d, e)) \<Rightarrow> (rotl32 5 a + f b c d + e + w + k, a, rotl32 30 b, c, d))"

definition sha1_compress :: "sha1_state \<Rightarrow> uint32 list \<Rightarrow> sha1_state" where
  "sha1_compress s block =
    (let w = sha1_schedule block;
         ch = (\<lambda>b c d. (b AND c) OR (NOT b AND d));
         parity = (\<lambda>b c d. b XOR c XOR d);
         maj = (\<lambda>b c d. (b AND c) OR (b AND d) OR (c AND d));
         s1 = foldl (sha1_round (0x5A827999, ch)) s (take 20 w);
         s2 = foldl (sha1_round (0x6ED9EBA1, parity)) s1 (take 20 (drop 20 w));
         s3 = foldl (sha1_round (0x8F1BBCDC, maj)) s2 (take 20 (drop 40 w));
         s4 = foldl (sha1_round (0xCA62C1D6, parity)) s3 (drop 60 w)
     in case (s, s4) of
          ((a, b, c, d, e), (a', b', c', d', e')) \<Rightarrow> (a + a', b + b', c + c', d + d', e + e'))"

function sha1_blocks :: "sha1_state \<Rightarrow> uint32 list \<Rightarrow> sha1_state" where
  "sha1_blocks s ws = (if ws = [] then s else sha1_blocks (sha1_compress s (take 16 ws)) (drop 16 ws))"
  by pat_completeness auto
termination
  by (relation "measure (\<lambda>(s, ws). length ws)") auto

declare sha1_blocks.simps [simp del]

definition sha1 :: "bytes \<Rightarrow> bytes" where
  "sha1 msg =
    (case sha1_blocks (0x67452301, 0xEFCDAB89, 0x98BADCFE, 0x10325476, 0xC3D2E1F0) (be_words (sha1_pad msg)) of
       (a, b, c, d, e) \<Rightarrow> concat (map (put_be 4 \<circ> unat) [a, b, c, d, e]))"

section \<open>Base64\<close>

definition base64_alphabet :: string where
  "base64_alphabet = ''ABCDEFGHIJKLMNOPQRSTUVWXYZabcdefghijklmnopqrstuvwxyz0123456789+/''"

definition sextet :: "nat \<Rightarrow> char" where
  "sextet k = base64_alphabet ! k"

fun EncodeToString :: "bytes \<Rightarrow> string" where
  "EncodeToString (a # b # c # rest) =
    (let n = unat a * 65536 + unat b * 256 + unat c
     in sextet (n div 262144) # sextet (n div 4096 mod 64) # sextet (n div 64 mod 64) # sextet (n mod 64)
        # EncodeToString rest)"
| "EncodeToString [a, b] =
    (let n = unat a * 1024 + unat b * 4
     in [sextet (n div 4096), sextet (n div 64 mod 64), sextet (n mod 64), CHR ''=''])"
| "EncodeToString [a] =
    (let n = unat a * 16 in [sextet (n div 64), sextet (n mod 64), CHR ''='', CHR ''=''])"
| "EncodeToString [] = []"

section \<open>The answer\<close>

definition makeWebSocketAcceptKey :: "string \<Rightarrow> string" where
  "makeWebSocketAcceptKey key =
    EncodeToString (sha1 (bytes_of_string (key @ ''258EAFA5-E914-47DA-95CA-C5AB0DC85B11'')))"

definition BuildWebSocketHandshakeResponse :: "bytes \<Rightarrow> ws_error + bytes" where
  "BuildWebSocketHandshakeResponse req =
    (case extractWebSocketKey req of
       Inl err \<Rightarrow> Inl err
     | Inr key \<Rightarrow>
         let acceptKey = makeWebSocketAcceptKey key;
             resp = ''HTTP/1.1 101 Switching Protocols'' @ crlf @
                    ''Upgrade: websocket'' @ crlf @
                    ''Connection: Upgrade'' @ crlf @
                    ''Sec-WebSocket-Accept: '' @ acceptKey @ crlf @ crlf
         in Inr (bytes_of_string resp))"

section \<open>What the handshake accepts\<close>

definition upgrade_line :: "string \<Rightarrow> bool" where
  "upgrade_line l \<longleftrightarrow> prefix ''upgrade:'' (ToLower l) \<and> sublist ''websocket'' (ToLower l)"

definition connection_line :: "string \<Rightarrow> bool" where
  "connection_line l \<longleftrightarrow> prefix ''connection:'' (ToLower l) \<and> sublist ''upgrade'' (ToLower l)"

definition key_of_line :: "string \<Rightarrow> string option" where
  "key_of_line l =
    (if prefix ''sec-websocket-key:'' (ToLower l) then map_option TrimSpace (after_colon l) else None)"

lemma scan_line_eq:
  "scan_line st l =
    \<lparr>hasUpgrade = hasUpgrade st \<or> upgrade_line l,
     hasConnectionUpgrade = hasConnectionUpgrade st \<or> connection_line l,
     scan_key = (case key_of_line l of None \<Rightarrow> scan_key st | Some k \<Rightarrow> k)\<rparr>"
  by (cases st)
    (auto simp: scan_line_def upgrade_line_def connection_line_def key_of_line_def go_simps Let_def split: option.splits)

lemma scan_lines_eq:
  "foldl scan_line st ls =
    \<lparr>hasUpgrade = hasUpgrade st \<or> (\<exists>l \<in> set ls. upgrade_line l),
     hasConnectionUpgrade = hasConnectionUpgrade st \<or> (\<exists>l \<in> set ls. connection_line l),
     scan_key = last (scan_key st # List.map_filter key_of_line ls)\<rparr>"
proof (induction ls arbitrary: st)
  case Nil
  then show ?case by (simp add: List.map_filter_simps)
next
  case (Cons l ls)
  then show ?case
    by (auto simp: scan_line_eq List.map_filter_simps split: option.splits)
qed

lemma eq_char_of_iff: "c = char_of n \<longleftrightarrow> of_char c = take_bit 8 (n :: nat)"
  using char_of_eq_iff [of n c] by (simp add: eq_commute)

lemma Split_crlf_nonempty: "Split_crlf s \<noteq> []"
  by (induction s rule: Split_crlf.induct) (auto split: list.splits)

lemma Split_crlf_line:
  assumes "CR \<notin> set l"
  shows "Split_crlf (l @ crlf @ s) = l # Split_crlf s"
  using assms
proof (induction l)
  case Nil
  then show ?case by (simp add: crlf_def)
next
  case (Cons c l)
  then show ?case by (auto split: list.splits)
qed

text \<open>A request with the given lines, ended by an empty line.\<close>

definition request :: "string list \<Rightarrow> bytes" where
  "request ls = bytes_of_string (concat (map (\<lambda>l. l @ crlf) ls) @ crlf)"

lemma Split_request:
  assumes "\<forall>l \<in> set ls. CR \<notin> set l"
  shows "Split_crlf (string_of_bytes (request ls)) = ls @ [[], []]"
proof -
  have "Split_crlf (concat (map (\<lambda>l. l @ crlf) ls) @ s) = ls @ Split_crlf s" for s
    using assms by (induction ls) (auto simp: Split_crlf_line)
  moreover have "Split_crlf crlf = [[], []]" by (simp add: crlf_def)
  ultimately show ?thesis by (simp add: request_def)
qed

lemma ToLower_ascii:
  assumes "\<forall>c \<in> set a. (of_char c :: nat) < 128"
  shows "ToLower (a @ s) = map lower_char a @ ToLower s"
  using assms by (induction a) (auto simp: char_of_eq_iff)

lemma trim_front_space:
  assumes "untrimmed s"
  shows "trim_front spaces (CHR '' '' # s) = s"
proof -
  have "find (\<lambda>e. e \<noteq> [] \<and> prefix e (CHR '' '' # s)) spaces = Some [CHR '' '']"
    by (simp add: spaces_def space_encodings_def upt_rec char_of_eq_iff)
  then have "trim_front spaces (CHR '' '' # s) = trim_front spaces s"
    by (subst trim_front.simps) simp
  also have "\<dots> = s" using assms by (simp add: trim_front_none untrimmed_def)
  finally show ?thesis .
qed

lemma TrimSpace_space: "untrimmed s \<Longrightarrow> TrimSpace (CHR '' '' # s) = s"
  by (simp add: TrimSpace_def trim_front_space untrimmed_def trim_front_none suffix_to_prefix)

lemma key_line:
  assumes "untrimmed key"
  shows "key_of_line (''Sec-WebSocket-Key: '' @ key) = Some key"
proof -
  have "ToLower (''Sec-WebSocket-Key: '' @ key) = map lower_char ''Sec-WebSocket-Key: '' @ ToLower key"
    by (rule ToLower_ascii) simp
  also have "map lower_char ''Sec-WebSocket-Key: '' = ''sec-websocket-key: ''" by (simp add: lower_char_def char_of_eq_iff)
  finally show ?thesis
    using TrimSpace_space [OF assms] by (simp add: key_of_line_def after_colon_def)
qed

lemma last_key:
  assumes "\<forall>l \<in> set ls. key_of_line l \<noteq> None \<longrightarrow> l = K" and "key_of_line K = Some key"
  shows "last ([] # List.map_filter key_of_line ls) = (if K \<in> set ls then key else [])"
  using assms(1)
proof (induction ls rule: rev_induct)
  case Nil
  then show ?case by (simp add: List.map_filter_simps)
next
  case (snoc x xs)
  have "List.map_filter key_of_line (xs @ [x]) =
      List.map_filter key_of_line xs @ (case key_of_line x of None \<Rightarrow> [] | Some k \<Rightarrow> [k])"
    by (simp add: List.map_filter_def split: option.splits)
  then have split: "last ([] # List.map_filter key_of_line (xs @ [x])) =
      (case key_of_line x of None \<Rightarrow> last ([] # List.map_filter key_of_line xs) | Some k \<Rightarrow> k)"
    by (simp split: option.splits)
  show ?case
  proof (cases "key_of_line x")
    case None
    then have "x \<noteq> K" using assms(2) by auto
    then show ?thesis using None snoc unfolding split by simp
  next
    case (Some k)
    then have "x = K" using snoc.prems by simp
    then show ?thesis using Some assms(2) unfolding split by simp
  qed
qed

lemma handshake_outcome:
  assumes "\<forall>l \<in> set ls. CR \<notin> set l"
    and "\<forall>l \<in> set ls. key_of_line l \<noteq> None \<longrightarrow> l = ''Sec-WebSocket-Key: '' @ key"
    and "untrimmed key" and "key \<noteq> ''''"
  shows "BuildWebSocketHandshakeResponse (request ls) =
    (if (\<exists>l \<in> set ls. upgrade_line l) \<and> (\<exists>l \<in> set ls. connection_line l) \<and>
        ''Sec-WebSocket-Key: '' @ key \<in> set ls
     then Inr (request [''HTTP/1.1 101 Switching Protocols'', ''Upgrade: websocket'', ''Connection: Upgrade'',
       ''Sec-WebSocket-Accept: '' @ makeWebSocketAcceptKey key])
     else Inl ErrNotWebSocket)"
proof -
  define K where "K = ''Sec-WebSocket-Key: '' @ key"
  have K: "key_of_line K = Some key" unfolding K_def by (rule key_line [OF assms(3)])
  have empty: "\<not> upgrade_line []" "\<not> connection_line []" "key_of_line [] = None"
    by (simp_all add: upgrade_line_def connection_line_def key_of_line_def)
  then have "[] \<noteq> K" using K by auto
  with last_key [of "ls @ [[], []]" K key] assms(2) K empty
  have "last ([] # List.map_filter key_of_line (ls @ [[], []])) = (if K \<in> set ls then key else [])"
    unfolding K_def [symmetric] by simp
  moreover have "(\<exists>l \<in> set (ls @ [[], []]). upgrade_line l) \<longleftrightarrow> (\<exists>l \<in> set ls. upgrade_line l)"
    and "(\<exists>l \<in> set (ls @ [[], []]). connection_line l) \<longleftrightarrow> (\<exists>l \<in> set ls. connection_line l)"
    using empty by auto
  ultimately have "extractWebSocketKey (request ls) =
      (if (\<exists>l \<in> set ls. upgrade_line l) \<and> (\<exists>l \<in> set ls. connection_line l) \<and>
          K \<in> set ls
       then Inr key else Inl ErrNotWebSocket)"
    unfolding extractWebSocketKey_def Split_request [OF assms(1)] scan_lines_eq Let_def header_scan.simps
    using assms(4) by presburger
  then show ?thesis
    unfolding K_def [symmetric] BuildWebSocketHandshakeResponse_def Let_def
    by (cases "(\<exists>l \<in> set ls. upgrade_line l) \<and> (\<exists>l \<in> set ls. connection_line l) \<and> K \<in> set ls")
      (simp_all only: if_True if_False sum.case, simp_all add: request_def)
qed


text \<open>A request that is accepted.\<close>

definition hello :: bytes where
  "hello = request [''GET / HTTP/1.1'', ''Upgrade: websocket'', ''Connection: Upgrade'', ''Sec-WebSocket-Key: '' @ ''dGhlIHNhbXBsZSBub25jZQ=='']"

lemma hello_accepted: "\<exists>resp. BuildWebSocketHandshakeResponse hello = Inr resp"
proof -
  let ?ls = "[''GET / HTTP/1.1'', ''Upgrade: websocket'', ''Connection: Upgrade'', ''Sec-WebSocket-Key: '' @ ''dGhlIHNhbXBsZSBub25jZQ=='']"
  have cr: "\<forall>l \<in> set ?ls. CR \<notin> set l" by (simp add: char_of_eq_iff)
  have k: "\<forall>l \<in> set ?ls. key_of_line l \<noteq> None \<longrightarrow> l = ''Sec-WebSocket-Key: '' @ ''dGhlIHNhbXBsZSBub25jZQ==''"
    by (simp add: key_of_line_def char_of_eq_iff lower_char_def)
  have u: "untrimmed ''dGhlIHNhbXBsZSBub25jZQ==''" by (rule untrimmed_ascii) simp
  have "upgrade_line ''Upgrade: websocket''" "connection_line ''Connection: Upgrade''"
    by (simp_all add: upgrade_line_def connection_line_def char_of_eq_iff eq_char_of_iff lower_char_def sublist_Cons_right)
  then show ?thesis using handshake_outcome [OF cr k u] by (simp add: hello_def sublist_Cons_right)
qed

lemma hello_length: "length hello \<le> 4096"
  by (simp add: hello_def request_def bytes_of_string_def crlf_def)

lemma hello_ends: "sublist (crlf @ crlf) (string_of_bytes hello)"
proof -
  have "string_of_bytes (request (ls @ [l])) = (concat (map (\<lambda>l. l @ crlf) ls) @ l) @ (crlf @ crlf) @ []" for ls l
    by (simp add: request_def)
  from this [of "[''GET / HTTP/1.1'', ''Upgrade: websocket'', ''Connection: Upgrade'']"
      "''Sec-WebSocket-Key: '' @ ''dGhlIHNhbXBsZSBub25jZQ==''"]
  show ?thesis unfolding hello_def append.simps(1,2) by (metis sublist_appendI)
qed


end
