(* ===== verification/Event_Handler.thy ===== *)
theory Event_Handler
  imports App_Core Ws_Handshake
begin

text \<open>
  \<open>internal/server/event_handler.go\<close>: the callbacks gnet makes for a connection, and the node as a state
  machine: connections that open, send and close, worker tasks that run at any later time, and the
  background ticks. The invariant of the reachable states ties the connection count and the table of
  connections to the open connections.

  The argument \<open>h\<close> of a callback says whether the handler has an application (the tests on \<open>h.App\<close>).
\<close>

section \<open>The callbacks\<close>

datatype action = ActNone | ActClose

definition OnOpen :: "bool \<Rightarrow> int64 \<Rightarrow> conn \<Rightarrow> node \<Rightarrow> action \<times> node" where
  "OnOpen h now c n =
    (let a = napp n
     in if h \<and> sint (CurrConnCount a + 1) > sint (MaxConns (Cfg a)) then
          (ActClose, n\<lparr>napp := a\<lparr>CurrConnCount := (CurrConnCount a + 1) + (- 1)\<rparr>\<rparr>)
        else
          let (connID, seq) = (if h then NextConnID (connSeq n) else ('''', connSeq n));
              ctx = (new_ConnContext connID)\<lparr>LastActiveTime := now\<rparr>;
              n = n\<lparr>connSeq := seq, nctx := (nctx n)(c \<mapsto> ctx)\<rparr>
          in (ActNone,
              if h then n\<lparr>napp := a\<lparr>CurrConnCount := CurrConnCount a + 1,
                                   AllConns := AList.update connID c (AllConns a)\<rparr>\<rparr>
              else n))"

text \<open>What a callback asks for besides its action: a write, or a task for the worker pool.\<close>

datatype traffic_effect = Reply net_action | Submit InboundTask

definition contains_crlf2 :: "bytes \<Rightarrow> bool" where
  "contains_crlf2 b = Contains (string_of_bytes b) (crlf @ crlf)"

text \<open>\<open>received\<close> is the answer of \<open>c.Next(-1)\<close>: all bytes gnet holds, or an error.\<close>

definition handleHandshake ::
  "bytes option \<Rightarrow> conn \<Rightarrow> ConnContext \<Rightarrow> node \<Rightarrow> action \<times> traffic_effect list \<times> node" where
  "handleHandshake received c ctx n =
    (case received of
       None \<Rightarrow> (ActClose, [], n)
     | Some data \<Rightarrow>
       let ctx = ctx\<lparr>HandshakeBuffer := HandshakeBuffer ctx @ data\<rparr>;
           n = n\<lparr>nctx := (nctx n)(c \<mapsto> ctx)\<rparr>
       in if length (HandshakeBuffer ctx) > 4096 then (ActClose, [], n)
          else if \<not> contains_crlf2 (HandshakeBuffer ctx) then (ActNone, [], n)
          else case BuildWebSocketHandshakeResponse (HandshakeBuffer ctx) of
                 Inl err \<Rightarrow> (ActClose, [], n)
               | Inr resp \<Rightarrow>
                   (ActNone, [Reply (AsyncWrite c resp)],
                    n\<lparr>nctx := (nctx n)(c \<mapsto> ctx\<lparr>HandshakeDone := True, HandshakeBuffer := []\<rparr>)\<rparr>))"

definition close_payload :: "bytes \<Rightarrow> bytes" where
  "close_payload payload =
    (let closeCode = (if length payload \<ge> 2 then be_uint (take 2 payload) else 1000)
     in put_be 2 closeCode)"

text \<open>
  The loop over the decoded frames. \<open>accepts k\<close> is the answer of the worker pool to the \<open>k\<close>-th submission:
  a refused task is dropped.
\<close>

fun serve_frames ::
  "bool \<Rightarrow> (nat \<Rightarrow> bool) \<Rightarrow> conn \<Rightarrow> nat \<Rightarrow> WebSocketFrame list \<Rightarrow> action \<times> traffic_effect list" where
  "serve_frames h accepts c k [] = (ActNone, [])"
| "serve_frames h accepts c k (frame # frames) =
    (if wf_Opcode frame = OpPing then
       (case serve_frames h accepts c k frames of
          (act, es) \<Rightarrow> (act, Reply (AsyncWrite c (BuildPongFrame (wf_Payload frame))) # es))
     else if wf_Opcode frame = OpClose then
       (ActClose, [Reply (AsyncWrite c (BuildCloseFrame (close_payload (wf_Payload frame))))])
     else if wf_Opcode frame = OpBinary then
       (if \<not> h then serve_frames h accepts c k frames
        else case serve_frames h accepts c (Suc k) frames of
               (act, es) \<Rightarrow>
                 (act, if accepts k then Submit \<lparr>task_Conn = c, task_Data = wf_Payload frame\<rparr> # es else es))
     else serve_frames h accepts c k frames)"

definition handleWebSocketTraffic ::
  "bool \<Rightarrow> (nat \<Rightarrow> bool) \<Rightarrow> bytes option \<Rightarrow> conn \<Rightarrow> ConnContext \<Rightarrow> node \<Rightarrow>
   action \<times> traffic_effect list \<times> node" where
  "handleWebSocketTraffic h accepts received c ctx n =
    (case received of
       None \<Rightarrow> (ActClose, [], n)
     | Some data \<Rightarrow>
       let ctx = ctx\<lparr>ReadBuffer := ReadBuffer ctx @ data\<rparr>;
           n = n\<lparr>nctx := (nctx n)(c \<mapsto> ctx)\<rparr>
       in if length (ReadBuffer ctx) > 130 * 1024 then (ActClose, [], n)
          else case DecodeWebSocketFrames (ReadBuffer ctx) of
                 (frames, consumed, Some err) \<Rightarrow> (ActClose, [], n)
               | (frames, consumed, None) \<Rightarrow>
                   let n = (if consumed > 0
                            then n\<lparr>nctx := (nctx n)(c \<mapsto> ctx\<lparr>ReadBuffer := drop consumed (ReadBuffer ctx)\<rparr>)\<rparr>
                            else n)
                   in case serve_frames h accepts c 0 frames of (act, es) \<Rightarrow> (act, es, n))"

definition OnTraffic ::
  "bool \<Rightarrow> int64 \<Rightarrow> (nat \<Rightarrow> bool) \<Rightarrow> bytes option \<Rightarrow> conn \<Rightarrow> node \<Rightarrow> action \<times> traffic_effect list \<times> node" where
  "OnTraffic h now accepts received c n =
    (case nctx n c of
       None \<Rightarrow> (ActClose, [], n)
     | Some ctx \<Rightarrow>
       let ctx = ctx\<lparr>LastActiveTime := now\<rparr>;
           n = n\<lparr>nctx := (nctx n)(c \<mapsto> ctx)\<rparr>
       in if \<not> HandshakeDone ctx then handleHandshake received c ctx n
          else handleWebSocketTraffic h accepts received c ctx n)"

text \<open>\<open>now\<close> is the clock reading of \<open>RemoveConnInLoop\<close>.\<close>

definition OnClose :: "bool \<Rightarrow> int64 \<Rightarrow> conn \<Rightarrow> node \<Rightarrow> action \<times> node" where
  "OnClose h now c n =
    (case nctx n c of
       None \<Rightarrow> (ActNone, n)
     | Some ctx \<Rightarrow>
       if \<not> h then (ActNone, n)
       else
         let a = napp n;
             a = a\<lparr>AllConns := AList.delete (ConnID ctx) (AllConns a), CurrConnCount := CurrConnCount a + (- 1)\<rparr>;
             a = (if 0 < sint (RoomID ctx) \<and> 0 < sint (UserID ctx) then
                    a\<lparr>RoomManager := RemoveConnInLoop now (RoomManager a) (RoomID ctx) (LoopIdx ctx) (ConnID ctx),
                      userConnCount := RemoveUserConn (userConnCount a) (UserID ctx)\<rparr>
                  else a)
         in (ActNone, n\<lparr>napp := a\<rparr>))"

section \<open>What inbound traffic keeps\<close>

text \<open>
  \<open>same_conns n n'\<close>: the table, the count and the sequence of connections agree, the contexts exist for
  the same connections and keep their ids.
\<close>

definition same_conns :: "node \<Rightarrow> node \<Rightarrow> bool" where
  "same_conns n n' \<longleftrightarrow>
     AllConns (napp n') = AllConns (napp n) \<and> CurrConnCount (napp n') = CurrConnCount (napp n) \<and>
     connSeq n' = connSeq n \<and> Cfg (napp n') = Cfg (napp n) \<and>
     (\<forall>c. map_option ConnID (nctx n' c) = map_option ConnID (nctx n c))"

lemma same_conns_refl [simp, intro]: "same_conns n n"
  by (simp add: same_conns_def)

lemma same_conns_trans: "same_conns n n' \<Longrightarrow> same_conns n' n'' \<Longrightarrow> same_conns n n''"
  by (simp add: same_conns_def)

lemma handleHandshake_same:
  "nctx n c = Some ctx0 \<Longrightarrow> ConnID ctx = ConnID ctx0 \<Longrightarrow> same_conns n (snd (snd (handleHandshake received c ctx n)))"
  by (auto simp: handleHandshake_def same_conns_def Let_def split: option.splits sum.splits)

lemma handleWebSocketTraffic_same:
  "nctx n c = Some ctx0 \<Longrightarrow> ConnID ctx = ConnID ctx0 \<Longrightarrow>
   same_conns n (snd (snd (handleWebSocketTraffic h accepts received c ctx n)))"
  by (auto simp: handleWebSocketTraffic_def same_conns_def Let_def split: option.splits prod.splits)

lemma OnTraffic_same: "same_conns n (snd (snd (OnTraffic h now accepts received c n)))"
proof (cases "nctx n c")
  case None
  then show ?thesis by (simp add: OnTraffic_def)
next
  case (Some ctx)
  let ?ctx = "ctx\<lparr>LastActiveTime := now\<rparr>"
  let ?n = "n\<lparr>nctx := (nctx n)(c \<mapsto> ?ctx)\<rparr>"
  have "same_conns n ?n" using Some by (simp add: same_conns_def)
  then have "same_conns n (snd (snd (handleHandshake received c ?ctx ?n)))"
    and "same_conns n (snd (snd (handleWebSocketTraffic h accepts received c ?ctx ?n)))"
    using handleHandshake_same [of ?n c ?ctx ?ctx] handleWebSocketTraffic_same [of ?n c ?ctx ?ctx]
    by (auto intro: same_conns_trans)
  then show ?thesis using Some by (simp add: OnTraffic_def Let_def)
qed

lemma broadcast_here_same: "same_conns n (snd (broadcast_here env e n))"
  by (auto simp: broadcast_here_def same_conns_def split: prod.splits)

lemma handleJoinRoom_same:
  "nctx n c = Some ctx \<Longrightarrow> same_conns n (snd (handleJoinRoom env cdc c ctx frame n))"
  by (auto simp: handleJoinRoom_def same_conns_def Let_def split: option.splits prod.splits bool.splits)

lemma handleChat_same: "same_conns n (snd (handleChat env cdc c ctx frame n))"
proof -
  have "same_conns n (n\<lparr>napp := (napp n)\<lparr>AppLimiter := lim\<rparr>\<rparr>)" for lim
    by (simp add: same_conns_def)
  then have "same_conns n (snd (broadcast_here env e (n\<lparr>napp := (napp n)\<lparr>AppLimiter := lim\<rparr>\<rparr>)))" for e lim
    using broadcast_here_same same_conns_trans by blast
  then show ?thesis
    by (auto simp: handleChat_def Let_def split: prod.splits option.splits) (auto simp: same_conns_def)
qed

lemma HandleInbound_same: "same_conns n (snd (HandleInbound env cdc t n))"
  by (auto simp: HandleInbound_def handleHeartbeat_def handleJoinRoom_same handleChat_same split: option.splits)

section \<open>The node as a state machine\<close>

text \<open>
  \<open>opened\<close> are the connections whose \<open>OnOpen\<close> was accepted and whose \<open>OnClose\<close> did not run yet, \<open>seen\<close> all
  connections gnet ever announced, \<open>pend\<close> the tasks the worker pool accepted and did not run yet, and
  \<open>issued\<close> the number of connection ids handed out.
\<close>

record sys =
  nd :: node
  opened :: "conn set"
  seen :: "conn set"
  pend :: "InboundTask list"
  issued :: nat

definition start_sys :: "app \<Rightarrow> sys" where
  "start_sys a = \<lparr>nd = new_node a, opened = {}, seen = {}, pend = [], issued = 0\<rparr>"

fun submitted :: "traffic_effect list \<Rightarrow> InboundTask list" where
  "submitted [] = []"
| "submitted (Submit t # es) = t # submitted es"
| "submitted (Reply a # es) = submitted es"

inductive sys_step :: "codec \<Rightarrow> sys \<Rightarrow> sys \<Rightarrow> bool" for cdc where
  open_accepted: "c \<notin> seen s \<Longrightarrow> OnOpen True now c (nd s) = (ActNone, n) \<Longrightarrow>
    sys_step cdc s (s\<lparr>nd := n, opened := insert c (opened s), seen := insert c (seen s), issued := Suc (issued s)\<rparr>)"
| open_refused: "c \<notin> seen s \<Longrightarrow> OnOpen True now c (nd s) = (ActClose, n) \<Longrightarrow>
    sys_step cdc s (s\<lparr>nd := n, seen := insert c (seen s)\<rparr>)"
| traffic: "c \<in> opened s \<Longrightarrow> OnTraffic True now accepts received c (nd s) = (act, es, n) \<Longrightarrow>
    sys_step cdc s (s\<lparr>nd := n, pend := pend s @ submitted es\<rparr>)"
| work: "pend s = ts @ t # us \<Longrightarrow> HandleInbound env cdc (Some t) (nd s) = (es, n) \<Longrightarrow>
    sys_step cdc s (s\<lparr>nd := n, pend := ts @ us\<rparr>)"
| closed: "c \<in> opened s \<Longrightarrow> OnClose True now c (nd s) = (act, n) \<Longrightarrow>
    sys_step cdc s (s\<lparr>nd := n, opened := opened s - {c}\<rparr>)"
| heartbeat: "heartbeat_tick now (nd s) = (es, n) \<Longrightarrow> sys_step cdc s (s\<lparr>nd := n\<rparr>)"
| clean: "sys_step cdc s (s\<lparr>nd := (nd s)\<lparr>napp := (napp (nd s))\<lparr>RoomManager :=
      room_cleaner_tick (RoomManager (napp (nd s))) now 180\<rparr>\<rparr>\<rparr>)"
| kick: "KickUser env u reason (nd s) = (es, n) \<Longrightarrow> sys_step cdc s (s\<lparr>nd := n\<rparr>)"
| announce: "BroadcastSystemMsg env cdc room content msgType (nd s) = (es, n) \<Longrightarrow> sys_step cdc s (s\<lparr>nd := n\<rparr>)"
| announce_all: "BroadcastGlobalSystemMsg env cdc content msgType (nd s) = (es, n) \<Longrightarrow> sys_step cdc s (s\<lparr>nd := n\<rparr>)"
| reload: "sys_step cdc s (s\<lparr>nd := StartTextFilterReload ticks (nd s)\<rparr>)"

inductive_cases sys_stepE: "sys_step cdc s s'"

inductive runs_to :: "codec \<Rightarrow> sys \<Rightarrow> sys \<Rightarrow> bool" for cdc s where
  refl: "runs_to cdc s s"
| step: "runs_to cdc s s1 \<Longrightarrow> sys_step cdc s1 s2 \<Longrightarrow> runs_to cdc s s2"

text \<open>
  \<open>conn_inv\<close>: the count is the number of open connections and within the limit; the ids issued are the
  decimals of the first numbers, different for different connections; the table holds, under its id,
  only open connections.
\<close>

definition ids_ok :: "contexts \<Rightarrow> nat \<Rightarrow> bool" where
  "ids_ok ctxs k \<longleftrightarrow>
     (\<forall>c ctx. ctxs c = Some ctx \<longrightarrow> (\<exists>j. 1 \<le> j \<and> j \<le> k \<and> ConnID ctx = FormatUint (of_nat j))) \<and>
     (\<forall>c d ctx ctx'. ctxs c = Some ctx \<longrightarrow> ctxs d = Some ctx' \<longrightarrow> ConnID ctx = ConnID ctx' \<longrightarrow> c = d)"

definition table_ok :: "node \<Rightarrow> conn set \<Rightarrow> bool" where
  "table_ok n opn \<longleftrightarrow> keys_distinct (AllConns (napp n)) \<and>
     (\<forall>(k, c) \<in> set (AllConns (napp n)). c \<in> opn \<and> (\<exists>ctx. nctx n c = Some ctx \<and> ConnID ctx = k))"

definition conn_inv :: "nat \<Rightarrow> sys \<Rightarrow> bool" where
  "conn_inv limit s \<longleftrightarrow>
     finite (opened s) \<and> opened s \<subseteq> dom (nctx (nd s)) \<and> dom (nctx (nd s)) \<subseteq> seen s \<and>
     CurrConnCount (napp (nd s)) = of_nat (card (opened s)) \<and> card (opened s) \<le> limit \<and>
     sint (MaxConns (Cfg (napp (nd s)))) = int limit \<and>
     connSeq (nd s) = of_nat (issued s) \<and> ids_ok (nctx (nd s)) (issued s) \<and> table_ok (nd s) (opened s)"

lemma same_conns_ctx:
  assumes "same_conns n n'"
  shows "dom (nctx n') = dom (nctx n)"
    and "nctx n' c = Some ctx' \<Longrightarrow> \<exists>ctx. nctx n c = Some ctx \<and> ConnID ctx = ConnID ctx'"
    and "nctx n c = Some ctx \<Longrightarrow> \<exists>ctx'. nctx n' c = Some ctx' \<and> ConnID ctx' = ConnID ctx"
proof -
  have eq: "map_option ConnID (nctx n' c) = map_option ConnID (nctx n c)" for c
    using assms by (simp add: same_conns_def)
  have "c \<in> dom (nctx n') \<longleftrightarrow> c \<in> dom (nctx n)" for c
    using eq [of c] by (cases "nctx n c"; cases "nctx n' c") (auto simp: domIff)
  then show "dom (nctx n') = dom (nctx n)" by blast
  show "nctx n' c = Some ctx' \<Longrightarrow> \<exists>ctx. nctx n c = Some ctx \<and> ConnID ctx = ConnID ctx'"
    and "nctx n c = Some ctx \<Longrightarrow> \<exists>ctx'. nctx n' c = Some ctx' \<and> ConnID ctx' = ConnID ctx"
    using eq [of c] by (cases "nctx n c"; cases "nctx n' c"; simp)+
qed

lemma same_conns_ids_ok: "same_conns n n' \<Longrightarrow> ids_ok (nctx n) k \<Longrightarrow> ids_ok (nctx n') k"
  unfolding ids_ok_def using same_conns_ctx(2) by metis

lemma same_conns_table_ok: "same_conns n n' \<Longrightarrow> table_ok n opn \<Longrightarrow> table_ok n' opn"
  unfolding table_ok_def using same_conns_ctx(3) by (fastforce simp: same_conns_def)

lemma same_conns_inv:
  assumes "same_conns (nd s) n" and "conn_inv limit s"
  shows "conn_inv limit (s\<lparr>nd := n, pend := p\<rparr>)"
  using assms same_conns_ids_ok [OF assms(1)] same_conns_table_ok [OF assms(1)] same_conns_ctx(1) [OF assms(1)]
  by (simp add: conn_inv_def) (simp add: same_conns_def)

lemma OnOpen_cases:
  assumes "OnOpen True now c n = (act, n')"
  shows "(act = ActClose \<and> same_conns n n') \<or>
    (act = ActNone \<and> sint (CurrConnCount (napp n) + 1) \<le> sint (MaxConns (Cfg (napp n))) \<and>
     CurrConnCount (napp n') = CurrConnCount (napp n) + 1 \<and> Cfg (napp n') = Cfg (napp n) \<and>
     connSeq n' = connSeq n + 1 \<and>
     (\<exists>ctx. nctx n' = (nctx n)(c \<mapsto> ctx) \<and> ConnID ctx = FormatUint (connSeq n + 1) \<and> RoomID ctx = 0) \<and>
     AllConns (napp n') = AList.update (FormatUint (connSeq n + 1)) c (AllConns (napp n)))"
  using assms
  by (auto simp: OnOpen_def Let_def NextConnID_def same_conns_def new_ConnContext_def split: if_splits)

lemma ids_ok_new:
  assumes "ids_ok ctxs k" and "ctxs c = None" and "ConnID ctx = FormatUint (of_nat (Suc k))" and "Suc k < 2 ^ 64"
  shows "ids_ok (ctxs(c \<mapsto> ctx)) (Suc k)"
proof -
  have old: "\<exists>j. 1 \<le> j \<and> j \<le> k \<and> ConnID e = FormatUint (of_nat j)" if "ctxs d = Some e" for d e
    using assms(1) that by (simp add: ids_ok_def)
  have fresh: "ConnID e \<noteq> ConnID ctx" if e: "ctxs d = Some e" for d e
  proof
    assume eq: "ConnID e = ConnID ctx"
    obtain j where j: "j \<le> k" "ConnID e = FormatUint (of_nat j)" using old [OF e] by blast
    then have "(of_nat j :: uint64) = of_nat (Suc k)" using eq assms(3) by simp
    then show False using j(1) assms(4) by (subst (asm) of_nat_word_inject_small) simp_all
  qed
  show ?thesis
    unfolding ids_ok_def
  proof (intro conjI allI impI)
    fix d e assume "(ctxs(c \<mapsto> ctx)) d = Some e"
    then show "\<exists>j. 1 \<le> j \<and> j \<le> Suc k \<and> ConnID e = FormatUint (of_nat j)"
      using old [of d e] assms(3) by (cases "d = c") (auto simp: le_Suc_eq simp del: of_nat_Suc)
  next
    fix d d' e e'
    assume "(ctxs(c \<mapsto> ctx)) d = Some e" "(ctxs(c \<mapsto> ctx)) d' = Some e'" "ConnID e = ConnID e'"
    then show "d = d'"
      using fresh [of d e] fresh [of d' e'] assms(1) by (auto simp: ids_ok_def split: if_splits)
  qed
qed

lemma table_ok_open:
  assumes "table_ok n opn" and "nctx n' = (nctx n)(c \<mapsto> ctx)" and "nctx n c = None"
    and "AllConns (napp n') = AList.update (ConnID ctx) c (AllConns (napp n))"
  shows "table_ok n' (insert c opn)"
  unfolding table_ok_def assms(4)
proof (intro conjI ballI)
  show "keys_distinct (AList.update (ConnID ctx) c (AllConns (napp n)))"
    using assms(1) by (simp add: table_ok_def distinct_update)
next
  fix e assume e: "e \<in> set (AList.update (ConnID ctx) c (AllConns (napp n)))"
  obtain k d where kd: "e = (k, d)" by (cases e)
  have "keys_distinct (AList.update (ConnID ctx) c (AllConns (napp n)))"
    using assms(1) by (simp add: table_ok_def distinct_update)
  then have "map_of (AList.update (ConnID ctx) c (AllConns (napp n))) k = Some d"
    using e unfolding kd by (rule map_of_is_SomeI)
  then have "k = ConnID ctx \<and> d = c \<or> (k, d) \<in> set (AllConns (napp n))"
    by (auto split: if_splits dest: map_of_SomeD)
  then show "case e of (k, d) \<Rightarrow> d \<in> insert c opn \<and> (\<exists>x. nctx n' d = Some x \<and> ConnID x = k)"
    using assms(1-3) by (auto simp: kd table_ok_def)
qed

lemma conn_inv_open:
  assumes inv: "conn_inv limit s" and new: "c \<notin> seen s" and op: "OnOpen True now c (nd s) = (ActNone, n)"
    and lim: "limit < 2 ^ 62" "Suc (issued s) < 2 ^ 64"
  shows "conn_inv limit (s\<lparr>nd := n, opened := insert c (opened s), seen := insert c (seen s), issued := Suc (issued s)\<rparr>)"
proof -
  note o = OnOpen_cases [OF op]
  have none: "nctx (nd s) c = None" using inv new by (auto simp: conn_inv_def)
  have cnt: "CurrConnCount (napp (nd s)) + 1 = of_nat (Suc (card (opened s)))"
    using inv by (simp add: conn_inv_def)
  have le: "card (opened s) \<le> limit" using inv by (simp add: conn_inv_def)
  have "sint (of_nat (Suc (card (opened s))) :: int64) = int (Suc (card (opened s)))"
    using le lim(1) by (intro sint_of_nat_small) simp
  then have "int (Suc (card (opened s))) \<le> int limit"
    using o inv unfolding cnt by (auto simp: conn_inv_def)
  then have room: "Suc (card (opened s)) \<le> limit" by simp
  have card: "card (insert c (opened s)) = Suc (card (opened s))"
    using inv none by (intro card_insert_disjoint) (auto simp: conn_inv_def domIff)
  have seq: "connSeq (nd s) + 1 = of_nat (Suc (issued s))" using inv by (simp add: conn_inv_def)
  obtain ctx where ctx: "nctx n = (nctx (nd s))(c \<mapsto> ctx)" "ConnID ctx = FormatUint (of_nat (Suc (issued s)))"
    using o unfolding seq by auto
  have "AllConns (napp n) = AList.update (ConnID ctx) c (AllConns (napp (nd s)))"
    using o unfolding seq ctx(2) by auto
  from table_ok_open [OF _ ctx(1) none this] inv
  have t: "table_ok n (insert c (opened s))" by (simp add: conn_inv_def)
  have "ids_ok (nctx n) (Suc (issued s))"
    unfolding ctx(1) using inv lim(2) none ctx(2) by (intro ids_ok_new) (simp_all add: conn_inv_def)
  then show ?thesis
    using o inv t card room cnt seq ctx(1) unfolding conn_inv_def by (auto simp del: of_nat_Suc)
qed

lemma conn_inv_close:
  assumes inv: "conn_inv limit s" and c: "c \<in> opened s" and cl: "OnClose True now c (nd s) = (act, n)"
  shows "conn_inv limit (s\<lparr>nd := n, opened := opened s - {c}\<rparr>)"
proof -
  obtain ctx where ctx: "nctx (nd s) c = Some ctx" using inv c by (auto simp: conn_inv_def)
  have fin: "finite (opened s)" using inv by (simp add: conn_inv_def)
  then have card: "card (opened s) = Suc (card (opened s - {c}))" using c by (rule card.remove)
  have n: "nctx n = nctx (nd s)" "connSeq n = connSeq (nd s)" "Cfg (napp n) = Cfg (napp (nd s))"
    "AllConns (napp n) = AList.delete (ConnID ctx) (AllConns (napp (nd s)))"
    "CurrConnCount (napp n) = CurrConnCount (napp (nd s)) - 1"
    using cl ctx by (auto simp: OnClose_def Let_def)
  have "table_ok n (opened s - {c})"
    using inv ctx unfolding conn_inv_def table_ok_def n(1,4) delete_filter
    by (auto simp: distinct_map_filter)
  then show ?thesis
    using inv card n by (auto simp: conn_inv_def)
qed

lemma post_same: "same_conns n (snd (post env i t n))"
  by (auto simp: post_def same_conns_def Let_def split: prod.splits)

lemma range_conns_same:
  "(\<And>c m. same_conns m (snd (f c m))) \<Longrightarrow> same_conns n (snd (range_conns f tab n))"
  by (induction f tab n rule: range_conns.induct) (auto split: prod.splits, metis same_conns_trans snd_conv)

lemma KickUser_same: "same_conns n (snd (KickUser env u reason n))"
proof -
  have "same_conns m (snd (KickConn env k reason m))" for k m
    by (auto simp: KickConn_def post_same split: option.splits)
  then show ?thesis by (auto simp: KickUser_def split: option.splits intro!: range_conns_same)
qed

lemma BroadcastSystemMsg_same: "same_conns n (snd (BroadcastSystemMsg env cdc room content msgType n))"
proof -
  let ?e = "\<lambda>d. \<lparr>e_MsgType = 0, e_IdempotencyKey = '''', e_RoomId = room, e_UserId = 0,
      e_SenderConnId = ''SYSTEM'', e_IsPremium = True, e_Payload = d, e_Timestamp = envelope_ms env, e_VideoTs = 0\<rparr>"
  have "same_conns n (snd (broadcast_here env e (n\<lparr>nmet := mt\<rparr>)))" for e mt
    using broadcast_here_same [of "n\<lparr>nmet := mt\<rparr>" env e] by (simp add: same_conns_def)
  then show ?thesis
    by (auto simp: BroadcastSystemMsg_def Let_def broadcast_here_same split: prod.splits option.splits)
      (metis snd_conv)
qed

lemma BroadcastGlobalSystemMsg_same: "same_conns n (snd (BroadcastGlobalSystemMsg env cdc content msgType n))"
  by (auto simp: BroadcastGlobalSystemMsg_def Let_def post_same split: option.splits intro!: range_conns_same)

lemma StartTextFilterReload_same: "same_conns n (StartTextFilterReload ticks n)"
  by (simp add: StartTextFilterReload_def same_conns_def split: option.splits)

lemma conn_inv_heartbeat:
  assumes inv: "conn_inv limit s" and hb: "heartbeat_tick now (nd s) = (es, n)"
  shows "conn_inv limit (s\<lparr>nd := n\<rparr>)"
proof -
  have "keyed (nctx (nd s)) (AllConns (napp (nd s)))"
    using inv by (fastforce simp: conn_inv_def table_ok_def keyed_def)
  from heartbeat_survivors [OF this, of now] hb
  have n: "n = (nd s)\<lparr>napp := (napp (nd s))\<lparr>AllConns := filter (\<lambda>(k, c). \<not> idle_conn now (nctx (nd s)) c) (AllConns (napp (nd s)))\<rparr>\<rparr>"
    by (simp add: heartbeat_tick_def heartbeat_range)
  have "table_ok n (opened s)"
    using inv by (auto simp: conn_inv_def table_ok_def n distinct_map_filter)
  then show ?thesis using inv by (simp add: conn_inv_def n)
qed

lemma conn_inv_step:
  assumes "sys_step cdc s s'" and "conn_inv limit s" and "limit < 2 ^ 62" and "issued s' < 2 ^ 64"
  shows "conn_inv limit s'"
  using assms(1)
proof cases
  case (open_accepted c now n)
  then show ?thesis using conn_inv_open assms by simp
next
  case (open_refused c now n)
  have "same_conns (nd s) n" using OnOpen_cases [OF open_refused(3)] by simp
  from same_conns_inv [OF this assms(2), of "pend s"] have "conn_inv limit (s\<lparr>nd := n\<rparr>)" by simp
  then show ?thesis unfolding open_refused(1) by (auto simp: conn_inv_def)
next
  case (traffic c now accepts received act es n)
  have "same_conns (nd s) n" using OnTraffic_same [of "nd s" True now accepts received c] traffic(3) by simp
  then show ?thesis unfolding traffic(1) using assms(2) by (rule same_conns_inv)
next
  case (work ts t us env es n)
  have "same_conns (nd s) n" using HandleInbound_same [of "nd s" env cdc "Some t"] work(3) by simp
  then show ?thesis unfolding work(1) using assms(2) by (rule same_conns_inv)
next
  case (closed c now act n)
  then show ?thesis using conn_inv_close assms(2) by simp
next
  case (heartbeat now es n)
  then show ?thesis using conn_inv_heartbeat assms(2) by simp
next
  case (clean now)
  then show ?thesis using assms(2) by (simp add: conn_inv_def table_ok_def)
next
  case (kick env u reason es n)
  have "same_conns (nd s) n" using KickUser_same [of "nd s" env u reason] kick(2) by simp
  from same_conns_inv [OF this assms(2), of "pend s"] show ?thesis unfolding kick(1) by simp
next
  case (announce env room content msgType es n)
  have "same_conns (nd s) n" using BroadcastSystemMsg_same [of "nd s" env cdc room content msgType] announce(2) by simp
  from same_conns_inv [OF this assms(2), of "pend s"] show ?thesis unfolding announce(1) by simp
next
  case (announce_all env content msgType es n)
  have "same_conns (nd s) n" using BroadcastGlobalSystemMsg_same [of "nd s" env cdc content msgType] announce_all(2) by simp
  from same_conns_inv [OF this assms(2), of "pend s"] show ?thesis unfolding announce_all(1) by simp
next
  case (reload ticks)
  from same_conns_inv [OF StartTextFilterReload_same assms(2), of "pend s" ticks]
  show ?thesis unfolding reload by simp
qed

lemma issued_mono: "sys_step cdc s s' \<Longrightarrow> issued s \<le> issued s'"
  by (erule sys_stepE) auto

lemma conn_inv_runs:
  assumes "runs_to cdc s s'" and "conn_inv limit s" and "limit < 2 ^ 62" and "issued s' < 2 ^ 64"
  shows "conn_inv limit s'"
  using assms
proof induction
  case refl
  then show ?case by simp
next
  case (step s1 s2)
  with issued_mono [OF step(2)] conn_inv_step [OF step(2)] show ?case by simp
qed

text \<open>
  C3: the node counts its connections. In every state a node can reach by any interleaving of opens,
  traffic, worker tasks, closes and background ticks (fewer than 2^64 connections), the connection
  count is the number of open connections and at most the configured limit, different connections
  have different ids, and the table of connections holds only open ones, each under its own id.
\<close>

theorem connections_accounted:
  assumes "runs_to cdc (start_sys a) s" and "New numCPU ok stat file cfg = NewApp a"
    and "sint (MaxConns cfg) = int limit" and "limit < 2 ^ 62" and "issued s < 2 ^ 64"
  shows "CurrConnCount (napp (nd s)) = of_nat (card (opened s)) \<and> card (opened s) \<le> limit \<and>
    inj_on (\<lambda>c. ConnID (the (nctx (nd s) c))) (dom (nctx (nd s))) \<and>
    keys_distinct (AllConns (napp (nd s))) \<and>
    (\<forall>(k, c) \<in> set (AllConns (napp (nd s))). c \<in> opened s \<and> map_option ConnID (nctx (nd s) c) = Some k)"
proof -
  note facts = New_facts [OF assms(2)]
  have "conn_inv limit (start_sys a)"
    using assms(3) by (simp add: conn_inv_def start_sys_def new_node_def facts ids_ok_def table_ok_def)
  from conn_inv_runs [OF assms(1) this assms(4,5)]
  have inv: "conn_inv limit s" .
  then have "inj_on (\<lambda>c. ConnID (the (nctx (nd s) c))) (dom (nctx (nd s)))"
    by (intro inj_onI) (auto simp: conn_inv_def ids_ok_def)
  with inv show ?thesis by (fastforce simp: conn_inv_def table_ok_def)
qed

theorem connections_accounted_witness:
  "\<exists>s. runs_to null_codec (start_sys sample_app) s \<and> opened s = {7} \<and> CurrConnCount (napp (nd s)) = 1"
proof -
  note facts = New_facts [OF sample_app_New]
  let ?p = "start_sys sample_app"
  obtain act n where o: "OnOpen True 5 7 (nd ?p) = (act, n)" by fastforce
  then have "act = ActNone"
    by (simp add: OnOpen_def start_sys_def new_node_def facts Load_def Let_def NextConnID_def split: if_splits)
  let ?q = "?p\<lparr>nd := n, opened := insert 7 (opened ?p), seen := insert 7 (seen ?p), issued := Suc (issued ?p)\<rparr>"
  have "sys_step null_codec ?p ?q"
    using o \<open>act = ActNone\<close> by (intro sys_step.open_accepted [of _ _ 5]) (simp_all add: start_sys_def)
  then have r: "runs_to null_codec ?p ?q" by (blast intro: runs_to.intros)
  have "sint (MaxConns (Load ''host'' 5 42 2)) = int 100000" by (simp add: Load_def)
  from connections_accounted [OF r sample_app_New this] have "CurrConnCount (napp (nd ?q)) = of_nat (card (opened ?q))"
    by (simp add: start_sys_def)
  with r show ?thesis by (intro exI [of _ ?q]) (simp add: start_sys_def)
qed

section \<open>Serving frames\<close>

definition reply_to :: "conn \<Rightarrow> WebSocketFrame \<Rightarrow> traffic_effect list" where
  "reply_to c f =
    (if wf_Opcode f = OpPing then [Reply (AsyncWrite c (BuildPongFrame (wf_Payload f)))]
     else if wf_Opcode f = OpBinary then [Submit \<lparr>task_Conn = c, task_Data = wf_Payload f\<rparr>]
     else [])"

lemma OpPing_not [simp]: "OpPing \<noteq> OpClose" "OpBinary \<noteq> OpClose" "OpBinary \<noteq> OpPing"
  by (simp_all add: OpPing_def OpClose_def OpBinary_def)

lemma serve_frames_no_close:
  assumes "\<forall>f \<in> set fs. wf_Opcode f \<noteq> OpClose"
  shows "serve_frames True (\<lambda>_. True) c k (fs @ gs) =
    (case serve_frames True (\<lambda>_. True) c 0 gs of (act, es) \<Rightarrow> (act, concat (map (reply_to c) fs) @ es))"
proof -
  have k: "serve_frames True (\<lambda>_. True) c k gs = serve_frames True (\<lambda>_. True) c 0 gs" for k gs
  proof (induction gs arbitrary: k)
    case (Cons g gs)
    show ?case
      by (simp only: serve_frames.simps Cons.IH [of k] Cons.IH [of "Suc k"] Cons.IH [of "Suc 0"])
  qed simp
  show ?thesis
    using assms
  proof (induction fs arbitrary: k)
    case Nil
    then show ?case using k [of k gs] by (simp split: prod.splits)
  next
    case (Cons f fs)
    then show ?case by (auto simp: reply_to_def split: prod.splits)
  qed
qed

lemma put_be_2: "put_be 2 v = [of_nat (v div 256), of_nat v]"
  by (simp add: numeral_2_eq_2)

text \<open>
  Frames are served in order up to the close. With a pool that accepts, every ping before the first
  close frame is answered by a pong with its payload and every binary frame becomes a task with its
  payload, in order; a close frame is answered with its own status code (1000 if it has none), closes
  the connection, and nothing after it is served.
\<close>

theorem frames_served_in_order:
  "serve_frames True (\<lambda>_. True) c k fs =
    (let before = takeWhile (\<lambda>f. wf_Opcode f \<noteq> OpClose) fs;
         rest = dropWhile (\<lambda>f. wf_Opcode f \<noteq> OpClose) fs
     in (if rest = [] then ActNone else ActClose,
         concat (map (reply_to c) before) @
         (if rest = [] then []
          else let p = wf_Payload (hd rest)
               in [Reply (AsyncWrite c (BuildCloseFrame (if length p \<ge> 2 then take 2 p else [0x03, 0xE8])))])))"
proof -
  let ?b = "takeWhile (\<lambda>f. wf_Opcode f \<noteq> OpClose) fs" and ?r = "dropWhile (\<lambda>f. wf_Opcode f \<noteq> OpClose) fs"
  have pay: "close_payload p = (if length p \<ge> 2 then take 2 p else [0x03, 0xE8])" for p
  proof (cases "length p \<ge> 2")
    case True
    then obtain a b q where p: "p = a # b # q" by (cases p; cases "tl p") auto
    have "unat b < 256" using unsigned_less [of b] by simp
    then have "(unat a * 256 + unat b) div 256 = unat a" by simp
    moreover have "(256 :: byte) = 0" by simp
    then have "of_nat (unat a * 256 + unat b) = b" by (simp add: \<open>(256 :: byte) = 0\<close>)
    ultimately have "put_be 2 (unat a * 256 + unat b) = [a, b]"
      by (simp add: put_be_2)
    then show ?thesis by (simp add: p close_payload_def be_uint_def)
  next
    case False
    then show ?thesis by (simp add: close_payload_def put_be_2)
  qed
  have "serve_frames True (\<lambda>_. True) c 0 ?r =
      (if ?r = [] then (ActNone, [])
       else (ActClose, [Reply (AsyncWrite c (BuildCloseFrame (close_payload (wf_Payload (hd ?r)))))]))"
  proof (cases ?r)
    case (Cons f gs)
    then have "wf_Opcode f = OpClose" using dropWhile_eq_Cons_conv [of "\<lambda>f. wf_Opcode f \<noteq> OpClose" fs f gs] by simp
    moreover have "OpClose \<noteq> OpPing" by (metis OpPing_not(1))
    ultimately show ?thesis by (simp add: Cons)
  next
    case Nil
    show ?thesis unfolding Nil by simp
  qed
  moreover have "\<forall>f \<in> set ?b. wf_Opcode f \<noteq> OpClose" by (auto dest: set_takeWhileD)
  from serve_frames_no_close [OF this, of c k ?r]
  have "serve_frames True (\<lambda>_. True) c k fs = (case serve_frames True (\<lambda>_. True) c 0 ?r of
      (act, es) \<Rightarrow> (act, concat (map (reply_to c) ?b) @ es))" by simp
  ultimately show ?thesis by (simp add: Let_def pay)
qed

end
