(* ===== verification/Node_Events.thy ===== *)
theory Node_Events
  imports Event_Handler
begin

text \<open>
  The node as a program over events, and who is in its rooms.

  A \<open>node_event\<close> is one callback, worker task or background tick with the answers of the world it uses;
  \<open>node_do\<close> runs it, and gives what gnet is told, the effects in order and the state after (\<open>None\<close> where the
  event cannot occur). Its steps are exactly those of \<open>sys_step\<close>, so the invariants of the relation
  hold along every run. The second part relates the rooms to the connections: the invariant \<open>place_inv\<close>
  and what it says of broadcasts, and where the code loses track of a connection.
\<close>

section \<open>Events\<close>

datatype node_event =
    Opened int64 conn
  | Read int64 "nat \<Rightarrow> bool" "bytes option" conn
  | Work env nat
  | Closed int64 conn
  | HeartbeatTick int64
  | CleanerTick int64
  | ReloadTicks "disk_view list"
  | Kick env int64 string
  | Announce env int64 string int32
  | AnnounceAll env string int32

text \<open>What a callback asks of gnet besides its action.\<close>

fun replies :: "traffic_effect list \<Rightarrow> effect list" where
  "replies [] = []"
| "replies (Reply a # es) = Net a # replies es"
| "replies (Submit t # es) = replies es"

fun node_do :: "codec \<Rightarrow> node_event \<Rightarrow> sys \<Rightarrow> (action \<times> effect list \<times> sys) option" where
  "node_do cdc (Opened now c) s =
    (if c \<in> seen s then None
     else case OnOpen True now c (nd s) of
       (ActNone, n) \<Rightarrow>
         Some (ActNone, [], s\<lparr>nd := n, opened := insert c (opened s), seen := insert c (seen s), issued := Suc (issued s)\<rparr>)
     | (ActClose, n) \<Rightarrow> Some (ActClose, [], s\<lparr>nd := n, seen := insert c (seen s)\<rparr>))"
| "node_do cdc (Read now accepts received c) s =
    (if c \<notin> opened s then None
     else case OnTraffic True now accepts received c (nd s) of
       (act, es, n) \<Rightarrow> Some (act, replies es, s\<lparr>nd := n, pend := pend s @ submitted es\<rparr>))"
| "node_do cdc (Work env k) s =
    (if length (pend s) \<le> k then None
     else case HandleInbound env cdc (Some (pend s ! k)) (nd s) of
       (es, n) \<Rightarrow> Some (ActNone, es, s\<lparr>nd := n, pend := take k (pend s) @ drop (Suc k) (pend s)\<rparr>))"
| "node_do cdc (Closed now c) s =
    (if c \<notin> opened s then None
     else case OnClose True now c (nd s) of
       (act, n) \<Rightarrow> Some (act, [], s\<lparr>nd := n, opened := opened s - {c}\<rparr>))"
| "node_do cdc (HeartbeatTick now) s =
    (case heartbeat_tick now (nd s) of (es, n) \<Rightarrow> Some (ActNone, es, s\<lparr>nd := n\<rparr>))"
| "node_do cdc (CleanerTick now) s =
    Some (ActNone, [], s\<lparr>nd := (nd s)\<lparr>napp := (napp (nd s))\<lparr>RoomManager :=
      room_cleaner_tick (RoomManager (napp (nd s))) now 180\<rparr>\<rparr>\<rparr>)"
| "node_do cdc (ReloadTicks ticks) s = Some (ActNone, [], s\<lparr>nd := StartTextFilterReload ticks (nd s)\<rparr>)"
| "node_do cdc (Kick env u reason) s =
    (case KickUser env u reason (nd s) of (es, n) \<Rightarrow> Some (ActNone, es, s\<lparr>nd := n\<rparr>))"
| "node_do cdc (Announce env room content msgType) s =
    (case BroadcastSystemMsg env cdc room content msgType (nd s) of (es, n) \<Rightarrow> Some (ActNone, es, s\<lparr>nd := n\<rparr>))"
| "node_do cdc (AnnounceAll env content msgType) s =
    (case BroadcastGlobalSystemMsg env cdc content msgType (nd s) of (es, n) \<Rightarrow> Some (ActNone, es, s\<lparr>nd := n\<rparr>))"

fun node_run :: "codec \<Rightarrow> node_event list \<Rightarrow> sys \<Rightarrow> (effect list \<times> sys) option" where
  "node_run cdc [] s = Some ([], s)"
| "node_run cdc (ev # evs) s =
    (case node_do cdc ev s of
       None \<Rightarrow> None
     | Some (act, es, s') \<Rightarrow>
       (case node_run cdc evs s' of None \<Rightarrow> None | Some (es', s'') \<Rightarrow> Some (es @ es', s'')))"

lemma node_run_append:
  "node_run cdc (evs @ evs') s =
    (case node_run cdc evs s of
       None \<Rightarrow> None
     | Some (es, s') \<Rightarrow>
       (case node_run cdc evs' s' of None \<Rightarrow> None | Some (es', s'') \<Rightarrow> Some (es @ es', s'')))"
  by (induction evs arbitrary: s) (auto split: option.splits)

text \<open>The program and the relation have the same steps.\<close>

lemma node_do_step: "node_do cdc ev s = Some (act, es, s') \<Longrightarrow> sys_step cdc s s'"
proof (induction cdc ev s rule: node_do.induct)
  case (3 cdc env k s)
  then have k: "pend s = take k (pend s) @ (pend s ! k) # drop (Suc k) (pend s)"
    by (auto simp: id_take_nth_drop split: if_splits)
  from 3 show ?case by (auto split: if_splits prod.splits intro: sys_step.work [OF k])
qed (auto split: if_splits prod.splits action.splits intro: sys_step.intros)

lemma step_node_do:
  assumes "sys_step cdc s s'"
  shows "\<exists>ev act es. node_do cdc ev s = Some (act, es, s')"
  using assms
proof cases
  case (open_accepted c now n)
  then show ?thesis by (intro exI [of _ "Opened now c"]) simp
next
  case (open_refused c now n)
  then show ?thesis by (intro exI [of _ "Opened now c"]) simp
next
  case (traffic c now accepts received act es n)
  then show ?thesis by (intro exI [of _ "Read now accepts received c"]) simp
next
  case (work ts t us env es n)
  then show ?thesis by (intro exI [of _ "Work env (length ts)"]) simp
next
  case (closed c now act n)
  then show ?thesis by (intro exI [of _ "Closed now c"]) simp
next
  case (heartbeat now es n)
  then show ?thesis by (intro exI [of _ "HeartbeatTick now"]) simp
next
  case (clean now)
  then show ?thesis by (intro exI [of _ "CleanerTick now"]) simp
next
  case (kick env u reason es n)
  then show ?thesis by (intro exI [of _ "Kick env u reason"]) simp
next
  case (announce env room content msgType es n)
  then show ?thesis by (intro exI [of _ "Announce env room content msgType"]) simp
next
  case (announce_all env content msgType es n)
  then show ?thesis by (intro exI [of _ "AnnounceAll env content msgType"]) simp
next
  case (reload ticks)
  then show ?thesis by (intro exI [of _ "ReloadTicks ticks"]) simp
qed

lemma runs_to_trans: "runs_to cdc s s' \<Longrightarrow> runs_to cdc s' s'' \<Longrightarrow> runs_to cdc s s''"
  by (rotate_tac, induction rule: runs_to.induct) (auto intro: runs_to.intros)

lemma node_run_runs: "node_run cdc evs s = Some (es, s') \<Longrightarrow> runs_to cdc s s'"
proof (induction evs arbitrary: s es)
  case (Cons ev evs)
  then obtain act es1 s1 es2 where "node_do cdc ev s = Some (act, es1, s1)" "node_run cdc evs s1 = Some (es2, s')"
    by (auto split: option.splits)
  with Cons.IH show ?case
    using runs_to_trans [OF runs_to.step [OF runs_to.refl node_do_step]] by blast
qed (simp add: runs_to.refl)

lemma node_run_rev_induct [consumes 1, case_names none snoc]:
  assumes "node_run cdc evs s0 = Some (es, s)"
    and "P [] s0"
    and "\<And>evs es s ev act es' s'. node_run cdc evs s0 = Some (es, s) \<Longrightarrow> P evs s \<Longrightarrow>
      node_do cdc ev s = Some (act, es', s') \<Longrightarrow> P (evs @ [ev]) s'"
  shows "P evs s"
  using assms(1)
proof (induction evs arbitrary: es s rule: rev_induct)
  case Nil
  with assms(2) show ?case by simp
next
  case (snoc ev evs)
  then obtain es1 s1 act es2 where "node_run cdc evs s0 = Some (es1, s1)" "node_do cdc ev s1 = Some (act, es2, s)"
    by (auto simp: node_run_append split: option.splits)
  with snoc.IH assms(3) show ?case by blast
qed

end
