(* ===== verification/Node_Traffic.thy ===== *)
theory Node_Traffic
  imports Event_Handler
begin

text \<open>
  Reading a connection to the end: \<open>OnTraffic\<close> called once per read of the event loop, on whatever pieces
  TCP cut the stream into. The interface \<open>stream_reader\<close> says what a decoder must promise for its
  caller to keep only the bytes left over between two reads; the decoder of the program keeps the
  promise, so the pieces do not matter.
\<close>

section \<open>Decoders that resume\<close>

text \<open>
  A reader takes complete items off the front of its input and gives the rest back, or gives an error
  that no further input repairs.
\<close>

locale stream_reader =
  fixes read :: "bytes \<Rightarrow> 'f list \<times> bytes \<times> 'e option"
  assumes read_Nil: "read [] = ([], [], None)"
    and read_more: "read a = (fs, rest, None) \<Longrightarrow> read (rest @ b) = (gs, rest', err) \<Longrightarrow>
      read (a @ b) = (fs @ gs, rest', err)"
    and read_stuck: "read a = (fs, rest, Some e) \<Longrightarrow> \<exists>rest'. read (a @ b) = (fs, rest', Some e)"
begin

lemma rest_settled:
  assumes "read a = (fs, rest, None)"
  shows "read rest = ([], rest, None)"
proof -
  obtain gs rest' err where r: "read (rest @ []) = (gs, rest', err)" by (cases "read (rest @ [])") auto
  from read_more [OF assms r] assms r show ?thesis by auto
qed

lemma front_reads:
  assumes "read (a @ b) = (fs, rest, None)"
  obtains gs r hs where "read a = (gs, r, None)" and "read (r @ b) = (hs, rest, None)" and "fs = gs @ hs"
proof -
  obtain gs r e where a: "read a = (gs, r, e)" by (cases "read a") auto
  have e: "e = None"
  proof (cases e)
    case (Some x)
    then show ?thesis using read_stuck [of a gs r x b] a assms by auto
  qed
  obtain hs r' e' where b: "read (r @ b) = (hs, r', e')" by (cases "read (r @ b)") auto
  from read_more [OF a [unfolded e] b] assms have "r' = rest" "e' = None" "fs = gs @ hs" by auto
  with that a b e show ?thesis by blast
qed

end

interpretation frames: stream_reader frame_stream
proof
  show "frame_stream [] = ([], [], None)" by simp
  show "frame_stream a = (fs, rest, None) \<Longrightarrow> frame_stream (rest @ b) = (gs, rest', err) \<Longrightarrow>
      frame_stream (a @ b) = (fs @ gs, rest', err)" for a fs rest b gs rest' err
    by (rule frame_stream_append)
  show "frame_stream a = (fs, rest, Some e) \<Longrightarrow> \<exists>rest'. frame_stream (a @ b) = (fs, rest', Some e)"
    for a fs rest e b
    using frame_stream_append_error by blast
qed

section \<open>Serving in pieces\<close>

lemma serve_frames_Suc:
  "serve_frames True (\<lambda>_. True) c k fs = serve_frames True (\<lambda>_. True) c 0 fs"
proof (induction fs arbitrary: k)
  case (Cons f fs)
  show ?case
    by (simp only: serve_frames.simps Cons.IH [of k] Cons.IH [of "Suc k"] Cons.IH [of "Suc 0"])
qed simp

lemma serve_frames_append:
  "serve_frames True (\<lambda>_. True) c 0 (fs @ gs) =
    (case serve_frames True (\<lambda>_. True) c 0 fs of
       (ActClose, es) \<Rightarrow> (ActClose, es)
     | (ActNone, es) \<Rightarrow> (case serve_frames True (\<lambda>_. True) c 0 gs of (act, es') \<Rightarrow> (act, es @ es')))"
  by (induction fs) (auto simp: serve_frames_Suc [of c "Suc 0"] split: prod.splits action.splits)

text \<open>
  The reads of a connection in order, each with the clock when it is served: gnet closes the connection
  after the first callback that asks for it.
\<close>

fun serve_reads :: "conn \<Rightarrow> (int64 \<times> bytes) list \<Rightarrow> node \<Rightarrow> action \<times> traffic_effect list \<times> node" where
  "serve_reads c [] n = (ActNone, [], n)"
| "serve_reads c ((now, data) # rds) n =
    (case OnTraffic True now (\<lambda>_. True) (Some data) c n of
       (ActClose, es, n') \<Rightarrow> (ActClose, es, n')
     | (ActNone, es, n') \<Rightarrow>
         (case serve_reads c rds n' of (act, es', n'') \<Rightarrow> (act, es @ es', n'')))"

lemma OnTraffic_frames:
  assumes "nctx n c = Some ctx" and "HandshakeDone ctx"
    and "length (ReadBuffer ctx @ data) \<le> 130 * 1024"
    and "frame_stream (ReadBuffer ctx @ data) = (fs, rest, None)"
  shows "\<exists>ctx' n'. OnTraffic True now (\<lambda>_. True) (Some data) c n =
      (case serve_frames True (\<lambda>_. True) c 0 fs of (act, es) \<Rightarrow> (act, es, n')) \<and>
    nctx n' c = Some ctx' \<and> HandshakeDone ctx' \<and> ReadBuffer ctx' = rest"
proof -
  obtain pre where pre: "ReadBuffer ctx @ data = pre @ rest" using frame_stream_rest [OF assms(4)] by blast
  have len: "length (ReadBuffer ctx) + length data - length rest = length pre"
    using arg_cong [OF pre, of length] by simp
  have "DecodeWebSocketFrames (ReadBuffer ctx @ data) = (fs, length pre, None)"
    using DecodeWebSocketFrames_stream [OF assms(4)] len by simp
  moreover have "\<not> 133120 < length (ReadBuffer ctx) + length data" "\<not> 133120 < length pre + length rest"
    using assms(3) unfolding pre by (simp_all flip: length_append add: pre)
  ultimately show ?thesis
    using assms(1,2) pre
    by (cases "pre = []")
      (auto simp: OnTraffic_def handleWebSocketTraffic_def Let_def case_prod_unfold)
qed

text \<open>
  The bound on the read buffer never stops a client: with reads of at most 64 KiB, what is left of an
  incomplete frame and the next read stay within 130 KiB.
\<close>

lemma buffer_fits:
  assumes "frame_stream rest = ([], rest, None)" and "length data \<le> 64 * 1024"
  shows "length (rest @ data) \<le> 130 * 1024"
proof -
  have "decodeOneFrame rest = Inl ErrIncompleteFrame" using frame_stream_rest_incomplete [OF assms(1)] .
  from decodeOneFrame_incomplete_short [OF this] show ?thesis
    using assms(2) by (simp add: MaxWebSocketPayloadSize_def)
qed

lemma serve_reads_frames:
  assumes "nctx n c = Some ctx" and "HandshakeDone ctx"
    and "frame_stream (ReadBuffer ctx) = ([], ReadBuffer ctx, None)"
    and "\<forall>(now, d) \<in> set rds. length d \<le> 64 * 1024"
    and "frame_stream (ReadBuffer ctx @ concat (map snd rds)) = (fs, rest, None)"
  shows "\<exists>n'. serve_reads c rds n = (case serve_frames True (\<lambda>_. True) c 0 fs of (act, es) \<Rightarrow> (act, es, n'))"
  using assms
proof (induction rds arbitrary: n ctx fs)
  case Nil
  then show ?case by simp
next
  case (Cons rd rds)
  obtain now d where rd: "rd = (now, d)" by (cases rd)
  from Cons.prems(5) have "frame_stream ((ReadBuffer ctx @ d) @ concat (map snd rds)) = (fs, rest, None)"
    by (simp add: rd)
  then obtain gs r hs where gs: "frame_stream (ReadBuffer ctx @ d) = (gs, r, None)"
    and hs: "frame_stream (r @ concat (map snd rds)) = (hs, rest, None)" and fs: "fs = gs @ hs"
    by (rule frames.front_reads)
  have "length (ReadBuffer ctx @ d) \<le> 130 * 1024"
    using Cons.prems(3,4) by (intro buffer_fits) (auto simp: rd)
  from OnTraffic_frames [OF Cons.prems(1,2) this gs, of now]
  obtain ctx' n' where on: "OnTraffic True now (\<lambda>_. True) (Some d) c n =
      (case serve_frames True (\<lambda>_. True) c 0 gs of (act, es) \<Rightarrow> (act, es, n'))"
    and n': "nctx n' c = Some ctx'" "HandshakeDone ctx'" "ReadBuffer ctx' = r" by blast
  have "\<exists>n''. serve_reads c rds n' = (case serve_frames True (\<lambda>_. True) c 0 hs of (act, es) \<Rightarrow> (act, es, n''))"
    using n' Cons.prems(4) frames.rest_settled [OF gs] hs by (intro Cons.IH) auto
  then obtain n'' where "serve_reads c rds n' =
      (case serve_frames True (\<lambda>_. True) c 0 hs of (act, es) \<Rightarrow> (act, es, n''))" ..
  then show ?case
    by (auto simp: rd on fs serve_frames_append split: prod.splits action.splits)
qed

section \<open>Properties\<close>

text \<open>
  C4: a client is served as if its stream arrived in one piece. Cut a stream of acceptable masked frames
  anywhere into reads of at most 64 KiB: the connection is never dropped for its read buffer, and the
  writes and tasks of all reads together, and the close if there is one, are exactly those of serving
  the frames one after the other.
\<close>

theorem traffic_reassembled:
  assumes "nctx n c = Some ctx" and "HandshakeDone ctx" and "ReadBuffer ctx = []"
    and "\<forall>(now, d) \<in> set rds. length d \<le> 64 * 1024"
    and "\<forall>f \<in> set fs. acceptable f" and "length keys = length fs" and "\<forall>k \<in> set keys. length k = 4"
    and "concat (map snd rds) = concat (map2 client_frame keys fs)"
  shows "\<exists>n'. serve_reads c rds n = (case serve_frames True (\<lambda>_. True) c 0 fs of (act, es) \<Rightarrow> (act, es, n'))"
proof -
  have "decodeOneFrame [] = Inl ErrIncompleteFrame" by (simp add: decodeOneFrame_def)
  with assms(5-7) have "frame_stream (concat (map2 client_frame keys fs) @ []) = (fs, [], None)"
    by (intro frame_stream_client) auto
  then show ?thesis
    using assms(1-4,8) by (intro serve_reads_frames [where rest = "[]"]) auto
qed

theorem traffic_reassembled_witness:
  "\<exists>n'. serve_reads 7 [(100, [0x89, 0x81, 1, 2]), (101, [3, 4, 8, 0x82]), (102, [0x80, 0, 0, 0, 0])]
      (chat_node\<lparr>nctx := [7 \<mapsto> (new_ConnContext ''1'')\<lparr>HandshakeDone := True\<rparr>]\<rparr>)
    = (ActNone, [Reply (AsyncWrite 7 (BuildPongFrame [9])), Submit \<lparr>task_Conn = 7, task_Data = []\<rparr>], n')"
proof -
  let ?n = "chat_node\<lparr>nctx := [7 \<mapsto> (new_ConnContext ''1'')\<lparr>HandshakeDone := True\<rparr>]\<rparr>"
  let ?fs = "[\<lparr>wf_Opcode = OpPing, wf_Payload = [9]\<rparr>, \<lparr>wf_Opcode = OpBinary, wf_Payload = []\<rparr>]"
  let ?rds = "[(100, [0x89, 0x81, 1, 2]), (101, [3, 4, 8, 0x82]), (102, [0x80, 0, 0, 0, 0])] :: (int64 \<times> bytes) list"
  have ctx: "nctx ?n 7 = Some ((new_ConnContext ''1'')\<lparr>HandshakeDone := True\<rparr>)" by simp
  have bytes: "concat (map snd ?rds) = concat (map2 client_frame [[1, 2, 3, 4], [0, 0, 0, 0]] ?fs)"
    by (simp add: client_frame_def OpPing_def OpBinary_def)
  have served: "serve_frames True (\<lambda>_. True) 7 0 ?fs =
      (ActNone, [Reply (AsyncWrite 7 (BuildPongFrame [9])), Submit \<lparr>task_Conn = 7, task_Data = []\<rparr>])"
    by simp
  have "\<exists>n'. serve_reads 7 ?rds ?n = (case serve_frames True (\<lambda>_. True) 7 0 ?fs of (act, es) \<Rightarrow> (act, es, n'))"
    by (rule traffic_reassembled [OF ctx _ _ _ _ _ _ bytes])
      (simp_all add: new_ConnContext_def acceptable_def MaxWebSocketPayloadSize_def)
  then show ?thesis unfolding served prod.case .
qed

end
