(* ===== verification/Node_Rooms.thy ===== *)
theory Node_Rooms
  imports Node_Events Node_Traffic
begin

text \<open>
  The rooms of a running node. \<open>place_inv\<close> ties the room manager to the connections: in every reachable
  state a membership belongs to a connection, under its own id and loop, and every open connection that
  joined is a member of its room, so that a broadcast reaches each of them exactly once. Where clients
  join once and before they close, the rooms hold nobody else; where they do not, a closed connection
  stays a member and keeps its user's place.
\<close>

section \<open>What leaves places alone\<close>

text \<open>The part of a context that says where its connection is.\<close>

definition place :: "ConnContext \<Rightarrow> string \<times> int64 \<times> int64 \<times> int" where
  "place ctx = (ConnID ctx, UserID ctx, RoomID ctx, LoopIdx ctx)"

lemma place_eq_iff: "place ctx = place ctx' \<longleftrightarrow>
    ConnID ctx = ConnID ctx' \<and> UserID ctx = UserID ctx' \<and> RoomID ctx = RoomID ctx' \<and> LoopIdx ctx = LoopIdx ctx'"
  by (auto simp: place_def)

definition same_places :: "node \<Rightarrow> node \<Rightarrow> bool" where
  "same_places n n' \<longleftrightarrow>
     RoomManager (napp n') = RoomManager (napp n) \<and> userConnCount (napp n') = userConnCount (napp n) \<and>
     Cfg (napp n') = Cfg (napp n) \<and> lrReg (LoopSt (napp n')) = lrReg (LoopSt (napp n)) \<and>
     map_option loops (lrDisp (LoopSt (napp n'))) = map_option loops (lrDisp (LoopSt (napp n))) \<and>
     (\<forall>c. map_option place (nctx n' c) = map_option place (nctx n c))"

lemma same_places_refl [simp, intro]: "same_places n n"
  by (simp add: same_places_def)

lemma same_places_trans [trans]: "same_places n n' \<Longrightarrow> same_places n' n'' \<Longrightarrow> same_places n n''"
  by (simp add: same_places_def)

lemma same_places_upd [simp]:
  "same_places n (n'\<lparr>nmet := mt\<rparr>) = same_places n n'"
  "same_places n (n'\<lparr>napp := (napp n')\<lparr>AppLimiter := lim\<rparr>\<rparr>) = same_places n n'"
  "same_places n (n'\<lparr>napp := (napp n')\<lparr>TextFilter := tf\<rparr>\<rparr>) = same_places n n'"
  "same_places n (n'\<lparr>napp := (napp n')\<lparr>AllConns := ac\<rparr>\<rparr>) = same_places n n'"
  "same_places n (n'\<lparr>napp := (napp n')\<lparr>CurrConnCount := cc\<rparr>\<rparr>) = same_places n n'"
  by (simp_all add: same_places_def)

lemma same_places_ctx:
  "nctx n c = Some ctx0 \<Longrightarrow> place ctx = place ctx0 \<Longrightarrow> same_places n (n\<lparr>nctx := (nctx n)(c \<mapsto> ctx)\<rparr>)"
  by (simp add: same_places_def)

lemma place_updates [simp]:
  "place (ctx\<lparr>LastActiveTime := t\<rparr>) = place ctx" "place (ctx\<lparr>ReadBuffer := b\<rparr>) = place ctx"
  "place (ctx\<lparr>HandshakeBuffer := b\<rparr>) = place ctx" "place (ctx\<lparr>HandshakeDone := d\<rparr>) = place ctx"
  by (simp_all add: place_def)

lemma handleHandshake_places:
  "nctx n c = Some ctx0 \<Longrightarrow> place ctx = place ctx0 \<Longrightarrow> same_places n (snd (snd (handleHandshake received c ctx n)))"
  by (auto simp: handleHandshake_def same_places_def Let_def split: option.splits sum.splits)

lemma handleWebSocketTraffic_places:
  "nctx n c = Some ctx0 \<Longrightarrow> place ctx = place ctx0 \<Longrightarrow>
   same_places n (snd (snd (handleWebSocketTraffic h accepts received c ctx n)))"
  by (auto simp: handleWebSocketTraffic_def same_places_def Let_def split: option.splits prod.splits)

lemma OnTraffic_places: "same_places n (snd (snd (OnTraffic h now accepts received c n)))"
proof (cases "nctx n c")
  case None
  then show ?thesis by (simp add: OnTraffic_def)
next
  case (Some ctx)
  let ?ctx = "ctx\<lparr>LastActiveTime := now\<rparr>"
  let ?n = "n\<lparr>nctx := (nctx n)(c \<mapsto> ?ctx)\<rparr>"
  have "same_places n ?n" using Some by (rule same_places_ctx) simp
  then have "same_places n (snd (snd (handleHandshake received c ?ctx ?n)))"
    and "same_places n (snd (snd (handleWebSocketTraffic h accepts received c ?ctx ?n)))"
    using handleHandshake_places [of ?n c ?ctx ?ctx] handleWebSocketTraffic_places [of ?n c ?ctx ?ctx]
    by (auto intro: same_places_trans)
  then show ?thesis using Some by (simp add: OnTraffic_def Let_def)
qed

lemma broadcast_here_places: "same_places n (snd (broadcast_here env e n))"
  by (auto simp: broadcast_here_def split: prod.splits)

lemma handleChat_places: "same_places n (snd (handleChat env cdc c ctx frame n))"
proof -
  have "same_places n (snd (broadcast_here env e (n\<lparr>napp := (napp n)\<lparr>AppLimiter := lim\<rparr>\<rparr>)))" for e lim
    by (rule same_places_trans [OF _ broadcast_here_places]) simp
  then show ?thesis
    by (auto simp: handleChat_def Let_def split: prod.splits option.splits)
qed

lemma HandleInbound_places:
  "(\<forall>t frame ctx. task = Some t \<longrightarrow> nctx n (task_Conn t) = Some ctx \<longrightarrow> Unmarshal_Frame cdc (task_Data t) = Some frame \<longrightarrow>
      f_Op frame = OpType_OP_JOIN_ROOM \<longrightarrow> 0 < length (task_Data t) \<longrightarrow> length (task_Data t) \<le> 64 * 1024 \<longrightarrow>
      same_places n (snd (handleJoinRoom env cdc (task_Conn t) ctx frame n))) \<Longrightarrow>
   same_places n (snd (HandleInbound env cdc task n))"
  by (auto simp: HandleInbound_def handleHeartbeat_def handleChat_places split: option.splits)

lemma post_places: "same_places n (snd (post env i t n))"
proof -
  have "map_option loops (fst (snd (Dispatch ex i (Some t) d))) = map_option loops d" for ex d
    by (auto simp: Dispatch_def Let_def split: option.splits)
  then show ?thesis by (auto simp: post_def same_places_def Let_def split: prod.splits) (metis fst_conv snd_conv)
qed

lemma range_conns_places:
  "(\<And>c m. same_places m (snd (f c m))) \<Longrightarrow> same_places n (snd (range_conns f tab n))"
  by (induction f tab n rule: range_conns.induct) (auto split: prod.splits, metis same_places_trans snd_conv)

lemma KickUser_places: "same_places n (snd (KickUser env u reason n))"
proof -
  have "same_places m (snd (KickConn env k reason m))" for k m
    by (auto simp: KickConn_def post_places split: option.splits)
  then show ?thesis by (auto simp: KickUser_def split: option.splits intro!: range_conns_places)
qed

lemma heartbeat_places: "same_places n (snd (heartbeat_tick now n))"
  by (auto simp: heartbeat_tick_def split: option.splits intro!: range_conns_places)

lemma BroadcastSystemMsg_places: "same_places n (snd (BroadcastSystemMsg env cdc room content msgType n))"
proof -
  have "same_places n (snd (broadcast_here env e (n\<lparr>nmet := mt\<rparr>)))" for e mt
    by (rule same_places_trans [OF _ broadcast_here_places]) simp
  then show ?thesis
    by (auto simp: BroadcastSystemMsg_def Let_def broadcast_here_places split: prod.splits option.splits)
      (metis snd_conv)
qed

lemma BroadcastGlobalSystemMsg_places: "same_places n (snd (BroadcastGlobalSystemMsg env cdc content msgType n))"
  by (auto simp: BroadcastGlobalSystemMsg_def Let_def post_places split: option.splits intro!: range_conns_places)

lemma StartTextFilterReload_places: "same_places n (StartTextFilterReload ticks n)"
  by (simp add: StartTextFilterReload_def split: option.splits)

lemmas step_places = OnTraffic_places KickUser_places heartbeat_places BroadcastSystemMsg_places
  BroadcastGlobalSystemMsg_places StartTextFilterReload_places

section \<open>What clients can bring about\<close>

text \<open>
  Traffic changes nothing but the context of its connection. So a client can put any messages of its own,
  in order, among the pending tasks: it connects, shakes hands and sends them in one read.
\<close>

lemma OnTraffic_napp:
  "napp (snd (snd (OnTraffic h now accepts received c n))) = napp n"
  "nmet (snd (snd (OnTraffic h now accepts received c n))) = nmet n"
  "connSeq (snd (snd (OnTraffic h now accepts received c n))) = connSeq n"
  "d \<noteq> c \<Longrightarrow> nctx (snd (snd (OnTraffic h now accepts received c n))) d = nctx n d"
  by (auto simp: OnTraffic_def handleHandshake_def handleWebSocketTraffic_def Let_def
      split: option.splits sum.splits prod.splits)

definition message_frame :: "bytes \<Rightarrow> WebSocketFrame" where
  "message_frame d = \<lparr>wf_Opcode = OpBinary, wf_Payload = d\<rparr>"

definition wire :: "bytes list \<Rightarrow> bytes" where
  "wire ds = concat (map2 client_frame (replicate (length ds) [0, 0, 0, 0]) (map message_frame ds))"

definition visit :: "conn \<Rightarrow> bytes list \<Rightarrow> node_event list" where
  "visit c ds = [Opened 0 c, Read 0 (\<lambda>_. True) (Some hello) c, Read 0 (\<lambda>_. True) (Some (wire ds)) c]"

lemma handshake_hello:
  assumes "nctx n c = Some ctx" and "\<not> HandshakeDone ctx" and "HandshakeBuffer ctx = []"
  shows "\<exists>resp. OnTraffic True now accepts (Some hello) c n =
    (ActNone, [Reply (AsyncWrite c resp)],
     n\<lparr>nctx := (nctx n)(c \<mapsto> ctx\<lparr>LastActiveTime := now, HandshakeDone := True, HandshakeBuffer := []\<rparr>)\<rparr>)"
proof -
  obtain resp where r: "BuildWebSocketHandshakeResponse hello = Inr resp" using hello_accepted by blast
  have "contains_crlf2 hello" using hello_ends by (simp add: contains_crlf2_def Contains_sublist)
  with r hello_length assms show ?thesis
    by (intro exI [of _ resp]) (simp add: OnTraffic_def handleHandshake_def Let_def)
qed

lemma message_frames_served:
  "serve_frames True (\<lambda>_. True) c k (map message_frame ds) =
    (ActNone, map (\<lambda>d. Submit \<lparr>task_Conn = c, task_Data = d\<rparr>) ds)"
  by (induction ds arbitrary: k) (simp_all add: message_frame_def)

lemma submitted_map_Submit: "submitted (map (\<lambda>d. Submit (f d)) ds) = map f ds"
  by (induction ds) simp_all

lemma visit_possible:
  assumes c: "c \<notin> seen s" and room: "sint (CurrConnCount (napp (nd s)) + 1) \<le> sint (MaxConns (Cfg (napp (nd s))))"
    and ds: "\<forall>d \<in> set ds. length d \<le> MaxWebSocketPayloadSize" "length (wire ds) \<le> 130 * 1024"
  shows "\<exists>es s'. node_run cdc (visit c ds) s = Some (es, s') \<and> opened s' = insert c (opened s) \<and>
    seen s' = insert c (seen s) \<and> issued s' = Suc (issued s) \<and>
    pend s' = pend s @ map (\<lambda>d. \<lparr>task_Conn = c, task_Data = d\<rparr>) ds \<and>
    (\<forall>d. d \<noteq> c \<longrightarrow> nctx (nd s') d = nctx (nd s) d) \<and>
    map_option place (nctx (nd s') c) = Some (FormatUint (connSeq (nd s) + 1), 0, 0, 0) \<and>
    napp (nd s') = (napp (nd s))\<lparr>CurrConnCount := CurrConnCount (napp (nd s)) + 1,
      AllConns := AList.update (FormatUint (connSeq (nd s) + 1)) c (AllConns (napp (nd s)))\<rparr>"
proof -
  let ?ctx = "(new_ConnContext (FormatUint (connSeq (nd s) + 1)))\<lparr>LastActiveTime := 0\<rparr>"
  let ?a = "(napp (nd s))\<lparr>CurrConnCount := CurrConnCount (napp (nd s)) + 1,
      AllConns := AList.update (FormatUint (connSeq (nd s) + 1)) c (AllConns (napp (nd s)))\<rparr>"
  let ?n1 = "(nd s)\<lparr>napp := ?a, connSeq := connSeq (nd s) + 1, nctx := (nctx (nd s))(c \<mapsto> ?ctx)\<rparr>"
  let ?s1 = "s\<lparr>nd := ?n1, opened := insert c (opened s), seen := insert c (seen s), issued := Suc (issued s)\<rparr>"
  have 1: "node_do cdc (Opened 0 c) s = Some (ActNone, [], ?s1)"
    using c room by (simp add: OnOpen_def NextConnID_def Let_def)
  let ?ctx2 = "?ctx\<lparr>HandshakeDone := True\<rparr>"
  have "\<exists>resp. OnTraffic True 0 (\<lambda>_. True) (Some hello) c ?n1 =
      (ActNone, [Reply (AsyncWrite c resp)], ?n1\<lparr>nctx := (nctx ?n1)(c \<mapsto> ?ctx\<lparr>LastActiveTime := 0, HandshakeDone := True, HandshakeBuffer := []\<rparr>)\<rparr>)"
    by (rule handshake_hello) (simp_all add: new_ConnContext_def)
  then obtain resp n2 where t1: "OnTraffic True 0 (\<lambda>_. True) (Some hello) c ?n1 = (ActNone, [Reply (AsyncWrite c resp)], n2)"
    and n2: "n2 = ?n1\<lparr>nctx := (nctx (nd s))(c \<mapsto> ?ctx2)\<rparr>" by (auto simp: new_ConnContext_def)
  let ?s2 = "?s1\<lparr>nd := n2\<rparr>"
  have 2: "node_do cdc (Read 0 (\<lambda>_. True) (Some hello) c) ?s1 = Some (ActNone, [Net (AsyncWrite c resp)], ?s2)"
    by (simp add: t1)
  have "decodeOneFrame [] = Inl ErrIncompleteFrame" by (simp add: decodeOneFrame_def)
  with ds(1) have "frame_stream (wire ds @ []) = (map message_frame ds, [], None)"
    unfolding wire_def by (intro frame_stream_client) (auto simp: acceptable_def message_frame_def opcode_defs)
  then have "\<exists>ctx' n'. OnTraffic True 0 (\<lambda>_. True) (Some (wire ds)) c n2 =
      (case serve_frames True (\<lambda>_. True) c 0 (map message_frame ds) of (act, es) \<Rightarrow> (act, es, n')) \<and>
    nctx n' c = Some ctx' \<and> HandshakeDone ctx' \<and> ReadBuffer ctx' = []"
    using ds(2) by (intro OnTraffic_frames [where ctx = ?ctx2]) (simp_all add: n2 new_ConnContext_def)
  then obtain n3 where t3: "OnTraffic True 0 (\<lambda>_. True) (Some (wire ds)) c n2 =
      (ActNone, map (\<lambda>d. Submit \<lparr>task_Conn = c, task_Data = d\<rparr>) ds, n3)"
    by (auto simp: message_frames_served)
  have n3: "napp n3 = ?a" and other: "d \<noteq> c \<Longrightarrow> nctx n3 d = nctx (nd s) d" for d
    using OnTraffic_napp(1) [of True 0 "\<lambda>_. True" "Some (wire ds)" c n2]
      OnTraffic_napp(4) [of d c True 0 "\<lambda>_. True" "Some (wire ds)" n2] t3 by (simp_all add: n2)
  have "map_option place (nctx n3 c) = map_option place (nctx n2 c)"
    using OnTraffic_places [of n2 True 0 "\<lambda>_. True" "Some (wire ds)" c] t3 by (simp add: same_places_def)
  then have own: "map_option place (nctx n3 c) = Some (FormatUint (connSeq (nd s) + 1), 0, 0, 0)"
    by (simp add: n2 new_ConnContext_def place_def)
  have 3: "node_do cdc (Read 0 (\<lambda>_. True) (Some (wire ds)) c) ?s2 = Some (ActNone, replies (map (\<lambda>d. Submit \<lparr>task_Conn = c, task_Data = d\<rparr>) ds),
      ?s2\<lparr>nd := n3, pend := pend s @ map (\<lambda>d. \<lparr>task_Conn = c, task_Data = d\<rparr>) ds\<rparr>)"
    by (simp add: t3 submitted_map_Submit)
  let ?s3 = "?s2\<lparr>nd := n3, pend := pend s @ map (\<lambda>d. \<lparr>task_Conn = c, task_Data = d\<rparr>) ds\<rparr>"
  have "\<exists>es. node_run cdc (visit c ds) s = Some (es, ?s3)"
    unfolding visit_def node_run.simps 1 option.case prod.case 2 3 by blast
  then obtain es where "node_run cdc (visit c ds) s = Some (es, ?s3)" ..
  then show ?thesis using n3 other own by (intro exI [of _ es] exI [of _ ?s3]) simp
qed

section \<open>The invariant\<close>

text \<open>
  \<open>E\<close> gives the event loop of each connection, fixed when gnet accepts it. \<open>at_loop\<close>: the logical index
  of a connection is that of its event loop (0 where gnet gives none).
\<close>

definition at_loop :: "(conn \<Rightarrow> event_loop option) \<Rightarrow> loop_state \<Rightarrow> conn \<Rightarrow> int \<Rightarrow> bool" where
  "at_loop E st c i \<longleftrightarrow> (case E c of None \<Rightarrow> i = 0 | Some l \<Rightarrow> loop_index st l = Some i)"

definition in_room :: "ConnContext \<Rightarrow> bool" where
  "in_room ctx \<longleftrightarrow> positive (RoomID ctx)"

definition placed :: "(conn \<Rightarrow> event_loop option) \<Rightarrow> node \<Rightarrow> conn \<Rightarrow> ConnContext \<Rightarrow> bool" where
  "placed E n c ctx \<longleftrightarrow> positive (UserID ctx) \<and> \<not> isUserBanned (napp n) (UserID ctx) \<and>
     at_loop E (LoopSt (napp n)) c (LoopIdx ctx)"

definition contexts_ok :: "(conn \<Rightarrow> event_loop option) \<Rightarrow> node \<Rightarrow> bool" where
  "contexts_ok E n \<longleftrightarrow> (\<forall>c ctx. nctx n c = Some ctx \<longrightarrow> ConnID ctx \<noteq> '''' \<and> (in_room ctx \<longrightarrow> placed E n c ctx))"

definition members_ok :: "node \<Rightarrow> bool" where
  "members_ok n \<longleftrightarrow> (\<forall>r i k c. members (RoomManager (napp n)) r (i, k) = Some c \<longrightarrow>
     (\<exists>ctx. nctx n c = Some ctx \<and> ConnID ctx = k \<and> LoopIdx ctx = i \<and> in_room ctx))"

definition all_listed :: "node \<Rightarrow> conn set \<Rightarrow> bool" where
  "all_listed n opn \<longleftrightarrow> (\<forall>c \<in> opn. \<forall>ctx. nctx n c = Some ctx \<longrightarrow> in_room ctx \<longrightarrow>
     members (RoomManager (napp n)) (RoomID ctx) (LoopIdx ctx, ConnID ctx) = Some c)"

definition place_inv :: "(conn \<Rightarrow> event_loop option) \<Rightarrow> sys \<Rightarrow> bool" where
  "place_inv E s \<longleftrightarrow> wf_manager (RoomManager (napp (nd s))) \<and> in_order E (LoopSt (napp (nd s))) \<and>
     finite (ran E) \<and> card (ran E) \<le> loopCount (RoomManager (napp (nd s))) \<and>
     contexts_ok E (nd s) \<and> members_ok (nd s) \<and> all_listed (nd s) (opened s)"

lemma same_places_ctxD:
  assumes "same_places n n'"
  shows "nctx n' c = Some ctx' \<Longrightarrow> \<exists>ctx. nctx n c = Some ctx \<and> place ctx = place ctx'"
    and "nctx n c = Some ctx \<Longrightarrow> \<exists>ctx'. nctx n' c = Some ctx' \<and> place ctx' = place ctx"
proof -
  have "map_option place (nctx n' c) = map_option place (nctx n c)" using assms by (simp add: same_places_def)
  then show "nctx n' c = Some ctx' \<Longrightarrow> \<exists>ctx. nctx n c = Some ctx \<and> place ctx = place ctx'"
    and "nctx n c = Some ctx \<Longrightarrow> \<exists>ctx'. nctx n' c = Some ctx' \<and> place ctx' = place ctx"
    by (cases "nctx n c"; cases "nctx n' c"; simp)+
qed

lemma same_places_in_order:
  assumes "same_places n n'" and "in_order E (LoopSt (napp n))"
  shows "in_order E (LoopSt (napp n'))" and "loop_index (LoopSt (napp n')) l = loop_index (LoopSt (napp n)) l"
proof -
  obtain r d k where st: "LoopSt (napp n) = \<lparr>lrReg = Some r, lrDisp = Some d\<rparr>" and num: "numbered (ran E) k r d"
    using assms(2) by (auto simp: in_order_def)
  have "lrReg (LoopSt (napp n')) = Some r" and "map_option loops (lrDisp (LoopSt (napp n'))) = Some (loops d)"
    using assms(1) by (simp_all add: same_places_def st)
  then obtain d' where st': "LoopSt (napp n') = \<lparr>lrReg = Some r, lrDisp = Some d'\<rparr>" and "loops d' = loops d"
    by (cases "LoopSt (napp n')") auto
  with num show "in_order E (LoopSt (napp n'))" by (auto simp: in_order_def numbered_def)
  show "loop_index (LoopSt (napp n')) l = loop_index (LoopSt (napp n)) l" by (simp add: loop_index_def st st')
qed

lemma place_inv_same:
  assumes "same_places (nd s) n" and "place_inv E s" and "opn \<subseteq> opened s"
  shows "place_inv E (s\<lparr>nd := n, pend := p, opened := opn\<rparr>)"
proof -
  note D = same_places_ctxD [OF assms(1)]
  have rm: "RoomManager (napp n) = RoomManager (napp (nd s))" and cfg: "Cfg (napp n) = Cfg (napp (nd s))"
    using assms(1) by (simp_all add: same_places_def)
  have ord: "in_order E (LoopSt (napp (nd s)))" using assms(2) by (simp add: place_inv_def)
  note io = same_places_in_order [OF assms(1) ord]
  have pl: "placed E n c ctx' \<longleftrightarrow> placed E (nd s) c ctx" if "place ctx = place ctx'" for c ctx ctx'
    using that by (simp add: placed_def isUserBanned_def cfg at_loop_def io(2) place_eq_iff split: option.split)
  have "contexts_ok E n"
    unfolding contexts_ok_def
  proof (intro allI impI)
    fix c ctx' assume "nctx n c = Some ctx'"
    with D(1) obtain ctx where "nctx (nd s) c = Some ctx" and p: "place ctx = place ctx'" by blast
    with assms(2) show "ConnID ctx' \<noteq> '''' \<and> (in_room ctx' \<longrightarrow> placed E n c ctx')"
      unfolding pl [OF p] by (auto simp: place_inv_def contexts_ok_def in_room_def place_eq_iff)
  qed
  moreover have "members_ok n"
    unfolding members_ok_def rm
  proof (intro allI impI)
    fix r i k c assume "members (RoomManager (napp (nd s))) r (i, k) = Some c"
    with assms(2) obtain ctx where "nctx (nd s) c = Some ctx" "ConnID ctx = k" "LoopIdx ctx = i" "in_room ctx"
      by (force simp: place_inv_def members_ok_def)
    with D(2) show "\<exists>ctx. nctx n c = Some ctx \<and> ConnID ctx = k \<and> LoopIdx ctx = i \<and> in_room ctx"
      by (fastforce simp: place_eq_iff in_room_def)
  qed
  moreover have "all_listed n opn"
    unfolding all_listed_def rm
  proof (intro ballI allI impI)
    fix c ctx' assume c: "c \<in> opn" "nctx n c = Some ctx'" "in_room ctx'"
    with D(1) obtain ctx where x: "nctx (nd s) c = Some ctx" "place ctx = place ctx'" by blast
    have "c \<in> opened s" using c(1) assms(3) by blast
    moreover have "in_room ctx" using c(3) x(2) by (simp add: in_room_def place_eq_iff)
    ultimately have "members (RoomManager (napp (nd s))) (RoomID ctx) (LoopIdx ctx, ConnID ctx) = Some c"
      using assms(2) x(1) by (simp add: place_inv_def all_listed_def)
    with x(2) show "members (RoomManager (napp (nd s))) (RoomID ctx') (LoopIdx ctx', ConnID ctx') = Some c"
      by (simp add: place_eq_iff)
  qed
  ultimately show ?thesis using assms(2) io(1) by (simp add: place_inv_def rm)
qed

text \<open>A new connection is in no room.\<close>

lemma place_inv_open:
  assumes inv: "place_inv E s" and none: "nctx (nd s) c = None"
    and n: "nctx n = (nctx (nd s))(c \<mapsto> ctx)" "ConnID ctx \<noteq> ''''" "\<not> in_room ctx"
    and a: "RoomManager (napp n) = RoomManager (napp (nd s))" "LoopSt (napp n) = LoopSt (napp (nd s))"
      "Cfg (napp n) = Cfg (napp (nd s))"
  shows "place_inv E (s\<lparr>nd := n, opened := insert c (opened s), seen := S, issued := k\<rparr>)"
proof -
  have pl: "placed E n d x = placed E (nd s) d x" for d x by (simp add: placed_def isUserBanned_def a)
  have "contexts_ok E n" using inv n by (auto simp: place_inv_def contexts_ok_def pl)
  moreover have "members_ok n"
    using inv none unfolding place_inv_def members_ok_def n(1) a by (metis fun_upd_apply option.distinct(1))
  moreover have "all_listed n (insert c (opened s))"
    using inv n by (auto simp: place_inv_def all_listed_def a)
  ultimately show ?thesis using inv by (simp add: place_inv_def a)
qed

text \<open>A resolution: the index it gives, and the indexes it keeps.\<close>

lemma resolve_at_loop:
  assumes "in_order E st" "finite (ran E)" "card (ran E) < 2 ^ 31" and "ResolveLoopIdx E (Some c) st = (i, st')"
  shows "at_loop E st' c i" and "at_loop E st d j \<Longrightarrow> at_loop E st' d j"
    and "card (ran E) \<le> k \<Longrightarrow> 0 < k \<Longrightarrow> 0 \<le> i \<and> i < int k"
proof -
  note res = resolve_in_order [OF assms]
  show at: "at_loop E st' c i"
  proof (cases "E c")
    case None
    with assms(1,4) show ?thesis by (auto simp: at_loop_def in_order_def ResolveLoopIdx_def GetOrAssign_def)
  next
    case (Some l)
    with res(3) show ?thesis by (simp add: at_loop_def)
  qed
  show "at_loop E st d j \<Longrightarrow> at_loop E st' d j"
    using res(2) by (auto simp: at_loop_def split: option.splits)
  assume k: "card (ran E) \<le> k" "0 < k"
  show "0 \<le> i \<and> i < int k"
    using at in_order_index(1) [OF res(1)] assms(2) k by (fastforce simp: at_loop_def split: option.splits)
qed

text \<open>What a join does to the members, if it writes the connection under its new context.\<close>

lemma members_ok_join:
  assumes ok: "members_ok n" and ctx: "nctx n c = Some ctx" and n': "nctx n' = (nctx n)(c \<mapsto> ctx')"
    and mem: "members (RoomManager (napp n')) = (members (RoomManager (napp n)))(RoomID ctx' :=
      (members (RoomManager (napp n)) (RoomID ctx'))((LoopIdx ctx', ConnID ctx') \<mapsto> c))"
    and idx: "in_room ctx \<Longrightarrow> LoopIdx ctx = LoopIdx ctx'" and "ConnID ctx' = ConnID ctx" "in_room ctx'"
  shows "members_ok n'"
  unfolding members_ok_def
proof (intro allI impI)
  fix rid j key d
  assume m: "members (RoomManager (napp n')) rid (j, key) = Some d"
  show "\<exists>x. nctx n' d = Some x \<and> ConnID x = key \<and> LoopIdx x = j \<and> in_room x"
  proof (cases "rid = RoomID ctx' \<and> (j, key) = (LoopIdx ctx', ConnID ctx')")
    case True
    with m assms show ?thesis by auto
  next
    case False
    with m have "members (RoomManager (napp n)) rid (j, key) = Some d" by (auto simp: mem split: if_splits)
    with ok obtain x where "nctx n d = Some x" "ConnID x = key" "LoopIdx x = j" "in_room x"
      by (force simp: members_ok_def)
    with assms show ?thesis by (cases "d = c") auto
  qed
qed

lemma all_listed_join:
  assumes ok: "all_listed n opn" and n': "nctx n' = (nctx n)(c \<mapsto> ctx')"
    and mem: "members (RoomManager (napp n')) = (members (RoomManager (napp n)))(RoomID ctx' :=
      (members (RoomManager (napp n)) (RoomID ctx'))((LoopIdx ctx', ConnID ctx') \<mapsto> c))"
    and distinct: "\<And>d x. nctx n d = Some x \<Longrightarrow> d \<noteq> c \<Longrightarrow> ConnID x \<noteq> ConnID ctx'"
  shows "all_listed n' opn"
  unfolding all_listed_def
proof (intro ballI allI impI)
  fix d x assume d: "d \<in> opn" "nctx n' d = Some x" "in_room x"
  show "members (RoomManager (napp n')) (RoomID x) (LoopIdx x, ConnID x) = Some d"
  proof (cases "d = c")
    case True
    with d n' mem show ?thesis by auto
  next
    case False
    with d n' have x: "nctx n d = Some x" by simp
    with ok d have "members (RoomManager (napp n)) (RoomID x) (LoopIdx x, ConnID x) = Some d" by (simp add: all_listed_def)
    with distinct [OF x False] show ?thesis by (auto simp: mem)
  qed
qed

lemma place_inv_join:
  assumes inv: "place_inv E s" and ids: "ids_ok (nctx (nd s)) k" and E: "EventLoopOf env = E"
    and ctx: "nctx (nd s) c = Some ctx" and ok: "join_refusal (napp (nd s)) req = None"
  shows "place_inv E (s\<lparr>nd := join_node env c ctx req (nd s), pend := p\<rparr>)"
proof -
  let ?n = "nd s" and ?n' = "join_node env c ctx req (nd s)"
  let ?M = "RoomManager (napp ?n)"
  have wf: "wf_manager ?M" and ord: "in_order E (LoopSt (napp ?n))" and fin: "finite (ran E)"
    and card: "card (ran E) \<le> loopCount ?M" using inv by (simp_all add: place_inv_def)
  have geo: "0 < loopCount ?M" "loopCount ?M \<le> 64" using wf by (auto simp: wf_manager_def wf_geometry_def)
  then have small: "card (ran E) < 2 ^ 31" using card by simp
  obtain i ls where r: "ResolveLoopIdx E (Some c) (LoopSt (napp ?n)) = (i, ls)" by fastforce
  note at = resolve_at_loop [OF ord fin small r]
  let ?ctx' = "ctx\<lparr>UserID := join_UserId req, RoomID := join_RoomId req, IsPremium := join_IsPremium req, LoopIdx := i\<rparr>"
  have nctx: "nctx ?n' = (nctx ?n)(c \<mapsto> ?ctx')" and ls: "LoopSt (napp ?n') = ls" and cfg: "Cfg (napp ?n') = Cfg (napp ?n)"
    and rm: "RoomManager (napp ?n') = AddConnInLoop ?M (join_RoomId req) i (ConnID ctx) (Some c)"
    by (simp_all add: join_node_def E r Let_def)
  have id: "ConnID ctx \<noteq> ''''" using inv ctx by (auto simp: place_inv_def contexts_ok_def)
  have req: "positive (join_RoomId req)" "positive (join_UserId req)" "\<not> isUserBanned (napp ?n) (join_UserId req)"
    using ok by (auto simp: join_refusal_def isUserBanned_def split: if_splits)
  have slot: "valid_slot ?M (join_RoomId req) i (ConnID ctx)"
    using at(3) [OF card geo(1)] id req(1) by (simp add: valid_slot_def)
  have mem: "members (RoomManager (napp ?n')) =
      (members ?M)(join_RoomId req := (members ?M (join_RoomId req))((i, ConnID ctx) \<mapsto> c))"
    using slot by (auto simp: rm members_Add [OF wf] fun_eq_iff)
  have pl: "placed E ?n d x \<Longrightarrow> placed E ?n' d x" for d x
    using at(2) by (simp add: placed_def isUserBanned_def cfg ls)
  have same_idx: "LoopIdx ctx = i" if "in_room ctx"
  proof -
    have "at_loop E ls c (LoopIdx ctx)" using that inv ctx at(2) by (auto simp: place_inv_def contexts_ok_def placed_def)
    with at(1) show ?thesis by (auto simp: at_loop_def split: option.splits)
  qed
  have distinct: "ConnID x \<noteq> ConnID ctx" if "nctx ?n d = Some x" "d \<noteq> c" for d x
    using ids that ctx by (auto simp: ids_ok_def)
  have ok_new: "ConnID ?ctx' = ConnID ctx" "LoopIdx ?ctx' = i" "in_room ?ctx'" "placed E ?n' c ?ctx'"
    using req at(1) by (simp_all add: in_room_def placed_def isUserBanned_def cfg ls)
  have mem': "members (RoomManager (napp ?n')) =
      (members ?M)(RoomID ?ctx' := (members ?M (RoomID ?ctx'))((LoopIdx ?ctx', ConnID ?ctx') \<mapsto> c))" by (simp add: mem)
  have "contexts_ok E ?n'"
    using inv pl ok_new(4) id unfolding place_inv_def contexts_ok_def nctx by (auto simp: in_room_def)
  moreover have "members_ok ?n'"
    using inv same_idx by (intro members_ok_join [OF _ ctx nctx mem']) (simp_all add: place_inv_def ok_new)
  moreover have "all_listed ?n' (opened s)"
    using inv distinct by (intro all_listed_join [OF _ nctx mem']) (simp_all add: place_inv_def)
  moreover have "in_order E ls" using resolve_in_order(1) [OF ord fin small r] .
  ultimately show ?thesis using fin card by (simp add: place_inv_def ls rm wf_Add [OF wf])
qed

text \<open>A close takes out the entry the context names, and nothing of another connection.\<close>

lemma place_inv_close:
  assumes inv: "place_inv E s" and ids: "ids_ok (nctx (nd s)) k" and ctx: "nctx (nd s) c = Some ctx"
    and cl: "OnClose True now c (nd s) = (act, n)"
  shows "place_inv E (s\<lparr>nd := n, opened := opened s - {c}\<rparr>)"
proof -
  let ?M = "RoomManager (napp (nd s))"
  have wf: "wf_manager ?M" using inv by (simp add: place_inv_def)
  have n: "nctx n = nctx (nd s)" "LoopSt (napp n) = LoopSt (napp (nd s))" "Cfg (napp n) = Cfg (napp (nd s))"
    using cl ctx by (auto simp: OnClose_def Let_def)
  have "RoomManager (napp n) = ?M \<or> RoomManager (napp n) = RemoveConnInLoop now ?M (RoomID ctx) (LoopIdx ctx) (ConnID ctx)"
    using cl ctx by (auto simp: OnClose_def Let_def)
  then have rm: "wf_manager (RoomManager (napp n))" "loopCount (RoomManager (napp n)) = loopCount ?M"
    and sub: "members (RoomManager (napp n)) r key = Some d \<Longrightarrow> members ?M r key = Some d"
    and keep: "members ?M r (i, id) = Some d \<Longrightarrow> id \<noteq> ConnID ctx \<Longrightarrow> members (RoomManager (napp n)) r (i, id) = Some d"
    for r key d i id
    using wf by (auto simp: wf_Remove members_Remove split: if_splits)
  have distinct: "ConnID x \<noteq> ConnID ctx" if "nctx (nd s) d = Some x" "d \<noteq> c" for d x
    using ids that ctx by (auto simp: ids_ok_def)
  have pl: "placed E n d x = placed E (nd s) d x" for d x by (simp add: placed_def isUserBanned_def n)
  have "contexts_ok E n" using inv by (simp add: place_inv_def contexts_ok_def n pl)
  moreover have "members_ok n"
    using inv sub unfolding place_inv_def members_ok_def n(1) by blast
  moreover have "all_listed n (opened s - {c})"
    using inv keep distinct unfolding place_inv_def all_listed_def n(1) by blast
  ultimately show ?thesis using inv rm by (simp add: place_inv_def n)
qed

text \<open>A room holds a connection at most once, so no room outgrows the connections ever accepted.\<close>

lemma members_once:
  assumes "members_ok n" and "members (RoomManager (napp n)) r key = Some c" "members (RoomManager (napp n)) r' key' = Some c"
  shows "key = key'"
  using assms unfolding members_ok_def by (cases key; cases key') fastforce

lemma ids_ok_card: "ids_ok ctxs k \<Longrightarrow> finite (dom ctxs) \<and> card (dom ctxs) \<le> k"
proof -
  assume ok: "ids_ok ctxs k"
  let ?f = "\<lambda>c. ConnID (the (ctxs c))" and ?S = "(\<lambda>j. FormatUint (of_nat j)) ` {1..k}"
  have inj: "inj_on ?f (dom ctxs)" using ok by (intro inj_onI) (auto simp: ids_ok_def)
  have img: "?f ` dom ctxs \<subseteq> ?S" using ok by (fastforce simp: ids_ok_def)
  have fin: "finite ?S" by simp
  have "card (dom ctxs) \<le> card ?S" using card_inj_on_le [OF inj img fin] .
  also have "\<dots> \<le> k" using card_image_le [of "{1..k}"] by simp
  finally show ?thesis using inj_on_finite [OF inj img fin] by simp
qed

lemma place_inv_small:
  assumes inv: "place_inv E s" and ids: "ids_ok (nctx (nd s)) k" and k: "k < 2 ^ 31"
  shows "small_manager (RoomManager (napp (nd s)))"
proof (rule small_from_members)
  show "wf_manager (RoomManager (napp (nd s)))" using inv by (simp add: place_inv_def)
  fix r
  let ?m = "members (RoomManager (napp (nd s))) r"
  have ok: "members_ok (nd s)" using inv by (simp add: place_inv_def)
  have "inj_on (\<lambda>key. the (?m key)) (dom ?m)"
  proof (rule inj_onI)
    fix x y assume "x \<in> dom ?m" "y \<in> dom ?m" and eq: "the (?m x) = the (?m y)"
    then obtain c d where "?m x = Some c" "?m y = Some d" by blast
    with eq members_once [OF ok, of r x c r y] show "x = y" by simp
  qed
  moreover have "(\<lambda>key. the (?m key)) ` dom ?m \<subseteq> dom (nctx (nd s))"
    using ok by (fastforce simp: members_ok_def)
  ultimately have "card (dom ?m) \<le> card (dom (nctx (nd s)))"
    using card_inj_on_le ids_ok_card [OF ids] by blast
  then show "card (dom ?m) < 2 ^ 31" using ids_ok_card [OF ids] k by linarith
qed

section \<open>The steps\<close>

text \<open>A task either joins its connection to a room or leaves all places alone.\<close>

lemma HandleInbound_split:
  assumes "HandleInbound env cdc (Some t) n = (es, n')"
  obtains (same) "same_places n n'"
    | (joined) ctx req where "nctx n (task_Conn t) = Some ctx" "join_refusal (napp n) req = None"
        "es = []" "n' = join_node env (task_Conn t) ctx req n"
        "\<exists>frame. Unmarshal_Frame cdc (task_Data t) = Some frame \<and> f_Op frame = OpType_OP_JOIN_ROOM \<and>
           Unmarshal_JoinRoomReq cdc (f_Payload frame) = Some req"
proof (cases "\<exists>ctx frame req. nctx n (task_Conn t) = Some ctx \<and> 0 < length (task_Data t) \<and> length (task_Data t) \<le> 64 * 1024 \<and>
    Unmarshal_Frame cdc (task_Data t) = Some frame \<and> f_Op frame = OpType_OP_JOIN_ROOM \<and>
    Unmarshal_JoinRoomReq cdc (f_Payload frame) = Some req \<and> join_refusal (napp n) req = None")
  case True
  then obtain ctx frame req where f: "nctx n (task_Conn t) = Some ctx" "0 < length (task_Data t)" "length (task_Data t) \<le> 64 * 1024"
    "Unmarshal_Frame cdc (task_Data t) = Some frame" "f_Op frame = OpType_OP_JOIN_ROOM"
    and r: "Unmarshal_JoinRoomReq cdc (f_Payload frame) = Some req" "join_refusal (napp n) req = None" by blast
  have "HandleInbound env cdc (Some t) n = ([], join_node env (task_Conn t) ctx req n)"
    unfolding HandleInbound_join [OF f] handleJoinRoom_eq [OF r(1)] r(2) by simp
  with assms f r show ?thesis by (intro joined) auto
next
  case False
  have "same_places n (snd (HandleInbound env cdc (Some t) n))"
  proof (rule HandleInbound_places, intro allI impI)
    fix t' frame ctx
    assume h: "Some t = Some t'" "nctx n (task_Conn t') = Some ctx" "Unmarshal_Frame cdc (task_Data t') = Some frame"
      "f_Op frame = OpType_OP_JOIN_ROOM" "0 < length (task_Data t')" "length (task_Data t') \<le> 64 * 1024"
    show "same_places n (snd (handleJoinRoom env cdc (task_Conn t') ctx frame n))"
    proof (cases "Unmarshal_JoinRoomReq cdc (f_Payload frame)")
      case None
      then show ?thesis by (simp add: handleJoinRoom_def)
    next
      case (Some req)
      with False h show ?thesis by (auto simp: handleJoinRoom_eq split: option.splits)
    qed
  qed
  with assms same show ?thesis by simp
qed

lemma quiet_do:
  assumes "node_do cdc ev s = Some (act, es, s')"
    and "(\<exists>t. ev = HeartbeatTick t) \<or> (\<exists>ts. ev = ReloadTicks ts) \<or> (\<exists>env u r. ev = Kick env u r) \<or>
      (\<exists>env r t m. ev = Announce env r t m) \<or> (\<exists>env t m. ev = AnnounceAll env t m)"
  obtains n where "same_places (nd s) n" and "s' = s\<lparr>nd := n\<rparr>"
  using assms step_places by (auto split: prod.splits) (metis snd_conv)+

definition agrees :: "(conn \<Rightarrow> event_loop option) \<Rightarrow> node_event \<Rightarrow> bool" where
  "agrees E ev \<longleftrightarrow> (case ev of Work env k \<Rightarrow> EventLoopOf env = E | _ \<Rightarrow> True)"

lemma OnOpen_places:
  assumes "OnOpen True now c n = (act, n')" and "nctx n c = None"
  shows "act = ActClose \<and> same_places n n' \<or>
    act = ActNone \<and> (\<exists>ctx. nctx n' = (nctx n)(c \<mapsto> ctx) \<and> ConnID ctx \<noteq> '''' \<and> RoomID ctx = 0 \<and> UserID ctx = 0) \<and>
    RoomManager (napp n') = RoomManager (napp n) \<and> LoopSt (napp n') = LoopSt (napp n) \<and>
    Cfg (napp n') = Cfg (napp n) \<and> userConnCount (napp n') = userConnCount (napp n)"
  using assms by (auto simp: OnOpen_def Let_def NextConnID_def new_ConnContext_def split: if_splits)

lemma place_inv_do:
  assumes ev: "node_do cdc ev s = Some (act, es, s')" and "agrees E ev" and inv: "place_inv E s"
    and conn: "conn_inv limit s" and small: "issued s < 2 ^ 31"
  shows "place_inv E s'"
proof -
  have ids: "ids_ok (nctx (nd s)) (issued s)" and dom: "dom (nctx (nd s)) \<subseteq> seen s"
    and opn: "opened s \<subseteq> dom (nctx (nd s))" using conn by (simp_all add: conn_inv_def)
  have keep: "place_inv E (s\<lparr>nd := n\<rparr>)" if "same_places (nd s) n" for n
    using place_inv_same [OF that inv order_refl, of "pend s"] by simp
  show ?thesis
  proof (cases ev)
    case (Opened now c)
    obtain a n where o: "OnOpen True now c (nd s) = (a, n)" by fastforce
    have none: "nctx (nd s) c = None" using ev dom by (auto simp: Opened split: if_splits)
    from OnOpen_places [OF o none] show ?thesis
    proof (elim disjE conjE exE)
      assume "a = ActClose" "same_places (nd s) n"
      with ev o keep show ?thesis by (auto simp: Opened place_inv_def split: if_splits)
    next
      fix ctx assume "a = ActNone" "nctx n = (nctx (nd s))(c \<mapsto> ctx)" "ConnID ctx \<noteq> ''''" "RoomID ctx = 0"
        "RoomManager (napp n) = RoomManager (napp (nd s))" "LoopSt (napp n) = LoopSt (napp (nd s))"
        "Cfg (napp n) = Cfg (napp (nd s))"
      with ev o place_inv_open [OF inv none, of n ctx] show ?thesis by (auto simp: Opened in_room_def split: if_splits)
    qed
  next
    case (Read now accepts received c)
    with ev place_inv_same [OF _ inv order_refl] OnTraffic_places [of "nd s" True now accepts received c]
    show ?thesis by (auto split: if_splits prod.splits)
  next
    case (Work env k)
    then have k: "k < length (pend s)" using ev by (auto split: if_splits)
    obtain es' n where h: "HandleInbound env cdc (Some (pend s ! k)) (nd s) = (es', n)" by fastforce
    have s': "s' = s\<lparr>nd := n, pend := take k (pend s) @ drop (Suc k) (pend s)\<rparr>" using ev k h by (simp add: Work)
    from h show ?thesis
    proof (cases rule: HandleInbound_split)
      case same
      from place_inv_same [OF this inv order_refl] show ?thesis by (simp add: s')
    next
      case (joined ctx req)
      from \<open>agrees E ev\<close> have "EventLoopOf env = E" by (simp add: agrees_def Work)
      from place_inv_join [OF inv ids this joined(1,2)] show ?thesis by (simp add: s' joined(4))
    qed
  next
    case (Closed now c)
    obtain a n where o: "OnClose True now c (nd s) = (a, n)" by fastforce
    have "c \<in> opened s" using ev by (auto simp: Closed split: if_splits)
    moreover from this opn obtain ctx where "nctx (nd s) c = Some ctx" by blast
    ultimately show ?thesis using ev o place_inv_close [OF inv ids _ o] by (auto simp: Closed)
  next
    case (CleanerTick now)
    let ?M = "RoomManager (napp (nd s))"
    have wf: "wf_manager ?M" using inv by (simp add: place_inv_def)
    note sm = place_inv_small [OF inv ids small]
    have "members (room_cleaner_tick ?M now 180) = members ?M" by (intro ext) (simp add: members_room_cleaner_tick [OF wf sm])
    with ev inv room_cleaner_tick_spec(1,2) [OF wf] show ?thesis
      by (auto simp: CleanerTick place_inv_def contexts_ok_def placed_def isUserBanned_def members_ok_def all_listed_def)
  qed (rule quiet_do [OF ev]; simp add: keep)+
qed

text \<open>Runs from a new node, where the environment of every task names the same event loops.\<close>

lemma place_inv_run:
  assumes run: "node_run cdc evs (start_sys a) = Some (es, s)" and E: "list_all (agrees E) evs"
    and new: "New numCPU ok stat file cfg = NewApp a" and lim: "sint (MaxConns cfg) = int limit" "limit < 2 ^ 62"
    and loops: "finite (ran E)" "int (card (ran E)) \<le> max 1 numCPU" and small: "issued s < 2 ^ 31"
  shows "place_inv E s \<and> conn_inv limit s"
proof -
  note facts = New_facts [OF new]
  have "conn_inv limit (start_sys a)"
    using lim by (simp add: conn_inv_def start_sys_def new_node_def facts ids_ok_def table_ok_def)
  moreover have "place_inv E (start_sys a)"
    using loops facts in_order_new_loops [of E]
    by (simp add: place_inv_def start_sys_def new_node_def contexts_ok_def members_ok_def all_listed_def)
  ultimately have start: "place_inv E (start_sys a) \<and> conn_inv limit (start_sys a)" by simp
  show ?thesis
    using run E small
  proof (induction rule: node_run_rev_induct)
    case none
    show ?case by (rule start)
  next
    case (snoc evs es s ev act es' s')
    have step: "sys_step cdc s s'" using snoc.hyps(2) by (rule node_do_step)
    have le: "issued s < 2 ^ 31" using issued_mono [OF step] snoc.prems(2) by simp
    with snoc have inv: "place_inv E s" "conn_inv limit s" and ag: "agrees E ev" by auto
    have "issued s' < 2 ^ 64" using snoc.prems(2) by simp
    with place_inv_do [OF snoc.hyps(2) ag inv le] conn_inv_step [OF step inv(2) lim(2)] show ?case by simp
  qed
qed

section \<open>Users\<close>

text \<open>The open connections of a user that are in a room, and what the code's count says of them.\<close>

definition conns_of :: "sys \<Rightarrow> int64 \<Rightarrow> conn set" where
  "conns_of s u = {c \<in> opened s. \<exists>ctx. nctx (nd s) c = Some ctx \<and> in_room ctx \<and> UserID ctx = u}"

definition users_ok :: "sys \<Rightarrow> bool" where
  "users_ok s \<longleftrightarrow> (\<forall>u. int (card (conns_of s u)) \<le> sint (user_count (userConnCount (napp (nd s))) u) \<and>
     sint (user_count (userConnCount (napp (nd s))) u) \<le> max 0 (sint (MaxConnsPerUser (Cfg (napp (nd s))))))"

definition users_exact :: "sys \<Rightarrow> bool" where
  "users_exact s \<longleftrightarrow> (\<forall>u. sint (user_count (userConnCount (napp (nd s))) u) = int (card (conns_of s u)))"

lemma finite_conns_of: "finite (opened s) \<Longrightarrow> finite (conns_of s u)"
  by (simp add: conns_of_def)

lemma sint_plus_1: "sint (x :: int64) < 2 ^ 62 \<Longrightarrow> sint (x + 1) = sint x + 1"
proof -
  assume "sint x < 2 ^ 62"
  moreover have "- (2 ^ 63) \<le> sint x" using sint_ge [of x] by simp
  moreover have "x + 1 = of_int (sint x + 1)" by simp
  ultimately show ?thesis
    by (simp only: signed_of_int) (simp add: signed_take_bit_int_eq_self_iff)
qed

lemma sint_minus_1: "0 \<le> sint (x :: int64) \<Longrightarrow> sint (x - 1) = sint x - 1"
proof -
  assume "0 \<le> sint x"
  moreover have "sint x < 2 ^ 63" using sint_lt [of x] by simp
  moreover have "x - 1 = of_int (sint x - 1)" by simp
  ultimately show ?thesis
    by (simp only: signed_of_int) (simp add: signed_take_bit_int_eq_self_iff)
qed

lemma user_count_add:
  assumes "fst (addUserConn mx uc u)" and "sint (user_count uc u) < 2 ^ 62"
  shows "sint (user_count (snd (addUserConn mx uc u)) v) = sint (user_count uc v) + (if v = u then 1 else 0)"
    and "sint (user_count uc u) + 1 \<le> sint mx"
  using assms sint_plus_1 [OF assms(2)]
  by (auto simp: addUserConn_def Let_def user_count_def split: if_splits)

lemma user_count_remove:
  assumes "1 \<le> sint (user_count uc u)"
  shows "sint (user_count (RemoveUserConn uc u) v) = sint (user_count uc v) - (if v = u then 1 else 0)"
proof -
  have "0 \<le> sint (user_count uc u)" using assms by simp
  from sint_minus_1 [OF this] assms show ?thesis
    by (auto simp: RemoveUserConn_def Let_def user_count_def split: if_splits)
qed

lemma conns_of_same:
  assumes "same_places (nd s) n"
  shows "conns_of (s\<lparr>nd := n, pend := p\<rparr>) u = conns_of s u"
  using same_places_ctxD [OF assms] by (fastforce simp: conns_of_def in_room_def place_eq_iff)

lemma same_places_users:
  "same_places (nd s) n \<Longrightarrow> users_ok (s\<lparr>nd := n, pend := p\<rparr>) = users_ok s"
  "same_places (nd s) n \<Longrightarrow> users_exact (s\<lparr>nd := n, pend := p\<rparr>) = users_exact s"
  using conns_of_same [of s n p] by (simp_all add: users_ok_def users_exact_def) (simp_all add: same_places_def)

text \<open>A join: one more for the user; one less for the user the connection was in a room for.\<close>

lemma conns_of_join:
  assumes "nctx (nd s) c = Some ctx" and "join_refusal (napp (nd s)) req = None"
  shows "conns_of (s\<lparr>nd := join_node env c ctx req (nd s), pend := p\<rparr>) u =
    (if u = join_UserId req \<and> c \<in> opened s then insert c (conns_of s u) else conns_of s u - {c})"
proof -
  have "positive (join_RoomId req)" using assms(2) by (auto simp: join_refusal_def split: if_splits)
  with assms(1) show ?thesis
    by (auto simp: conns_of_def join_node_def Let_def in_room_def split: prod.splits)
qed

lemma join_counts:
  assumes "users_ok s" and lim: "sint (MaxConnsPerUser (Cfg (napp (nd s)))) < 2 ^ 62"
    and ctx: "nctx (nd s) c = Some ctx" and ok: "join_refusal (napp (nd s)) req = None"
  shows "sint (user_count (userConnCount (napp (join_node env c ctx req (nd s)))) v) =
      sint (user_count (userConnCount (napp (nd s))) v) + (if v = join_UserId req then 1 else 0)"
    and "sint (user_count (userConnCount (napp (nd s))) (join_UserId req)) + 1 \<le> sint (MaxConnsPerUser (Cfg (napp (nd s))))"
    and "Cfg (napp (join_node env c ctx req (nd s))) = Cfg (napp (nd s))"
proof -
  have adm: "fst (addUserConn (MaxConnsPerUser (Cfg (napp (nd s)))) (userConnCount (napp (nd s))) (join_UserId req))"
    using ok by (auto simp: join_refusal_def split: if_splits)
  have "sint (user_count (userConnCount (napp (nd s))) (join_UserId req)) < 2 ^ 62"
    using assms(1) lim unfolding users_ok_def by (metis max_less_iff_conj order_le_less_trans zero_less_numeral zero_less_power)
  note add = user_count_add [OF adm this]
  have uc: "userConnCount (napp (join_node env c ctx req (nd s))) = snd (addUserConn (MaxConnsPerUser (Cfg (napp (nd s))))
      (userConnCount (napp (nd s))) (join_UserId req))"
    by (simp add: join_node_def Let_def split: prod.splits)
  show "sint (user_count (userConnCount (napp (join_node env c ctx req (nd s)))) v) =
      sint (user_count (userConnCount (napp (nd s))) v) + (if v = join_UserId req then 1 else 0)"
    unfolding uc by (rule add(1))
  show "sint (user_count (userConnCount (napp (nd s))) (join_UserId req)) + 1 \<le> sint (MaxConnsPerUser (Cfg (napp (nd s))))"
    by (rule add(2))
  show "Cfg (napp (join_node env c ctx req (nd s))) = Cfg (napp (nd s))"
    by (simp add: join_node_def Let_def split: prod.splits)
qed

lemma users_join:
  assumes inv: "users_ok s" and fin: "finite (opened s)"
    and lim: "sint (MaxConnsPerUser (Cfg (napp (nd s)))) < 2 ^ 62"
    and ctx: "nctx (nd s) c = Some ctx" and ok: "join_refusal (napp (nd s)) req = None"
  shows "users_ok (s\<lparr>nd := join_node env c ctx req (nd s), pend := p\<rparr>)"
    and "users_exact s \<Longrightarrow> c \<in> opened s \<Longrightarrow> \<not> in_room ctx \<Longrightarrow>
      users_exact (s\<lparr>nd := join_node env c ctx req (nd s), pend := p\<rparr>)"
proof -
  let ?s = "s\<lparr>nd := join_node env c ctx req (nd s), pend := p\<rparr>"
  note cnt = join_counts [OF inv lim ctx ok]
  note cof = conns_of_join [OF ctx ok]
  have nds: "nd ?s = join_node env c ctx req (nd s)" by simp
  have f: "finite (conns_of s u)" for u using finite_conns_of [OF fin] .
  have le: "card (conns_of ?s u) \<le> card (conns_of s u) + (if u = join_UserId req then 1 else 0)" for u
  proof (cases "u = join_UserId req \<and> c \<in> opened s")
    case True
    then show ?thesis using f [of u] by (simp add: cof card_insert_if)
  next
    case False
    then show ?thesis using card_Diff1_le [of "conns_of s u" c] by (simp only: cof if_False)
  qed
  show "users_ok ?s"
    unfolding users_ok_def
  proof (intro allI conjI)
    fix u
    have "int (card (conns_of s u)) \<le> sint (user_count (userConnCount (napp (nd s))) u)"
      using inv by (simp add: users_ok_def)
    moreover have "sint (user_count (userConnCount (napp (nd ?s))) u) =
        sint (user_count (userConnCount (napp (nd s))) u) + (if u = join_UserId req then 1 else 0)"
      unfolding nds by (rule cnt(1))
    ultimately show "int (card (conns_of ?s u)) \<le> sint (user_count (userConnCount (napp (nd ?s))) u)"
      using le [of u] by (auto split: if_split_asm)
    show "sint (user_count (userConnCount (napp (nd ?s))) u) \<le> max 0 (sint (MaxConnsPerUser (Cfg (napp (nd ?s)))))"
      using inv cnt(1) [of env u] cnt(2) cnt(3) [of env] by (auto simp: users_ok_def)
  qed
  assume ex: "users_exact s" "c \<in> opened s" "\<not> in_room ctx"
  then have "c \<notin> conns_of s u" for u using ctx by (auto simp: conns_of_def)
  with ex cnt(1) f show "users_exact ?s" by (simp add: users_exact_def cof)
qed

lemma users_close:
  assumes inv: "users_ok s" and ctxs: "contexts_ok E (nd s)" and fin: "finite (opened s)" and c: "c \<in> opened s"
    and ctx: "nctx (nd s) c = Some ctx" and cl: "OnClose True now c (nd s) = (act, n)"
  shows "users_ok (s\<lparr>nd := n, opened := opened s - {c}\<rparr>)"
    and "users_exact s \<Longrightarrow> users_exact (s\<lparr>nd := n, opened := opened s - {c}\<rparr>)"
    and "sint (user_count (userConnCount (napp n)) u) =
      sint (user_count (userConnCount (napp (nd s))) u) - (if in_room ctx \<and> u = UserID ctx then 1 else 0)"
proof -
  let ?s = "s\<lparr>nd := n, opened := opened s - {c}\<rparr>"
  have nx: "nctx n = nctx (nd s)" "Cfg (napp n) = Cfg (napp (nd s))"
    and uc: "userConnCount (napp n) =
      (if in_room ctx \<and> positive (UserID ctx) then RemoveUserConn (userConnCount (napp (nd s))) (UserID ctx)
       else userConnCount (napp (nd s)))"
    using cl ctx by (auto simp: OnClose_def Let_def in_room_def)
  have pos: "in_room ctx \<Longrightarrow> positive (UserID ctx)" using ctxs ctx by (auto simp: contexts_ok_def placed_def)
  have f: "finite (conns_of s v)" for v using finite_conns_of [OF fin] .
  have cof: "conns_of ?s v = conns_of s v - {c}" for v by (auto simp: conns_of_def nx)
  have own: "c \<in> conns_of s v \<longleftrightarrow> in_room ctx \<and> v = UserID ctx" for v using c ctx by (auto simp: conns_of_def)
  have one: "1 \<le> sint (user_count (userConnCount (napp (nd s))) (UserID ctx))" if "in_room ctx"
  proof -
    have "1 \<le> card (conns_of s (UserID ctx))"
      using own [of "UserID ctx"] that f [of "UserID ctx"] by (metis card_0_eq empty_iff less_one linorder_not_le)
    with inv show ?thesis unfolding users_ok_def by (smt (verit) of_nat_1 of_nat_mono)
  qed
  show cnt: "sint (user_count (userConnCount (napp n)) u) =
      sint (user_count (userConnCount (napp (nd s))) u) - (if in_room ctx \<and> u = UserID ctx then 1 else 0)" for u
    using user_count_remove [OF one] pos by (cases "in_room ctx") (simp_all add: uc)
  have card: "int (card (conns_of ?s v)) = int (card (conns_of s v)) - (if in_room ctx \<and> v = UserID ctx then 1 else 0)" for v
  proof (cases "c \<in> conns_of s v")
    case True
    with f [of v] have "card (conns_of s v) = Suc (card (conns_of s v - {c}))" by (rule card.remove)
    with True show ?thesis unfolding cof own by simp
  next
    case False
    then show ?thesis unfolding cof by (simp add: own [symmetric])
  qed
  have nds: "nd ?s = n" by simp
  show "users_ok ?s"
    unfolding users_ok_def nds nx
  proof (intro allI conjI)
    fix v
    have old: "int (card (conns_of s v)) \<le> sint (user_count (userConnCount (napp (nd s))) v)"
      "sint (user_count (userConnCount (napp (nd s))) v) \<le> max 0 (sint (MaxConnsPerUser (Cfg (napp (nd s)))))"
      using inv by (auto simp: users_ok_def)
    show "int (card (conns_of ?s v)) \<le> sint (user_count (userConnCount (napp n)) v)"
      unfolding card cnt using old(1) by simp
    show "sint (user_count (userConnCount (napp n)) v) \<le> max 0 (sint (MaxConnsPerUser (Cfg (napp (nd s)))))"
      unfolding cnt using old(2) by (auto split: if_split)
  qed
  show "users_exact s \<Longrightarrow> users_exact ?s"
    unfolding users_exact_def nds card cnt by simp
qed

lemma users_open:
  assumes "nctx (nd s) c = None" and "nctx n = (nctx (nd s))(c \<mapsto> ctx)" and "\<not> in_room ctx"
    and "userConnCount (napp n) = userConnCount (napp (nd s))" "Cfg (napp n) = Cfg (napp (nd s))"
  shows "users_ok (s\<lparr>nd := n, opened := insert c (opened s), seen := S, issued := k\<rparr>) = users_ok s"
    and "users_exact (s\<lparr>nd := n, opened := insert c (opened s), seen := S, issued := k\<rparr>) = users_exact s"
proof -
  have "conns_of (s\<lparr>nd := n, opened := insert c (opened s), seen := S, issued := k\<rparr>) u = conns_of s u" for u
    using assms(1-3) by (auto simp: conns_of_def)
  then show "users_ok (s\<lparr>nd := n, opened := insert c (opened s), seen := S, issued := k\<rparr>) = users_ok s"
    and "users_exact (s\<lparr>nd := n, opened := insert c (opened s), seen := S, issued := k\<rparr>) = users_exact s"
    using assms(4,5) by (simp_all add: users_ok_def users_exact_def)
qed

section \<open>Rooms without strays\<close>

definition is_join :: "codec \<Rightarrow> bytes \<Rightarrow> bool" where
  "is_join cdc data \<longleftrightarrow>
     (case Unmarshal_Frame cdc data of None \<Rightarrow> False | Some frame \<Rightarrow> f_Op frame = OpType_OP_JOIN_ROOM)"

text \<open>A join runs while its connection is open and in no room.\<close>

definition joins_once :: "codec \<Rightarrow> node_event \<Rightarrow> sys \<Rightarrow> bool" where
  "joins_once cdc ev s \<longleftrightarrow>
     (case ev of
        Work env k \<Rightarrow>
          if k < length (pend s) \<and> is_join cdc (task_Data (pend s ! k)) then
            task_Conn (pend s ! k) \<in> opened s \<and>
            (case nctx (nd s) (task_Conn (pend s ! k)) of None \<Rightarrow> True | Some ctx \<Rightarrow> \<not> in_room ctx)
          else True
      | _ \<Rightarrow> True)"

fun orderly :: "codec \<Rightarrow> node_event list \<Rightarrow> sys \<Rightarrow> bool" where
  "orderly cdc [] s = True"
| "orderly cdc (ev # evs) s =
    (joins_once cdc ev s \<and> (case node_do cdc ev s of None \<Rightarrow> True | Some (act, es, s') \<Rightarrow> orderly cdc evs s'))"

definition no_strays :: "sys \<Rightarrow> bool" where
  "no_strays s \<longleftrightarrow> (\<forall>r i k c. members (RoomManager (napp (nd s))) r (i, k) = Some c \<longrightarrow>
     c \<in> opened s \<and> (\<exists>ctx. nctx (nd s) c = Some ctx \<and> RoomID ctx = r))"

lemma placed_slot:
  assumes inv: "place_inv E s" and ctx: "nctx (nd s) c = Some ctx" "in_room ctx"
  shows "valid_slot (RoomManager (napp (nd s))) (RoomID ctx) (LoopIdx ctx) (ConnID ctx)"
proof -
  have "0 < loopCount (RoomManager (napp (nd s)))" using inv by (auto simp: place_inv_def wf_manager_def wf_geometry_def)
  moreover have at: "at_loop E (LoopSt (napp (nd s))) c (LoopIdx ctx)" and id: "ConnID ctx \<noteq> ''''"
    using inv ctx by (auto simp: place_inv_def contexts_ok_def placed_def)
  have "0 \<le> LoopIdx ctx \<and> LoopIdx ctx < int (loopCount (RoomManager (napp (nd s))))"
  proof (cases "E c")
    case None
    with at \<open>0 < loopCount _\<close> show ?thesis by (simp add: at_loop_def)
  next
    case (Some l)
    with at inv in_order_index(1) [of E "LoopSt (napp (nd s))" l "LoopIdx ctx"] show ?thesis
      by (fastforce simp: at_loop_def place_inv_def)
  qed
  ultimately show ?thesis using ctx id by (simp add: valid_slot_def in_room_def)
qed

lemma no_strays_close:
  assumes inv: "place_inv E s" and ns: "no_strays s" and ctx: "nctx (nd s) c = Some ctx"
    and cl: "OnClose True now c (nd s) = (act, n)"
  shows "no_strays (s\<lparr>nd := n, opened := opened s - {c}\<rparr>)"
proof -
  let ?M = "RoomManager (napp (nd s))"
  have wf: "wf_manager ?M" and mok: "members_ok (nd s)" using inv by (simp_all add: place_inv_def)
  have nx: "nctx n = nctx (nd s)" using cl ctx by (auto simp: OnClose_def Let_def)
  have "members (RoomManager (napp n)) r (i, k) = Some d \<Longrightarrow> members ?M r (i, k) = Some d \<and> d \<noteq> c" for r i k d
  proof (cases "in_room ctx")
    case True
    then have "positive (UserID ctx)" using inv ctx by (auto simp: place_inv_def contexts_ok_def placed_def)
    with True cl ctx have rm: "RoomManager (napp n) = RemoveConnInLoop now ?M (RoomID ctx) (LoopIdx ctx) (ConnID ctx)"
      by (auto simp: OnClose_def Let_def in_room_def)
    assume "members (RoomManager (napp n)) r (i, k) = Some d"
    then have m: "members ?M r (i, k) = Some d" and "\<not> (r = RoomID ctx \<and> i = LoopIdx ctx \<and> k = ConnID ctx)"
      using placed_slot [OF inv ctx True] by (auto simp: rm members_Remove [OF wf] split: if_splits)
    with ns mok ctx show ?thesis by (fastforce simp: no_strays_def members_ok_def)
  next
    case False
    with cl ctx have "RoomManager (napp n) = ?M" by (auto simp: OnClose_def Let_def in_room_def)
    moreover assume "members (RoomManager (napp n)) r (i, k) = Some d"
    ultimately show ?thesis using mok ctx False by (fastforce simp: members_ok_def)
  qed
  with ns show ?thesis unfolding no_strays_def by (simp add: nx) blast
qed

lemma no_strays_join:
  assumes inv: "place_inv E s" and ns: "no_strays s" and ctx: "nctx (nd s) c = Some ctx" and c: "c \<in> opened s" "\<not> in_room ctx"
    and ok: "join_refusal (napp (nd s)) req = None"
  shows "no_strays (s\<lparr>nd := join_node env c ctx req (nd s), pend := p\<rparr>)"
proof -
  let ?M = "RoomManager (napp (nd s))"
  have wf: "wf_manager ?M" and mok: "members_ok (nd s)" using inv by (simp_all add: place_inv_def)
  have out: "members ?M r (i, k) = Some d \<Longrightarrow> d \<noteq> c" for r i k d
    using mok ctx c(2) by (fastforce simp: members_ok_def)
  have mem: "members (RoomManager (napp (join_node env c ctx req (nd s)))) r (i, k) = Some d \<Longrightarrow>
      members ?M r (i, k) = Some d \<or> (r = join_RoomId req \<and> d = c)" for r i k d
    by (auto simp: join_node_def Let_def members_Add [OF wf] split: prod.splits if_splits)
  have nx: "nctx (join_node env c ctx req (nd s)) d = (if d = c then
      Some (ctx\<lparr>UserID := join_UserId req, RoomID := join_RoomId req, IsPremium := join_IsPremium req,
        LoopIdx := fst (ResolveLoopIdx (EventLoopOf env) (Some c) (LoopSt (napp (nd s))))\<rparr>) else nctx (nd s) d)" for d
    by (simp add: join_node_def Let_def split: prod.splits)
  show ?thesis
    unfolding no_strays_def
  proof (intro allI impI)
    fix r i k d
    assume "members (RoomManager (napp (nd (s\<lparr>nd := join_node env c ctx req (nd s), pend := p\<rparr>)))) r (i, k) = Some d"
    then have "members ?M r (i, k) = Some d \<or> (r = join_RoomId req \<and> d = c)" using mem by simp
    then have "members ?M r (i, k) = Some d \<and> d \<noteq> c \<or> (r = join_RoomId req \<and> d = c)" using out by blast
    with ns c(1) show "d \<in> opened (s\<lparr>nd := join_node env c ctx req (nd s), pend := p\<rparr>) \<and>
        (\<exists>x. nctx (nd (s\<lparr>nd := join_node env c ctx req (nd s), pend := p\<rparr>)) d = Some x \<and> RoomID x = r)"
      unfolding no_strays_def by (auto simp: nx)
  qed
qed

lemma no_strays_same:
  assumes "same_places (nd s) n"
  shows "no_strays (s\<lparr>nd := n, pend := p\<rparr>) = no_strays s"
  using same_places_ctxD [OF assms] assms
  by (fastforce simp: no_strays_def place_eq_iff same_places_def)

section \<open>All invariants along a run\<close>

text \<open>
  A new application whose limits are in range, on a host with an event loop for every CPU: gnet starts as
  many loops as there are CPUs, and \<open>New\<close> makes as many shards.
\<close>

definition new_app :: "(conn \<Rightarrow> event_loop option) \<Rightarrow> nat \<Rightarrow> app \<Rightarrow> bool" where
  "new_app E limit a \<longleftrightarrow>
     (\<exists>numCPU stat file. New numCPU True stat file (Cfg a) = NewApp a \<and> int (card (ran E)) \<le> max 1 numCPU) \<and> finite (ran E) \<and>
     sint (MaxConns (Cfg a)) = int limit \<and> limit < 2 ^ 62 \<and> sint (MaxConnsPerUser (Cfg a)) < 2 ^ 62"

definition node_inv :: "(conn \<Rightarrow> event_loop option) \<Rightarrow> nat \<Rightarrow> sys \<Rightarrow> bool" where
  "node_inv E limit s \<longleftrightarrow> place_inv E s \<and> conn_inv limit s \<and> users_ok s \<and>
     sint (MaxConnsPerUser (Cfg (napp (nd s)))) < 2 ^ 62"

definition exact_inv :: "sys \<Rightarrow> bool" where
  "exact_inv s \<longleftrightarrow> no_strays s \<and> users_exact s"

lemma node_inv_same:
  assumes "same_places (nd s) n"
  shows "users_ok s \<Longrightarrow> sint (MaxConnsPerUser (Cfg (napp (nd s)))) < 2 ^ 62 \<Longrightarrow>
      users_ok (s\<lparr>nd := n, pend := p\<rparr>) \<and> sint (MaxConnsPerUser (Cfg (napp n))) < 2 ^ 62"
    and "exact_inv s \<Longrightarrow> exact_inv (s\<lparr>nd := n, pend := p\<rparr>)"
  using same_places_users [OF assms, of p] no_strays_same [OF assms, of p] assms
  by (simp_all add: exact_inv_def) (simp add: same_places_def)

lemma seen_irrelevant:
  "users_ok (s\<lparr>seen := S\<rparr>) = users_ok s" "exact_inv (s\<lparr>seen := S\<rparr>) = exact_inv s" "nd (s\<lparr>seen := S\<rparr>) = nd s"
  by (simp_all add: users_ok_def conns_of_def exact_inv_def users_exact_def no_strays_def)

text \<open>What a step does to the users and the exactness of the rooms; the other parts have their lemmas.\<close>

lemma users_opened:
  assumes ev: "node_do cdc (Opened now c) s = Some (act, es, s')" and inv: "node_inv E limit s"
  shows "users_ok s' \<and> sint (MaxConnsPerUser (Cfg (napp (nd s')))) < 2 ^ 62 \<and>
    (exact_inv s \<longrightarrow> joins_once cdc (Opened now c) s \<longrightarrow> exact_inv s')"
proof -
  have u: "users_ok s" and lim: "sint (MaxConnsPerUser (Cfg (napp (nd s)))) < 2 ^ 62"
    and dom: "dom (nctx (nd s)) \<subseteq> seen s" using inv by (simp_all add: node_inv_def conn_inv_def)
  obtain a n where o: "OnOpen True now c (nd s) = (a, n)" by fastforce
  have none: "nctx (nd s) c = None" using ev dom by (auto split: if_splits)
  from OnOpen_places [OF o none] show ?thesis
  proof (elim disjE conjE exE)
    assume "a = ActClose" and same: "same_places (nd s) n"
    note keep = node_inv_same [OF same, of "pend s"] u lim
    moreover from \<open>a = ActClose\<close> ev o have s': "s' = (s\<lparr>nd := n\<rparr>)\<lparr>seen := insert c (seen s)\<rparr>" by (auto split: if_splits)
    ultimately show ?thesis using keep unfolding s' seen_irrelevant by simp
  next
    fix ctx assume a: "a = ActNone" and n: "nctx n = (nctx (nd s))(c \<mapsto> ctx)" "RoomID ctx = 0"
      "userConnCount (napp n) = userConnCount (napp (nd s))" "Cfg (napp n) = Cfg (napp (nd s))"
      "RoomManager (napp n) = RoomManager (napp (nd s))"
    have nr: "\<not> in_room ctx" using n(2) by (simp add: in_room_def)
    have s': "s' = s\<lparr>nd := n, opened := insert c (opened s), seen := insert c (seen s), issued := Suc (issued s)\<rparr>"
      using ev o a by (auto split: if_splits)
    have "no_strays s \<longrightarrow> no_strays s'" using none n by (fastforce simp: s' no_strays_def)
    with users_open [OF none n(1) nr n(3,4)] u lim n(4) show ?thesis by (simp add: s' exact_inv_def)
  qed
qed

lemma users_work:
  assumes ev: "node_do cdc (Work env k) s = Some (act, es, s')" and inv: "node_inv E limit s"
  shows "users_ok s' \<and> sint (MaxConnsPerUser (Cfg (napp (nd s')))) < 2 ^ 62 \<and>
    (exact_inv s \<longrightarrow> joins_once cdc (Work env k) s \<longrightarrow> exact_inv s')"
proof -
  have p: "place_inv E s" and u: "users_ok s" and fin: "finite (opened s)"
    and lim: "sint (MaxConnsPerUser (Cfg (napp (nd s)))) < 2 ^ 62" using inv by (simp_all add: node_inv_def conn_inv_def)
  have k: "k < length (pend s)" using ev by (auto split: if_splits)
  obtain es' n where h: "HandleInbound env cdc (Some (pend s ! k)) (nd s) = (es', n)" by fastforce
  let ?p = "take k (pend s) @ drop (Suc k) (pend s)" and ?c = "task_Conn (pend s ! k)"
  have s': "s' = s\<lparr>nd := n, pend := ?p\<rparr>" using ev k h by simp
  from h show ?thesis
  proof (cases rule: HandleInbound_split)
    case same
    from node_inv_same [OF this, of ?p] u lim show ?thesis by (simp add: s')
  next
    case (joined ctx req)
    have "exact_inv s'" if ex: "exact_inv s" and jo: "joins_once cdc (Work env k) s"
    proof -
      have c: "?c \<in> opened s" "\<not> in_room ctx"
        using jo joined(1,5) k by (auto simp: joins_once_def is_join_def)
      from ex no_strays_join [OF p _ joined(1) c joined(2)] users_join(2) [OF u fin lim joined(1,2) _ c]
      show ?thesis by (simp add: exact_inv_def s' joined(4))
    qed
    with users_join(1) [OF u fin lim joined(1,2)] join_counts(3) [OF u lim joined(1,2)] lim
    show ?thesis by (simp add: s' joined(4))
  qed
qed

lemma users_do:
  assumes ev: "node_do cdc ev s = Some (act, es, s')" and inv: "node_inv E limit s"
    and small: "issued s < 2 ^ 31"
  shows "users_ok s' \<and> sint (MaxConnsPerUser (Cfg (napp (nd s')))) < 2 ^ 62 \<and>
    (exact_inv s \<longrightarrow> joins_once cdc ev s \<longrightarrow> exact_inv s')"
proof -
  have p: "place_inv E s" and conn: "conn_inv limit s" and u: "users_ok s"
    and lim: "sint (MaxConnsPerUser (Cfg (napp (nd s)))) < 2 ^ 62" using inv by (simp_all add: node_inv_def)
  have ids: "ids_ok (nctx (nd s)) (issued s)" and dom: "dom (nctx (nd s)) \<subseteq> seen s"
    and opn: "opened s \<subseteq> dom (nctx (nd s))" and fin: "finite (opened s)" using conn by (simp_all add: conn_inv_def)
  have keep: "users_ok (s\<lparr>nd := n\<rparr>) \<and> sint (MaxConnsPerUser (Cfg (napp n))) < 2 ^ 62 \<and>
      (exact_inv s \<longrightarrow> exact_inv (s\<lparr>nd := n\<rparr>))" if "same_places (nd s) n" for n
    using node_inv_same [OF that, of "pend s"] u lim by simp
  have quiet: ?thesis if "same_places (nd s) n" "s' = s\<lparr>nd := n\<rparr>" for n
    using keep [OF that(1)] that(2) by simp
  show ?thesis
  proof (cases ev)
    case (Opened now c)
    with users_opened inv ev show ?thesis by blast
  next
    case (Read now accepts received c)
    obtain a es2 n where t: "OnTraffic True now accepts received c (nd s) = (a, es2, n)" using prod_cases3 by blast
    have "same_places (nd s) n" using OnTraffic_places [of "nd s" True now accepts received c] t by simp
    from node_inv_same [OF this, of "pend s @ submitted es2"] u lim ev t show ?thesis by (auto simp: Read split: if_splits)
  next
    case (Work env k)
    with users_work inv ev show ?thesis by blast
  next
    case (Closed now c)
    obtain a n where o: "OnClose True now c (nd s) = (a, n)" by fastforce
    have c: "c \<in> opened s" using ev by (auto simp: Closed split: if_splits)
    then obtain ctx where ctx: "nctx (nd s) c = Some ctx" using opn by blast
    have "contexts_ok E (nd s)" using p by (simp add: place_inv_def)
    note uc = users_close [OF u this fin c ctx o]
    have s': "s' = s\<lparr>nd := n, opened := opened s - {c}\<rparr>" using ev o c by (simp add: Closed)
    have "Cfg (napp n) = Cfg (napp (nd s))" using o ctx by (auto simp: OnClose_def Let_def)
    with uc no_strays_close [OF p _ ctx o] lim show ?thesis by (simp add: s' exact_inv_def)
  next
    case (CleanerTick now)
    let ?M = "RoomManager (napp (nd s))"
    have wf: "wf_manager ?M" using p by (simp add: place_inv_def)
    note sm = place_inv_small [OF p ids small]
    have "members (room_cleaner_tick ?M now 180) = members ?M" by (intro ext) (simp add: members_room_cleaner_tick [OF wf sm])
    with ev u lim show ?thesis
      by (auto simp: CleanerTick users_ok_def conns_of_def exact_inv_def users_exact_def no_strays_def)
  qed (rule quiet_do [OF ev], blast, erule (1) quiet)+
qed

lemma start_inv:
  assumes "new_app E limit a"
  shows "node_inv E limit (start_sys a)" and "exact_inv (start_sys a)" and "limit < 2 ^ 62"
proof -
  from assms obtain numCPU stat fl where new: "New numCPU True stat fl (Cfg a) = NewApp a"
    and loops: "int (card (ran E)) \<le> max 1 numCPU" "finite (ran E)"
    and lim: "sint (MaxConns (Cfg a)) = int limit" "limit < 2 ^ 62" "sint (MaxConnsPerUser (Cfg a)) < 2 ^ 62"
    by (auto simp: new_app_def)
  note facts = New_facts [OF new]
  show "limit < 2 ^ 62" by (rule lim)
  have "place_inv E (start_sys a) \<and> conn_inv limit (start_sys a)"
  proof (rule place_inv_run [OF _ _ new lim(1,2) loops(2,1)])
    show "node_run undefined [] (start_sys a) = Some ([], start_sys a)" "list_all (agrees E) []"
      "issued (start_sys a) < 2 ^ 31" by (simp_all add: start_sys_def)
  qed
  moreover have none: "conns_of (start_sys a) u = {}" for u by (simp add: conns_of_def start_sys_def)
  moreover have uc: "user_count (userConnCount (napp (nd (start_sys a)))) u = 0" for u
    by (simp add: start_sys_def new_node_def facts user_count_def)
  moreover have "Cfg (napp (nd (start_sys a))) = Cfg a" by (simp add: start_sys_def new_node_def)
  ultimately show "node_inv E limit (start_sys a)"
    using lim(3) by (simp add: node_inv_def users_ok_def)
  show "exact_inv (start_sys a)"
    by (simp add: exact_inv_def users_exact_def none uc) (simp add: no_strays_def start_sys_def new_node_def facts)
qed

lemma node_inv_do:
  assumes ev: "node_do cdc ev s = Some (act, es, s')" "agrees E ev" and inv: "node_inv E limit s" "limit < 2 ^ 62"
    and small: "issued s' < 2 ^ 31"
  shows "node_inv E limit s'" and "exact_inv s \<Longrightarrow> joins_once cdc ev s \<Longrightarrow> exact_inv s'"
proof -
  have step: "sys_step cdc s s'" using ev(1) by (rule node_do_step)
  have le: "issued s < 2 ^ 31" using issued_mono [OF step] small by simp
  have p: "place_inv E s" "conn_inv limit s" using inv(1) by (simp_all add: node_inv_def)
  have "place_inv E s'" by (rule place_inv_do [OF ev p le])
  moreover have "conn_inv limit s'" using conn_inv_step [OF step p(2) inv(2)] small by simp
  ultimately show "node_inv E limit s'" and "exact_inv s \<Longrightarrow> joins_once cdc ev s \<Longrightarrow> exact_inv s'"
    using users_do [OF ev(1) inv(1) le] by (simp_all add: node_inv_def)
qed

lemma issued_run: "node_run cdc evs s = Some (es, s') \<Longrightarrow> issued s \<le> issued s'"
proof (induction evs arbitrary: s es)
  case (Cons ev evs)
  then obtain act es1 s1 es2 where "node_do cdc ev s = Some (act, es1, s1)" "node_run cdc evs s1 = Some (es2, s')"
    by (auto split: option.splits)
  with Cons.IH issued_mono [OF node_do_step] show ?case by fastforce
qed simp

lemma node_inv_run:
  assumes "node_run cdc evs s = Some (es, s')" "list_all (agrees E) evs" and "node_inv E limit s" "limit < 2 ^ 62"
    and "issued s' < 2 ^ 31"
  shows "node_inv E limit s'" and "exact_inv s \<Longrightarrow> orderly cdc evs s \<Longrightarrow> exact_inv s'"
  using assms
proof (atomize (full), induction evs arbitrary: s es)
  case (Cons ev evs)
  then obtain act es1 s1 es2 where d: "node_do cdc ev s = Some (act, es1, s1)" and r: "node_run cdc evs s1 = Some (es2, s')"
    by (auto split: option.splits)
  have "issued s1 < 2 ^ 31" using issued_run [OF r] Cons.prems by simp
  with node_inv_do [OF d] Cons.IH [OF r] Cons.prems d show ?case by auto
qed simp

section \<open>Strays stay\<close>

lemma stray_do:
  assumes ev: "node_do cdc ev s = Some (act, es, s')" and inv: "node_inv E limit s" and small: "issued s < 2 ^ 31"
    and c: "c \<in> seen s" "c \<notin> opened s" and m: "members (RoomManager (napp (nd s))) r (i, k) = Some c"
  shows "c \<in> seen s' \<and> c \<notin> opened s' \<and> members (RoomManager (napp (nd s'))) r (i, k) = Some c"
proof -
  let ?M = "RoomManager (napp (nd s))"
  have p: "place_inv E s" and conn: "conn_inv limit s" using inv by (simp_all add: node_inv_def)
  have wf: "wf_manager ?M" and mok: "members_ok (nd s)" using p by (simp_all add: place_inv_def)
  have ids: "ids_ok (nctx (nd s)) (issued s)" and opn: "opened s \<subseteq> dom (nctx (nd s))"
    and dom: "dom (nctx (nd s)) \<subseteq> seen s" using conn by (simp_all add: conn_inv_def)
  obtain x where x: "nctx (nd s) c = Some x" "ConnID x = k" using mok m by (force simp: members_ok_def)
  have quiet: ?thesis if "same_places (nd s) n" "s' = s\<lparr>nd := n\<rparr>" for n
    using that c m by (simp add: same_places_def)
  show ?thesis
  proof (cases ev)
    case (Opened now d)
    obtain a n where o: "OnOpen True now d (nd s) = (a, n)" by fastforce
    have none: "nctx (nd s) d = None" and d: "d \<notin> seen s" using ev dom by (auto simp: Opened split: if_splits)
    have "RoomManager (napp n) = ?M" using OnOpen_places [OF o none] by (auto simp: same_places_def)
    with ev o c m d show ?thesis by (auto simp: Opened split: if_splits action.splits)
  next
    case (Read now accepts received d)
    obtain a es2 n where t: "OnTraffic True now accepts received d (nd s) = (a, es2, n)" using prod_cases3 by blast
    have "RoomManager (napp n) = ?M" using OnTraffic_napp(1) [of True now accepts received d "nd s"] t by simp
    with ev t c m show ?thesis by (auto simp: Read split: if_splits)
  next
    case (Work env j)
    then have j: "j < length (pend s)" using ev by (auto split: if_splits)
    obtain es' n where h: "HandleInbound env cdc (Some (pend s ! j)) (nd s) = (es', n)" by fastforce
    have s': "s' = s\<lparr>nd := n, pend := take j (pend s) @ drop (Suc j) (pend s)\<rparr>" using ev j h by (simp add: Work)
    from h show ?thesis
    proof (cases rule: HandleInbound_split)
      case same
      then show ?thesis using c m by (simp add: s' same_places_def)
    next
      case (joined ctx req)
      have same: "ConnID ctx = k \<Longrightarrow> task_Conn (pend s ! j) = c"
        using ids joined(1) x by (auto simp: ids_ok_def)
      have "members (RoomManager (napp n)) r (i, k) = Some c"
        using m same by (auto simp: joined(4) join_node_def Let_def members_Add [OF wf] split: prod.splits)
      then show ?thesis using c by (simp add: s')
    qed
  next
    case (Closed now d)
    obtain a n where o: "OnClose True now d (nd s) = (a, n)" by fastforce
    have d: "d \<in> opened s" using ev by (auto simp: Closed split: if_splits)
    then obtain ctx where ctx: "nctx (nd s) d = Some ctx" using opn by blast
    have "d \<noteq> c" using d c(2) by blast
    then have "ConnID ctx \<noteq> k" using ids ctx x unfolding ids_ok_def by blast
    then have "members (RoomManager (napp n)) r (i, k) = Some c"
      using o ctx m by (auto simp: OnClose_def Let_def members_Remove [OF wf])
    with ev o c d show ?thesis by (auto simp: Closed)
  next
    case (CleanerTick now)
    note sm = place_inv_small [OF p ids small]
    with ev c m show ?thesis by (auto simp: CleanerTick members_room_cleaner_tick [OF wf sm])
  qed (rule quiet_do [OF ev], blast, erule (1) quiet)+
qed

lemma stray_run:
  assumes "node_run cdc evs s = Some (es, s')" "list_all (agrees E) evs" and "node_inv E limit s" "limit < 2 ^ 62"
    and "issued s' < 2 ^ 31" and "c \<in> seen s" "c \<notin> opened s" and "members (RoomManager (napp (nd s))) r (i, k) = Some c"
  shows "c \<notin> opened s' \<and> members (RoomManager (napp (nd s'))) r (i, k) = Some c"
  using assms
proof (induction evs arbitrary: s es)
  case (Cons ev evs)
  then obtain act es1 s1 es2 where d: "node_do cdc ev s = Some (act, es1, s1)" and r: "node_run cdc evs s1 = Some (es2, s')"
    by (auto split: option.splits)
  have "issued s1 < 2 ^ 31" "issued s < 2 ^ 31"
    using issued_run [OF r] issued_mono [OF node_do_step [OF d]] Cons.prems by simp_all
  with stray_do [OF d Cons.prems(3) _ Cons.prems(6-8)] node_inv_do(1) [OF d _ Cons.prems(3,4)] Cons.prems Cons.IH [OF r]
  show ?case by simp
qed simp

lemma member_slot:
  assumes "place_inv E s" and "members (RoomManager (napp (nd s))) r key = Some c"
  shows "card {key. members (RoomManager (napp (nd s))) r key = Some c} = 1"
proof -
  have "members_ok (nd s)" using assms(1) by (simp add: place_inv_def)
  from members_once [OF this] assms(2) have "{key. members (RoomManager (napp (nd s))) r key = Some c} = {key}" by blast
  then show ?thesis by simp
qed

text \<open>An open connection in a room is a member of it, and gets the frames of its broadcasts once.\<close>

lemma joined_is_written:
  assumes "node_inv E limit s" and "c \<in> opened s" "nctx (nd s) c = Some ctx" "positive (RoomID ctx)"
  shows "members (RoomManager (napp (nd s))) (RoomID ctx) (LoopIdx ctx, ConnID ctx) = Some c"
    and "RoomID ctx = e_RoomId msg \<Longrightarrow> verdict (nctx (nd s)) ob msg c = Deliver \<Longrightarrow>
      written_to c (fst (BroadcastLocal (nctx (nd s)) ob (Some \<lparr>Rooms = Some (RoomManager (napp (nd s)))\<rparr>) (Some msg) mt)) =
        [BuildBinaryFrame (e_Payload msg)]"
proof -
  have p: "place_inv E s" using assms(1) by (simp add: node_inv_def)
  then show m: "members (RoomManager (napp (nd s))) (RoomID ctx) (LoopIdx ctx, ConnID ctx) = Some c"
    using assms(2-4) by (simp add: place_inv_def all_listed_def in_room_def)
  assume "RoomID ctx = e_RoomId msg" "verdict (nctx (nd s)) ob msg c = Deliver"
  with member_slot [OF p m] p show "written_to c (fst (BroadcastLocal (nctx (nd s)) ob
      (Some \<lparr>Rooms = Some (RoomManager (napp (nd s)))\<rparr>) (Some msg) mt)) = [BuildBinaryFrame (e_Payload msg)]"
    by (simp add: BroadcastLocal_written place_inv_def)
qed

section \<open>Properties\<close>




text \<open>What a task did that changed the room of a connection: it was a join of that connection.\<close>

lemma work_moves:
  assumes "node_do cdc (Work env j) s = Some (act, es, s')" and "nctx (nd s) c = Some ctx"
    and "nctx (nd s') c = Some ctx'" and "RoomID ctx' \<noteq> RoomID ctx"
  obtains req where "join_refusal (napp (nd s)) req = None" "nd s' = join_node env c ctx req (nd s)"
    "opened s' = opened s" "seen s' = seen s" "RoomID ctx' = join_RoomId req" "UserID ctx' = join_UserId req"
    "ConnID ctx' = ConnID ctx"
proof -
  have j: "j < length (pend s)" using assms(1) by (auto split: if_splits)
  obtain es' n where h: "HandleInbound env cdc (Some (pend s ! j)) (nd s) = (es', n)" by fastforce
  have s': "s' = s\<lparr>nd := n, pend := take j (pend s) @ drop (Suc j) (pend s)\<rparr>" using assms(1) j h by simp
  from h show ?thesis
  proof (cases rule: HandleInbound_split)
    case same
    from same_places_ctxD(1) [OF this, of c ctx'] assms(2-4) show ?thesis by (auto simp: s' place_eq_iff)
  next
    case (joined x req)
    have c: "task_Conn (pend s ! j) = c"
      using joined(4) assms(2-4) by (cases "task_Conn (pend s ! j) = c") (auto simp: s' join_node_def Let_def split: prod.splits)
    with joined(1) assms(2) have "x = ctx" by simp
    with c joined(2,4) assms(3) show ?thesis
      by (intro that [of req]) (auto simp: s' join_node_def Let_def split: prod.splits)
  qed
qed

text \<open>
  C18: joining a second room strands the connection in the first. Where a connection in a room joins another
  one and closes, it stays a member of the first room for good, whatever happens after, and its user's
  count is what it was while the connection was open.
\<close>

theorem rejoin_strands:
  assumes "new_app E limit a" and "node_run cdc evs (start_sys a) = Some (es, s)"
    and "list_all (agrees E) (evs @ Work env j # evs')"
    and "c \<in> opened s" "nctx (nd s) c = Some ctx" "positive (RoomID ctx)"
    and "node_do cdc (Work env j) s = Some (act1, es1, s1)" "nctx (nd s1) c = Some ctx1" "RoomID ctx1 \<noteq> RoomID ctx"
    and "node_do cdc (Closed now c) s1 = Some (act2, es2, s2)"
    and "node_run cdc evs' s2 = Some (es3, s3)" and "issued s3 < 2 ^ 31"
  shows "c \<notin> opened s3 \<and> members (RoomManager (napp (nd s3))) (RoomID ctx) (LoopIdx ctx, ConnID ctx) = Some c \<and>
    user_count (userConnCount (napp (nd s2))) (UserID ctx) = user_count (userConnCount (napp (nd s))) (UserID ctx)"
proof -
  note start = start_inv [OF assms(1)]
  have iss: "issued s1 < 2 ^ 31" "issued s2 < 2 ^ 31" "issued s < 2 ^ 31"
    using issued_run [OF assms(11)] issued_mono [OF node_do_step [OF assms(7)]] issued_mono [OF node_do_step [OF assms(10)]]
      assms(12) by simp_all
  have ag: "list_all (agrees E) evs" "agrees E (Work env j)" "list_all (agrees E) evs'" "agrees E (Closed now c)"
    using assms(3) by (simp_all add: agrees_def)
  have inv: "node_inv E limit s" using node_inv_run(1) [OF assms(2) ag(1) start(1,3) iss(3)] .
  have inv1: "node_inv E limit s1" by (rule node_inv_do(1) [OF assms(7) ag(2) inv start(3) iss(1)])
  have inv2: "node_inv E limit s2" by (rule node_inv_do(1) [OF assms(10) ag(4) inv1 start(3) iss(2)])
  have p: "place_inv E s" "conn_inv limit s" "users_ok s" "sint (MaxConnsPerUser (Cfg (napp (nd s)))) < 2 ^ 62"
    and p1: "place_inv E s1" "conn_inv limit s1" "users_ok s1" using inv inv1 by (simp_all add: node_inv_def)
  have wf: "wf_manager (RoomManager (napp (nd s)))" "wf_manager (RoomManager (napp (nd s1)))"
    using p(1) p1(1) by (simp_all add: place_inv_def)
  obtain req where r: "join_refusal (napp (nd s)) req = None" "nd s1 = join_node env c ctx req (nd s)"
    "opened s1 = opened s" "seen s1 = seen s" "RoomID ctx1 = join_RoomId req" "UserID ctx1 = join_UserId req"
    "ConnID ctx1 = ConnID ctx"
    by (rule work_moves [OF assms(7,5,8,9)])
  have "members (RoomManager (napp (nd s))) (RoomID ctx) (LoopIdx ctx, ConnID ctx) = Some c"
    using p(1) assms(4-6) by (simp add: place_inv_def all_listed_def in_room_def)
  then have m1: "members (RoomManager (napp (nd s1))) (RoomID ctx) (LoopIdx ctx, ConnID ctx) = Some c"
    using assms(9) r(5) by (auto simp: r(2) join_node_def Let_def members_Add [OF wf(1)] split: prod.splits)
  obtain x n where cl: "OnClose True now c (nd s1) = (x, n)" by fastforce
  have s2: "s2 = s1\<lparr>nd := n, opened := opened s1 - {c}\<rparr>" using assms(4,10) cl r(3) by simp
  have m2: "members (RoomManager (napp (nd s2))) (RoomID ctx) (LoopIdx ctx, ConnID ctx) = Some c"
    using m1 cl assms(8,9) by (auto simp: s2 OnClose_def Let_def members_Remove [OF wf(2)])
  have "c \<in> seen s2" "c \<notin> opened s2" using assms(4) p(2) r(3,4) by (auto simp: s2 conn_inv_def)
  from stray_run [OF assms(11) ag(3) inv2 start(3) assms(12) this m2]
  have stay: "c \<notin> opened s3 \<and> members (RoomManager (napp (nd s3))) (RoomID ctx) (LoopIdx ctx, ConnID ctx) = Some c" .
  have room1: "in_room ctx1" using r(1,5) by (auto simp: in_room_def join_refusal_def split: if_splits)
  have "contexts_ok E (nd s1)" "finite (opened s1)" "c \<in> opened s1"
    using p1 assms(4) r(3) by (simp_all add: place_inv_def conn_inv_def)
  from users_close(3) [OF p1(3) this assms(8) cl]
  have "sint (user_count (userConnCount (napp (nd s2))) (UserID ctx)) =
      sint (user_count (userConnCount (napp (nd s1))) (UserID ctx)) - (if UserID ctx = UserID ctx1 then 1 else 0)"
    using room1 by (simp add: s2)
  also have "sint (user_count (userConnCount (napp (nd s1))) (UserID ctx)) =
      sint (user_count (userConnCount (napp (nd s))) (UserID ctx)) + (if UserID ctx = UserID ctx1 then 1 else 0)"
    unfolding r(2,6) by (rule join_counts(1) [OF p(3,4) assms(5) r(1)])
  finally have "user_count (userConnCount (napp (nd s2))) (UserID ctx) = user_count (userConnCount (napp (nd s))) (UserID ctx)"
    by (simp add: signed_word_eqI)
  with stay show ?thesis by blast
qed

text \<open>
  C19: a join that runs after the close strands the connection too. A task the worker pool takes up only
  after the connection closed still joins it to the room; no later event takes it out, and its user has one
  connection more on the count.
\<close>

theorem late_join_strands:
  assumes "new_app E limit a" and "node_run cdc evs (start_sys a) = Some (es, s)"
    and "list_all (agrees E) (evs @ Work env j # evs')"
    and "c \<notin> opened s" "nctx (nd s) c = Some ctx" "RoomID ctx = 0"
    and "node_do cdc (Work env j) s = Some (act1, es1, s1)" "nctx (nd s1) c = Some ctx1" "positive (RoomID ctx1)"
    and "node_run cdc evs' s1 = Some (es2, s2)" and "issued s2 < 2 ^ 31"
  shows "c \<notin> opened s2 \<and> members (RoomManager (napp (nd s2))) (RoomID ctx1) (LoopIdx ctx1, ConnID ctx1) = Some c \<and>
    user_count (userConnCount (napp (nd s1))) (UserID ctx1) =
      user_count (userConnCount (napp (nd s))) (UserID ctx1) + 1"
proof -
  note start = start_inv [OF assms(1)]
  have iss: "issued s1 < 2 ^ 31" "issued s < 2 ^ 31"
    using issued_run [OF assms(10)] issued_mono [OF node_do_step [OF assms(7)]] assms(11) by simp_all
  have ag: "list_all (agrees E) evs" "agrees E (Work env j)" "list_all (agrees E) evs'"
    using assms(3) by simp_all
  have inv: "node_inv E limit s" using node_inv_run(1) [OF assms(2) ag(1) start(1,3) iss(2)] .
  have inv1: "node_inv E limit s1" by (rule node_inv_do(1) [OF assms(7) ag(2) inv start(3) iss(1)])
  have p: "place_inv E s" "conn_inv limit s" "users_ok s" "sint (MaxConnsPerUser (Cfg (napp (nd s)))) < 2 ^ 62"
    and p1: "place_inv E s1" using inv inv1 by (simp_all add: node_inv_def)
  have wf: "wf_manager (RoomManager (napp (nd s)))" using p(1) by (simp add: place_inv_def)
  have "RoomID ctx1 \<noteq> RoomID ctx" using assms(6,9) by auto
  then obtain req where r: "join_refusal (napp (nd s)) req = None" "nd s1 = join_node env c ctx req (nd s)"
    "opened s1 = opened s" "seen s1 = seen s" "RoomID ctx1 = join_RoomId req" "UserID ctx1 = join_UserId req"
    "ConnID ctx1 = ConnID ctx"
    by (rule work_moves [OF assms(7,5,8)])
  obtain i ls where res: "ResolveLoopIdx (EventLoopOf env) (Some c) (LoopSt (napp (nd s))) = (i, ls)" by fastforce
  have idx: "LoopIdx ctx1 = i" using assms(8) by (simp add: r(2) join_node_def Let_def res) auto
  have "in_room ctx1" using assms(9) by (simp add: in_room_def)
  from placed_slot [OF p1 assms(8) this]
  have "valid_slot (RoomManager (napp (nd s))) (join_RoomId req) i (ConnID ctx)"
    using r(5,7) by (simp add: idx r(2) join_node_def Let_def res valid_slot_def)
  then have m: "members (RoomManager (napp (nd s1))) (RoomID ctx1) (LoopIdx ctx1, ConnID ctx1) = Some c"
    unfolding r(5,7) idx by (simp add: r(2) join_node_def Let_def res members_Add [OF wf])
  have "c \<in> seen s1" "c \<notin> opened s1" using assms(4,5) p(2) r(3,4) by (auto simp: conn_inv_def)
  from stray_run [OF assms(10) ag(3) inv1 start(3) assms(11) this m]
  have stay: "c \<notin> opened s2 \<and> members (RoomManager (napp (nd s2))) (RoomID ctx1) (LoopIdx ctx1, ConnID ctx1) = Some c" .
  have "user_count (userConnCount (napp (nd s1))) (UserID ctx1) = user_count (userConnCount (napp (nd s))) (UserID ctx1) + 1"
    using r(1) unfolding r(2,6)
    by (auto simp: join_node_def Let_def join_refusal_def addUserConn_def user_count_def split: prod.splits if_splits)
  with stay show ?thesis by blast
qed

section \<open>Concrete runs\<close>

lemma join_do:
  assumes "j < length (pend s)" and "pend s ! j = \<lparr>task_Conn = c, task_Data = d\<rparr>" and "0 < length d" "length d \<le> 64 * 1024"
    and "nctx (nd s) c = Some ctx" and "Unmarshal_Frame cdc d = Some frame" "f_Op frame = OpType_OP_JOIN_ROOM"
    and "Unmarshal_JoinRoomReq cdc (f_Payload frame) = Some req" and "join_refusal (napp (nd s)) req = None"
  shows "node_do cdc (Work env j) s =
    Some (ActNone, [], s\<lparr>nd := join_node env c ctx req (nd s), pend := take j (pend s) @ drop (Suc j) (pend s)\<rparr>)"
proof -
  have "HandleInbound env cdc (Some \<lparr>task_Conn = c, task_Data = d\<rparr>) (nd s) = ([], join_node env c ctx req (nd s))"
    using HandleInbound_join [of "nd s" "\<lparr>task_Conn = c, task_Data = d\<rparr>" ctx cdc frame env] assms(3-9)
    by (simp add: handleJoinRoom_eq)
  with assms(1,2) show ?thesis by simp
qed

text \<open>A client library whose frames are joins of user 42, to room 5 or another.\<close>

definition joining_codec :: codec where
  "joining_codec = null_codec\<lparr>Unmarshal_Frame := \<lambda>b. Some \<lparr>f_Op = OpType_OP_JOIN_ROOM, f_RoomId = 0, f_UserId = 0, f_Payload = b, f_Timestamp = 0\<rparr>,
     Unmarshal_JoinRoomReq := \<lambda>b. Some (join_req 42 (if b = [1] then 5 else 6))\<rparr>"

text \<open>A node made by \<open>New\<close> on two processors, with or without Kafka, the rest of the configuration as \<open>Load\<close> gives it.\<close>

definition two_loops :: "bool \<Rightarrow> app \<Rightarrow> bool" where
  "two_loops kafka a \<longleftrightarrow>
     New 2 True (Inl ErrNotExist) (Inl ErrNotExist) ((Load ''host'' 5 42 2)\<lparr>EnableKafka := kafka\<rparr>) = NewApp a"

lemma two_loops_sample: "two_loops False sample_app"
  unfolding two_loops_def sample_app_New [symmetric] by (simp add: Load_def)

lemma two_loops_facts:
  assumes "two_loops kafka a"
  shows "Cfg a = (Load ''host'' 5 42 2)\<lparr>EnableKafka := kafka\<rparr>" and "AllConns a = []" and "CurrConnCount a = 0"
    and "userConnCount a = Map.empty"
  using New_facts(6-9) [OF assms [unfolded two_loops_def]] .

lemma two_loops_new_app:
  assumes "two_loops kafka a"
  shows "new_app (EventLoopOf sample_env) 100000 a"
proof -
  note cfg = two_loops_facts(1) [OF assms]
  have "New 2 True (Inl ErrNotExist) (Inl ErrNotExist) (Cfg a) = NewApp a"
    unfolding cfg by (rule assms [unfolded two_loops_def])
  moreover have "int (card (ran (EventLoopOf sample_env))) \<le> max 1 2" using sample_env_loops(2) by simp
  ultimately have "\<exists>numCPU stat fl. New numCPU True stat fl (Cfg a) = NewApp a \<and>
      int (card (ran (EventLoopOf sample_env))) \<le> max 1 numCPU" by blast
  then show ?thesis using sample_env_loops by (simp add: new_app_def cfg Load_def)
qed

lemmas new_app_sample = two_loops_new_app [OF two_loops_sample]

lemma two_loops_refusal:
  assumes "two_loops kafka a" and "Cfg b = Cfg a" and "sint (user_count (userConnCount b) 42) < 2" and "positive r"
  shows "join_refusal b (join_req 42 r) = None"
proof -
  have "sint (user_count (userConnCount b) 42 + 1) = sint (user_count (userConnCount b) 42) + 1"
    using assms(3) by (intro sint_plus_1) simp
  then show ?thesis
    using assms(2-4) by (simp add: two_loops_facts(1) [OF assms(1)] join_refusal_def join_req_def Load_def addUserConn_def Let_def)
qed

lemmas sample_refusal = two_loops_refusal [OF two_loops_sample]

text \<open>Connection 7 of such a node connects and sends two joins.\<close>

lemma first_visit:
  assumes "two_loops kafka a"
  shows "\<exists>es s ctx. node_run cdc (visit 7 [[1], [2]]) (start_sys a) = Some (es, s) \<and> opened s = {7} \<and>
    issued s = 1 \<and> pend s = [\<lparr>task_Conn = 7, task_Data = [1]\<rparr>, \<lparr>task_Conn = 7, task_Data = [2]\<rparr>] \<and>
    nctx (nd s) 7 = Some ctx \<and> RoomID ctx = 0 \<and> Cfg (napp (nd s)) = Cfg a \<and>
    userConnCount (napp (nd s)) = Map.empty \<and> ConnID ctx = ''1'' \<and> AppProducer (napp (nd s)) = AppProducer a \<and>
    AppLimiter (napp (nd s)) = AppLimiter a \<and> TextFilter (napp (nd s)) = TextFilter a"
proof -
  note facts = two_loops_facts [OF assms]
  have mx: "sint (MaxConns (Cfg a)) = 100000" by (simp add: facts Load_def)
  have "length (wire [[1], [2]]) \<le> 130 * 1024"
    by (simp add: wire_def client_frame_def message_frame_def)
  with visit_possible [of 7 "start_sys a" "[[1], [2]]" cdc] mx
  obtain es s' where v: "node_run cdc (visit 7 [[1], [2]]) (start_sys a) = Some (es, s')" "opened s' = {7}" "issued s' = 1"
    "pend s' = [\<lparr>task_Conn = 7, task_Data = [1]\<rparr>, \<lparr>task_Conn = 7, task_Data = [2]\<rparr>]"
    and pl: "map_option place (nctx (nd s') 7) = Some (FormatUint (connSeq (new_node a) + 1), 0, 0, 0)"
    and app: "napp (nd s') = a\<lparr>CurrConnCount := 1,
      AllConns := AList.update (FormatUint (connSeq (new_node a) + 1)) 7 []\<rparr>"
    by (auto simp: start_sys_def new_node_def facts MaxWebSocketPayloadSize_def)
  from pl obtain ctx where "nctx (nd s') 7 = Some ctx" "RoomID ctx = 0" "ConnID ctx = FormatUint 1"
    by (auto simp: place_def new_node_def)
  moreover have "FormatUint 1 = ''1''" by code_simp
  ultimately show ?thesis using v app by (auto simp: facts)
qed

lemma agrees_visit [simp]: "list_all (agrees E) (visit c ds)"
  by (simp add: visit_def agrees_def)

lemma join_node_ctx:
  "\<exists>x. nctx (join_node env c ctx req n) c = Some x \<and> RoomID x = join_RoomId req \<and> UserID x = join_UserId req \<and> ConnID x = ConnID ctx \<and>
    IsPremium x = join_IsPremium req"
  "Cfg (napp (join_node env c ctx req n)) = Cfg (napp n)"
  "userConnCount (napp (join_node env c ctx req n)) =
    snd (addUserConn (MaxConnsPerUser (Cfg (napp n))) (userConnCount (napp n)) (join_UserId req))"
  "AppProducer (napp (join_node env c ctx req n)) = AppProducer (napp n)"
  "AppLimiter (napp (join_node env c ctx req n)) = AppLimiter (napp n)"
  "TextFilter (napp (join_node env c ctx req n)) = TextFilter (napp n)"
  by (simp_all add: join_node_def Let_def split: prod.splits)

text \<open>One join, and both joins, of the sample visit.\<close>

lemma first_join:
  assumes app: "two_loops kafka a" 
    and cdc: "Unmarshal_Frame cdc [1] = Some \<lparr>f_Op = OpType_OP_JOIN_ROOM, f_RoomId = 0, f_UserId = 0, f_Payload = [1], f_Timestamp = 0\<rparr>"
      "Unmarshal_JoinRoomReq cdc [1] = Some (join_req 42 5)"
  shows "\<exists>es s s1 ctx ctx1. node_run cdc (visit 7 [[1], [2]]) (start_sys a) = Some (es, s) \<and>
    node_do cdc (Work sample_env 0) s = Some (ActNone, [], s1) \<and>
    opened s = {7} \<and> pend s = [\<lparr>task_Conn = 7, task_Data = [1]\<rparr>, \<lparr>task_Conn = 7, task_Data = [2]\<rparr>] \<and> opened s1 = {7} \<and> issued s1 = 1 \<and> pend s1 = [\<lparr>task_Conn = 7, task_Data = [2]\<rparr>] \<and>
    nctx (nd s) 7 = Some ctx \<and> RoomID ctx = 0 \<and>
    nctx (nd s1) 7 = Some ctx1 \<and> RoomID ctx1 = 5 \<and> UserID ctx1 = 42 \<and> Cfg (napp (nd s1)) = Cfg a \<and>
    user_count (userConnCount (napp (nd s1))) 42 = 1 \<and> ConnID ctx1 = ''1'' \<and> AppProducer (napp (nd s1)) = AppProducer a \<and>
    AppLimiter (napp (nd s1)) = AppLimiter a \<and> TextFilter (napp (nd s1)) = TextFilter a \<and> \<not> IsPremium ctx1"
proof -
  obtain es s ctx where v: "node_run cdc (visit 7 [[1], [2]]) (start_sys a) = Some (es, s)" "opened s = {7}"
    "issued s = 1" "pend s = [\<lparr>task_Conn = 7, task_Data = [1]\<rparr>, \<lparr>task_Conn = 7, task_Data = [2]\<rparr>]"
    "nctx (nd s) 7 = Some ctx" "RoomID ctx = 0" "Cfg (napp (nd s)) = Cfg a" "userConnCount (napp (nd s)) = Map.empty"
    "ConnID ctx = ''1''" "AppProducer (napp (nd s)) = AppProducer a" "AppLimiter (napp (nd s)) = AppLimiter a"
    "TextFilter (napp (nd s)) = TextFilter a"
    using first_visit [OF app] by blast
  have ref: "join_refusal (napp (nd s)) (join_req 42 5) = None"
    by (rule two_loops_refusal [OF app]) (simp_all add: v(7,8) user_count_def)
  have cfg: "MaxConnsPerUser (Cfg a) = 3" by (simp add: two_loops_facts(1) [OF app] Load_def)
  let ?s1 = "s\<lparr>nd := join_node sample_env 7 ctx (join_req 42 5) (nd s), pend := [\<lparr>task_Conn = 7, task_Data = [2]\<rparr>]\<rparr>"
  have "node_do cdc (Work sample_env 0) s = Some (ActNone, [], ?s1)"
    using join_do [of 0 s 7 "[1]" ctx cdc _ "join_req 42 5" sample_env] v ref cdc by simp
  moreover obtain ctx1 where "nctx (nd ?s1) 7 = Some ctx1" "RoomID ctx1 = 5" "UserID ctx1 = 42" "ConnID ctx1 = ''1''" "\<not> IsPremium ctx1"
    using join_node_ctx(1) [of sample_env 7 ctx "join_req 42 5" "nd s"] v(9) by (auto simp: join_req_def)
  moreover have "user_count (userConnCount (napp (nd ?s1))) 42 = 1"
    by (simp add: join_node_ctx(3) v(7,8) cfg join_req_def addUserConn_def Let_def user_count_def)
  ultimately show ?thesis
    using v join_node_ctx(2,4-6) [of sample_env 7 ctx "join_req 42 5" "nd s"]
    by (intro exI [of _ es] exI [of _ s] exI [of _ ?s1] exI [of _ ctx] exI [of _ ctx1]) simp
qed

lemma joining_first: "Unmarshal_Frame joining_codec [1] = Some \<lparr>f_Op = OpType_OP_JOIN_ROOM, f_RoomId = 0, f_UserId = 0, f_Payload = [1], f_Timestamp = 0\<rparr>"
  "Unmarshal_JoinRoomReq joining_codec [1] = Some (join_req 42 5)"
  by (simp_all add: joining_codec_def)

lemmas sample_visit = first_visit [OF two_loops_sample]
lemmas sample_joined = first_join [OF two_loops_sample joining_first]

lemma orderly_append:
  "node_run cdc evs s = Some (es, s') \<Longrightarrow> orderly cdc (evs @ evs') s \<longleftrightarrow> orderly cdc evs s \<and> orderly cdc evs' s'"
  by (induction evs arbitrary: s es) (auto split: option.splits)

lemma orderly_visit: "orderly cdc (visit c ds) s"
  by (simp add: visit_def joins_once_def split: option.splits)

lemma run_snoc:
  "node_run cdc evs s = Some (es, s1) \<Longrightarrow> node_do cdc ev s1 = Some (act, es1, s2) \<Longrightarrow>
   \<exists>es'. node_run cdc (evs @ [ev]) s = Some (es', s2)"
  by (simp add: node_run_append)



theorem rejoin_strands_witness:
  "\<exists>es s. node_run joining_codec (visit 7 [[1], [2]] @ [Work sample_env 0, Work sample_env 0, Closed 9 7]) (start_sys sample_app) =
      Some (es, s) \<and> opened s = {} \<and> (\<exists>key. members (RoomManager (napp (nd s))) 5 key = Some 7) \<and>
     user_count (userConnCount (napp (nd s))) 42 = 1"
proof -
  obtain es s s1 ctx1 where v: "node_run joining_codec (visit 7 [[1], [2]]) (start_sys sample_app) = Some (es, s)"
    "node_do joining_codec (Work sample_env 0) s = Some (ActNone, [], s1)" "opened s1 = {7}" "issued s1 = 1"
    "nctx (nd s1) 7 = Some ctx1" "RoomID ctx1 = 5" "UserID ctx1 = 42" "pend s1 = [\<lparr>task_Conn = 7, task_Data = [2]\<rparr>]"
    "Cfg (napp (nd s1)) = Cfg sample_app" "user_count (userConnCount (napp (nd s1))) 42 = 1"
    using sample_joined by blast
  obtain es' where run: "node_run joining_codec (visit 7 [[1], [2]] @ [Work sample_env 0]) (start_sys sample_app) = Some (es', s1)"
    using run_snoc [OF v(1,2)] by blast
  have ref: "join_refusal (napp (nd s1)) (join_req 42 6) = None"
    by (rule sample_refusal) (simp_all add: v(9,10))
  let ?s2 = "s1\<lparr>nd := join_node sample_env 7 ctx1 (join_req 42 6) (nd s1), pend := []\<rparr>"
  have d2: "node_do joining_codec (Work sample_env 0) s1 = Some (ActNone, [], ?s2)"
    using join_do [of 0 s1 7 "[2]" ctx1 joining_codec _ "join_req 42 6" sample_env] v ref by (simp add: joining_codec_def)
  obtain ctx2 where ctx2: "nctx (nd ?s2) 7 = Some ctx2" "RoomID ctx2 = 6"
    using join_node_ctx(1) [of sample_env 7 ctx1 "join_req 42 6" "nd s1"] by (auto simp: join_req_def)
  then have ne: "RoomID ctx2 \<noteq> RoomID ctx1" by (simp add: v(6))
  obtain act n where cl: "OnClose True 9 7 (nd ?s2) = (act, n)" by fastforce
  let ?s3 = "?s2\<lparr>nd := n, opened := opened ?s2 - {7}\<rparr>"
  have d3: "node_do joining_codec (Closed 9 7) ?s2 = Some (act, [], ?s3)" using cl v(3) by simp
  have ag: "list_all (agrees (EventLoopOf sample_env)) ((visit 7 [[1], [2]] @ [Work sample_env 0]) @ Work sample_env 0 # [])"
    by (simp add: agrees_def)
  have opn: "7 \<in> opened s1" and pos: "positive (RoomID ctx1)" and nil: "node_run joining_codec [] ?s3 = Some ([], ?s3)"
    and small: "issued ?s3 < 2 ^ 31" by (simp_all add: v(3,4,6))
  from rejoin_strands [OF new_app_sample run ag opn v(5) pos d2 ctx2(1) ne d3 nil small]
  have "members (RoomManager (napp (nd ?s3))) 5 (LoopIdx ctx1, ConnID ctx1) = Some 7 \<and>
      user_count (userConnCount (napp (nd ?s3))) 42 = 1"
    by (simp only: v(6,7,10) simp_thms)
  moreover have "\<exists>es. node_run joining_codec (visit 7 [[1], [2]] @ [Work sample_env 0, Work sample_env 0, Closed 9 7]) (start_sys sample_app) = Some (es, ?s3)"
    using node_run_append [of joining_codec "visit 7 [[1], [2]] @ [Work sample_env 0]" "[Work sample_env 0, Closed 9 7]" "start_sys sample_app"]
    by (simp add: run d2 d3 del: node_do.simps)
  moreover have "opened ?s3 = {}" by (simp add: v(3))
  ultimately show ?thesis by blast
qed

theorem late_join_strands_witness:
  "\<exists>es s. node_run joining_codec (visit 7 [[1], [2]] @ [Closed 9 7, Work sample_env 0]) (start_sys sample_app) =
      Some (es, s) \<and> opened s = {} \<and> (\<exists>key. members (RoomManager (napp (nd s))) 5 key = Some 7)"
proof -
  obtain es s ctx where v: "node_run joining_codec (visit 7 [[1], [2]]) (start_sys sample_app) = Some (es, s)" "opened s = {7}"
    "issued s = 1" "pend s = [\<lparr>task_Conn = 7, task_Data = [1]\<rparr>, \<lparr>task_Conn = 7, task_Data = [2]\<rparr>]"
    "nctx (nd s) 7 = Some ctx" "RoomID ctx = 0" "Cfg (napp (nd s)) = Cfg sample_app" "userConnCount (napp (nd s)) = Map.empty"
    using sample_visit by blast
  obtain act n where cl: "OnClose True 9 7 (nd s) = (act, n)" by fastforce
  have n: "nctx n 7 = Some ctx" "Cfg (napp n) = Cfg sample_app" "userConnCount (napp n) = Map.empty"
    using cl v(5-8) by (auto simp: OnClose_def Let_def)
  let ?s1 = "s\<lparr>nd := n, opened := opened s - {7}\<rparr>"
  have d1: "node_do joining_codec (Closed 9 7) s = Some (act, [], ?s1)" using cl v(2) by simp
  obtain es' where run: "node_run joining_codec (visit 7 [[1], [2]] @ [Closed 9 7]) (start_sys sample_app) = Some (es', ?s1)"
    using run_snoc [OF v(1) d1] by blast
  have ref: "join_refusal (napp n) (join_req 42 5) = None"
    by (rule sample_refusal) (simp_all add: n(2,3) user_count_def)
  let ?s2 = "?s1\<lparr>nd := join_node sample_env 7 ctx (join_req 42 5) n, pend := [\<lparr>task_Conn = 7, task_Data = [2]\<rparr>]\<rparr>"
  have d2: "node_do joining_codec (Work sample_env 0) ?s1 = Some (ActNone, [], ?s2)"
    using join_do [of 0 ?s1 7 "[1]" ctx joining_codec _ "join_req 42 5" sample_env] v(4) n ref by (simp add: joining_codec_def)
  obtain ctx1 where ctx1: "nctx (nd ?s2) 7 = Some ctx1" "RoomID ctx1 = 5"
    using join_node_ctx(1) [of sample_env 7 ctx "join_req 42 5" n] by (auto simp: join_req_def)
  have ag: "list_all (agrees (EventLoopOf sample_env)) ((visit 7 [[1], [2]] @ [Closed 9 7]) @ Work sample_env 0 # [])"
    by (simp add: agrees_def)
  have cls: "7 \<notin> opened ?s1" and ctx: "nctx (nd ?s1) 7 = Some ctx" and pos: "positive (RoomID ctx1)"
    and nil: "node_run joining_codec [] ?s2 = Some ([], ?s2)" and small: "issued ?s2 < 2 ^ 31"
    by (simp_all add: v(3) n(1) ctx1(2))
  from late_join_strands [OF new_app_sample run ag cls ctx v(6) d2 ctx1(1) pos nil small]
  have "members (RoomManager (napp (nd ?s2))) 5 (LoopIdx ctx1, ConnID ctx1) = Some 7" by (simp only: ctx1(2) simp_thms)
  moreover have "\<exists>es. node_run joining_codec (visit 7 [[1], [2]] @ [Closed 9 7, Work sample_env 0]) (start_sys sample_app) = Some (es, ?s2)"
    using node_run_append [of joining_codec "visit 7 [[1], [2]] @ [Closed 9 7]" "[Work sample_env 0]" "start_sys sample_app"]
    by (simp add: run d2 del: node_do.simps)
  moreover have "opened ?s2 = {}" by (simp add: v(2))
  ultimately show ?thesis by blast
qed

end
