(* ===== verification/Node_Silence.thy ===== *)
theory Node_Silence
  imports Node_Events
begin

text \<open>
  When the heartbeat check of a node (\<open>StartHeartbeatCheck\<close> of \<open>app.go\<close>) closes a connection, told by the history of the
  connection alone: \<open>last_heard\<close> is the time of its opening or of its last read in a list of events. No task of a worker
  moves that time, a heartbeat message included (\<open>handleHeartbeat\<close> only logs); the read that brought it does.
\<close>

section \<open>When a connection was last heard\<close>

definition heard :: "conn \<Rightarrow> node_event \<Rightarrow> int64 option" where
  "heard c ev =
    (case ev of
       Opened now d \<Rightarrow> if d = c then Some now else None
     | Read now accepts received d \<Rightarrow> if d = c then Some now else None
     | _ \<Rightarrow> None)"

definition last_heard :: "conn \<Rightarrow> node_event list \<Rightarrow> int64 option" where
  "last_heard c evs = foldl (\<lambda>t ev. case heard c ev of None \<Rightarrow> t | Some now \<Rightarrow> Some now) None evs"

lemma last_heard_snoc [simp]:
  "last_heard c (evs @ [ev]) = (case heard c ev of None \<Rightarrow> last_heard c evs | Some now \<Rightarrow> Some now)"
  by (simp add: last_heard_def split: option.split)

section \<open>What leaves the times alone\<close>

definition same_times :: "node \<Rightarrow> node \<Rightarrow> bool" where
  "same_times n n' \<longleftrightarrow> (\<forall>c. map_option LastActiveTime (nctx n' c) = map_option LastActiveTime (nctx n c))"

lemma same_times_ctx: "nctx n' = nctx n \<Longrightarrow> same_times n n'"
  by (simp add: same_times_def)

lemma broadcast_here_ctx [simp]: "nctx (snd (broadcast_here env e n)) = nctx n"
  by (auto simp: broadcast_here_def split: prod.splits)

lemma range_conns_ctx: "(\<And>c m. nctx (snd (f c m)) = nctx m) \<Longrightarrow> nctx (snd (range_conns f tab n)) = nctx n"
  by (induction f tab n rule: range_conns.induct) (auto split: prod.splits, metis snd_conv)

lemma HandleInbound_times: "same_times n (snd (HandleInbound env cdc t n))"
proof -
  have "nctx n c = Some ctx \<Longrightarrow> same_times n (snd (handleJoinRoom env cdc c ctx frame n))" for c ctx frame
    by (auto simp: handleJoinRoom_def same_times_def Let_def split: option.splits prod.splits bool.splits)
  moreover have "nctx (snd (handleChat env cdc c ctx frame n)) = nctx n" for c ctx frame
    by (auto simp: handleChat_def Let_def split: prod.splits option.splits)
  ultimately show ?thesis
    by (auto simp: HandleInbound_def handleHeartbeat_def same_times_ctx split: option.splits)
qed

lemma other_handlers_ctx:
  "nctx (snd (heartbeat_tick now n)) = nctx n" "nctx (StartTextFilterReload ticks n) = nctx n"
  "nctx (snd (KickUser env u reason n)) = nctx n"
  "nctx (snd (BroadcastSystemMsg env cdc room content msgType n)) = nctx n"
  "nctx (snd (BroadcastGlobalSystemMsg env cdc content msgType n)) = nctx n"
proof -
  show "nctx (snd (heartbeat_tick now n)) = nctx n"
    unfolding heartbeat_tick_def by (rule range_conns_ctx) (auto split: option.split)
  show "nctx (StartTextFilterReload ticks n) = nctx n" by (simp add: StartTextFilterReload_def split: option.splits)
  have "nctx (snd (KickConn env k reason m)) = nctx m" for k m by simp
  then show "nctx (snd (KickUser env u reason n)) = nctx n"
    by (auto simp: KickUser_def split: option.splits intro!: range_conns_ctx)
  show "nctx (snd (BroadcastSystemMsg env cdc room content msgType n)) = nctx n"
    by (auto simp: BroadcastSystemMsg_def Let_def split: prod.split option.split dest!: arg_cong [of _ _ "nctx \<circ> snd"])
  show "nctx (snd (BroadcastGlobalSystemMsg env cdc content msgType n)) = nctx n"
    by (auto simp: BroadcastGlobalSystemMsg_def Let_def split: option.splits intro!: range_conns_ctx)
qed

text \<open>A read moves the time of its connection only, to the time of the read.\<close>

lemma OnTraffic_times:
  assumes "nctx n c = Some ctx"
  shows "map_option LastActiveTime (nctx (snd (snd (OnTraffic h now accepts received c n))) d) =
    (if d = c then Some now else map_option LastActiveTime (nctx n d))"
  using assms
  by (auto simp: OnTraffic_def handleHandshake_def handleWebSocketTraffic_def Let_def split: option.splits prod.splits sum.splits)

section \<open>Everybody who is open is watched\<close>

text \<open>
  After the events \<open>evs\<close> with the effects \<open>es\<close>: an open connection carries the time it was last heard, and it is in the
  table the check goes through, unless the node already closes it.
\<close>

definition watched :: "node_event list \<Rightarrow> effect list \<Rightarrow> sys \<Rightarrow> bool" where
  "watched evs es s \<longleftrightarrow>
    (\<forall>c \<in> opened s. \<forall>ctx. nctx (nd s) c = Some ctx \<longrightarrow>
      last_heard c evs = Some (LastActiveTime ctx) \<and>
      (map_of (AllConns (napp (nd s))) (ConnID ctx) = Some c \<or> Net (CloseConn c) \<in> set es))"

lemma watched_keeps:
  assumes "watched evs es s" and "same_times (nd s) n" and "same_conns (nd s) n" and "\<And>c. c \<in> opened s \<Longrightarrow> heard c ev = None"
  shows "watched (evs @ [ev]) (es @ es') (s\<lparr>nd := n, pend := p\<rparr>)"
  unfolding watched_def
proof (intro ballI allI impI)
  fix c ctx assume c: "c \<in> opened (s\<lparr>nd := n, pend := p\<rparr>)" "nctx (nd (s\<lparr>nd := n, pend := p\<rparr>)) c = Some ctx"
  then obtain ctx' where "nctx (nd s) c = Some ctx'" "ConnID ctx' = ConnID ctx"
    using same_conns_ctx(2) [OF assms(3), of c ctx] by auto
  moreover from this c assms(2) have "LastActiveTime ctx' = LastActiveTime ctx"
    by (auto simp: same_times_def dest: spec [of _ c])
  ultimately show "last_heard c (evs @ [ev]) = Some (LastActiveTime ctx) \<and>
      (map_of (AllConns (napp (nd (s\<lparr>nd := n, pend := p\<rparr>)))) (ConnID ctx) = Some c \<or> Net (CloseConn c) \<in> set (es @ es'))"
    using assms(1,3,4) c by (auto simp: watched_def same_conns_def)
qed

text \<open>What the check does, in a state with \<open>conn_inv\<close>: it asks to close who is in the table and silent, and keeps the rest.\<close>

lemma heartbeat_does:
  assumes inv: "conn_inv limit s" and hb: "heartbeat_tick now (nd s) = (es, n)" and c: "nctx (nd s) c = Some ctx"
  shows "Net (CloseConn c) \<in> set es \<longleftrightarrow>
      map_of (AllConns (napp (nd s))) (ConnID ctx) = Some c \<and> 90 < sint (now - LastActiveTime ctx)"
    and "map_of (AllConns (napp n)) (ConnID ctx) = Some c \<longleftrightarrow>
      map_of (AllConns (napp (nd s))) (ConnID ctx) = Some c \<and> \<not> 90 < sint (now - LastActiveTime ctx)"
proof -
  let ?tab = "AllConns (napp (nd s))" and ?idle = "\<lambda>(k, c). idle_conn now (nctx (nd s)) c"
  have ok: "table_ok (nd s) (opened s)" using inv by (simp add: conn_inv_def)
  then have dist: "keys_distinct ?tab" by (simp add: table_ok_def)
  have tab: "ConnID e = k" if "(k, d) \<in> set ?tab" "nctx (nd s) d = Some e" for k d e
    using bspec [OF conjunct2 [OF ok [unfolded table_ok_def]] that(1)] that(2) by auto
  have keyed: "keyed (nctx (nd s)) ?tab" unfolding keyed_def using dist tab by blast
  note tick = heartbeat_closes_idle [OF keyed, of now, unfolded hb prod.inject]
  have key: "(k, c) \<in> set ?tab \<longleftrightarrow> k = ConnID ctx \<and> map_of ?tab (ConnID ctx) = Some c" for k
    using tab [OF _ c, of k] map_of_eq_Some_iff [OF dist, of k c] by blast
  have idle: "idle_conn now (nctx (nd s)) c \<longleftrightarrow> 90 < sint (now - LastActiveTime ctx)" by (simp add: idle_conn_def c)
  have "Net (CloseConn c) \<in> set es \<longleftrightarrow> (\<exists>k. (k, c) \<in> set ?tab) \<and> idle_conn now (nctx (nd s)) c"
    unfolding conjunct1 [OF tick] by force
  then show "Net (CloseConn c) \<in> set es \<longleftrightarrow> map_of ?tab (ConnID ctx) = Some c \<and> 90 < sint (now - LastActiveTime ctx)"
    unfolding key idle by simp
  have n: "AllConns (napp n) = filter (\<lambda>(k, c). \<not> idle_conn now (nctx (nd s)) c) ?tab"
    by (subst conjunct2 [OF tick]) simp
  have "keys_distinct (AllConns (napp n))" using dist by (simp add: n distinct_map_filter)
  then have "map_of (AllConns (napp n)) (ConnID ctx) = Some c \<longleftrightarrow> (ConnID ctx, c) \<in> set (AllConns (napp n))"
    by (rule map_of_eq_Some_iff)
  also have "\<dots> \<longleftrightarrow> (ConnID ctx, c) \<in> set ?tab \<and> \<not> idle_conn now (nctx (nd s)) c" by (simp add: n)
  finally show "map_of (AllConns (napp n)) (ConnID ctx) = Some c \<longleftrightarrow>
      map_of ?tab (ConnID ctx) = Some c \<and> \<not> 90 < sint (now - LastActiveTime ctx)"
    unfolding key idle by simp
qed

lemma ids_differ:
  assumes "conn_inv limit s" and "nctx (nd s) c = Some ctx" "nctx (nd s) d = Some ctx'" "d \<noteq> c"
  shows "ConnID ctx' \<noteq> ConnID ctx"
proof -
  have "ids_ok (nctx (nd s)) (issued s)" using assms(1) by (simp add: conn_inv_def)
  with assms(2-4) show ?thesis unfolding ids_ok_def by blast
qed

lemma watched_open:
  assumes w: "watched evs es s" and inv: "conn_inv limit s" "conn_inv limit s'" and ev: "node_do cdc (Opened now c) s = Some (act, es', s')"
  shows "watched (evs @ [Opened now c]) (es @ es') s'"
proof -
  obtain a n where o: "OnOpen True now c (nd s) = (a, n)" by fastforce
  have new: "c \<notin> opened s" "nctx (nd s) c = None" using ev inv(1) by (auto simp: conn_inv_def split: if_splits)
  show ?thesis
  proof (cases a)
    case ActNone
    define ctx where "ctx = (new_ConnContext (fst (NextConnID (connSeq (nd s)))))\<lparr>LastActiveTime := now\<rparr>"
    have id: "ConnID ctx = fst (NextConnID (connSeq (nd s)))" by (simp add: ctx_def new_ConnContext_def)
    have n: "nctx n = (nctx (nd s))(c \<mapsto> ctx)" "LastActiveTime ctx = now"
      "AllConns (napp n) = AList.update (ConnID ctx) c (AllConns (napp (nd s)))"
      unfolding id using o ActNone by (auto simp: OnOpen_def Let_def ctx_def split: if_splits prod.splits)
    have s': "nd s' = n" "opened s' = insert c (opened s)" using ev o ActNone by (auto split: if_splits)
    have other: "ConnID ctx' \<noteq> ConnID ctx" if "nctx (nd s) d = Some ctx'" "d \<noteq> c" for d ctx'
      using ids_differ [OF inv(2), of c ctx d ctx'] that n(1) s'(1) by simp
    show ?thesis
      unfolding watched_def s' n(1,3)
    proof (intro ballI allI impI)
      fix d e assume d: "d \<in> insert c (opened s)" "((nctx (nd s))(c \<mapsto> ctx)) d = Some e"
      show "last_heard d (evs @ [Opened now c]) = Some (LastActiveTime e) \<and>
          (map_of (AList.update (ConnID ctx) c (AllConns (napp (nd s)))) (ConnID e) = Some d \<or> Net (CloseConn d) \<in> set (es @ es'))"
      proof (cases "d = c")
        case True
        with d n(2) show ?thesis by (simp add: heard_def)
      next
        case False
        with d have "d \<in> opened s" "nctx (nd s) d = Some e" by auto
        with w other [of d e] False show ?thesis by (auto simp: heard_def watched_def)
      qed
    qed
  next
    case ActClose
    with o have "nctx n = nctx (nd s)" "AllConns (napp n) = AllConns (napp (nd s))"
      by (auto simp: OnOpen_def Let_def split: if_splits prod.splits)
    moreover have "nd s' = n" "opened s' = opened s" using ev o ActClose by (auto split: if_splits)
    moreover have "heard d (Opened now c) = None" if "d \<in> opened s" for d using that new(1) by (auto simp: heard_def)
    ultimately show ?thesis using w unfolding watched_def by (simp; blast)
  qed
qed

lemma watched_close:
  assumes w: "watched evs es s" and inv: "conn_inv limit s" and ev: "node_do cdc (Closed now c) s = Some (act, es', s')"
  shows "watched (evs @ [Closed now c]) (es @ es') s'"
proof -
  obtain ctx where c: "c \<in> opened s" "nctx (nd s) c = Some ctx" using ev inv by (auto simp: conn_inv_def split: if_splits)
  obtain a n where o: "OnClose True now c (nd s) = (a, n)" by fastforce
  with c have n: "nctx n = nctx (nd s)" "AllConns (napp n) = AList.delete (ConnID ctx) (AllConns (napp (nd s)))"
    by (auto simp: OnClose_def Let_def)
  have s': "nd s' = n" "opened s' = opened s - {c}" using ev o c(1) by auto
  have "ConnID ctx' \<noteq> ConnID ctx" if "nctx (nd s) d = Some ctx'" "d \<noteq> c" for d ctx'
    using ids_differ [OF inv c(2)] that by simp
  with w n s' show ?thesis by (auto simp: watched_def heard_def)
qed

lemma watched_read:
  assumes w: "watched evs es s" and inv: "conn_inv limit s" and ev: "node_do cdc (Read now accepts received c) s = Some (act, es', s')"
  shows "watched (evs @ [Read now accepts received c]) (es @ es') s'"
proof -
  let ?n = "snd (snd (OnTraffic True now accepts received c (nd s)))"
  obtain ctx where c: "c \<in> opened s" "nctx (nd s) c = Some ctx" using ev inv by (auto simp: conn_inv_def split: if_splits)
  have s': "nd s' = ?n" "opened s' = opened s" using ev c(1) by (auto split: prod.splits)
  have same: "same_conns (nd s) ?n" by (rule OnTraffic_same)
  have "last_heard d (evs @ [Read now accepts received c]) = Some (LastActiveTime e) \<and>
      (map_of (AllConns (napp ?n)) (ConnID e) = Some d \<or> Net (CloseConn d) \<in> set (es @ es'))"
    if d: "d \<in> opened s" "nctx ?n d = Some e" for d e
  proof -
    obtain e' where e': "nctx (nd s) d = Some e'" "ConnID e' = ConnID e" using same_conns_ctx(2) [OF same d(2)] by blast
    have "map_of (AllConns (napp ?n)) (ConnID e) = Some d \<or> Net (CloseConn d) \<in> set (es @ es')"
      using w d(1) e' same by (auto simp: watched_def same_conns_def)
    moreover have "last_heard d evs = Some (LastActiveTime e')" using w d(1) e'(1) by (simp add: watched_def)
    ultimately show ?thesis
      using OnTraffic_times [OF c(2), of True now accepts received d] d(2) e'(1) by (auto simp: heard_def split: if_splits)
  qed
  then show ?thesis by (simp add: watched_def s')
qed

lemma watched_tick:
  assumes "watched evs es s" and inv: "conn_inv limit s" and ev: "node_do cdc (HeartbeatTick now) s = Some (act, es', s')"
  shows "watched (evs @ [HeartbeatTick now]) (es @ es') s'"
proof -
  obtain n where hb: "heartbeat_tick now (nd s) = (es', n)" and s': "s' = s\<lparr>nd := n\<rparr>" using ev by (auto split: prod.splits)
  have ctx: "nctx n = nctx (nd s)" using other_handlers_ctx(1) [of now "nd s"] by (simp add: hb)
  show ?thesis
    using assms(1) heartbeat_does [OF inv hb] by (auto simp: watched_def s' ctx heard_def)
qed

text \<open>Every other event leaves the times and the table alone.\<close>

lemma unheard_do:
  assumes ev: "node_do cdc ev s = Some (act, es, s')"
    and other: "\<And>c. heard c ev = None" "\<And>now c. ev \<noteq> Closed now c" "\<And>now. ev \<noteq> HeartbeatTick now"
  shows "\<exists>n p. s' = s\<lparr>nd := n, pend := p\<rparr> \<and> same_times (nd s) n \<and> same_conns (nd s) n"
proof -
  have moves: "\<exists>n p. s' = s\<lparr>nd := n, pend := p\<rparr> \<and> same_times (nd s) n \<and> same_conns (nd s) n"
    if "s' = s\<lparr>nd := m, pend := q\<rparr>" "same_times (nd s) m" "same_conns (nd s) m" for m q using that by blast
  have moves': "\<exists>n p. s' = s\<lparr>nd := n, pend := p\<rparr> \<and> same_times (nd s) n \<and> same_conns (nd s) n"
    if "s' = s\<lparr>nd := m\<rparr>" "nctx m = nctx (nd s)" "same_conns (nd s) m" for m
    using moves [of "pend s" m] that by (simp add: same_times_ctx)
  show ?thesis
  proof (cases ev)
    case (Work env k)
    then show ?thesis
      using ev HandleInbound_times [of "nd s" env cdc "Some (pend s ! k)"] HandleInbound_same [of "nd s" env cdc "Some (pend s ! k)"]
      by (intro moves) (auto split: if_splits prod.splits)
  next
    case (CleanerTick now)
    then show ?thesis
      using ev by (intro moves' [of "nd s'"]) (auto simp: same_conns_def)
  next
    case (ReloadTicks ticks)
    then show ?thesis
      using ev StartTextFilterReload_same by (intro moves' [of "StartTextFilterReload ticks (nd s)"]) (simp_all add: other_handlers_ctx)
  next
    case (Kick env u reason)
    then show ?thesis using ev KickUser_same other_handlers_ctx(3)
      by (intro moves' [of "snd (KickUser env u reason (nd s))"]) (auto split: prod.splits)
  next
    case (Announce env room content msgType)
    then show ?thesis using ev BroadcastSystemMsg_same other_handlers_ctx(4)
      by (intro moves' [of "snd (BroadcastSystemMsg env cdc room content msgType (nd s))"]) (auto split: prod.splits)
  next
    case (AnnounceAll env content msgType)
    then show ?thesis using ev BroadcastGlobalSystemMsg_same other_handlers_ctx(5)
      by (intro moves' [of "snd (BroadcastGlobalSystemMsg env cdc content msgType (nd s))"]) (auto split: prod.splits)
  next
    case (Opened now c)
    then show ?thesis using other(1) [of c] by (simp add: heard_def)
  next
    case (Read now accepts received c)
    then show ?thesis using other(1) [of c] by (simp add: heard_def)
  qed (use other(2,3) in blast)+
qed

lemma watched_do:
  assumes w: "watched evs es s" and inv: "conn_inv limit s" "conn_inv limit s'" and ev: "node_do cdc ev s = Some (act, es', s')"
  shows "watched (evs @ [ev]) (es @ es') s'"
proof (cases "(\<exists>c. heard c ev \<noteq> None) \<or> (\<exists>now c. ev = Closed now c) \<or> (\<exists>now. ev = HeartbeatTick now)")
  case True
  then consider now c where "ev = Opened now c" | now acc r c where "ev = Read now acc r c" | now c where "ev = Closed now c"
    | now where "ev = HeartbeatTick now"
    by (cases ev) (auto simp: heard_def)
  then show ?thesis
  proof cases
    case 1
    with watched_open [OF w inv] ev show ?thesis by blast
  next
    case 2
    with watched_read [OF w inv(1)] ev show ?thesis by blast
  next
    case 3
    with watched_close [OF w inv(1)] ev show ?thesis by blast
  next
    case 4
    with watched_tick [OF w inv(1)] ev show ?thesis by blast
  qed
next
  case False
  then obtain n p where "s' = s\<lparr>nd := n, pend := p\<rparr>" "same_times (nd s) n" "same_conns (nd s) n"
    using unheard_do [OF ev] by blast
  with watched_keeps [OF w] False show ?thesis by auto
qed

lemma watched_run:
  assumes run: "node_run cdc evs (start_sys a) = Some (es, s)" and new: "New numCPU ok stat file cfg = NewApp a"
    and lim: "sint (MaxConns cfg) = int limit" "limit < 2 ^ 62" and small: "issued s < 2 ^ 64"
  shows "conn_inv limit s \<and> watched evs es s"
  using run small
proof (induction evs arbitrary: es s rule: rev_induct)
  case Nil
  note facts = New_facts [OF new]
  from Nil lim show ?case
    by (auto simp: conn_inv_def start_sys_def new_node_def facts ids_ok_def table_ok_def watched_def)
next
  case (snoc ev evs)
  then obtain es1 s1 act es2 where r: "node_run cdc evs (start_sys a) = Some (es1, s1)"
    and ev: "node_do cdc ev s1 = Some (act, es2, s)" and es: "es = es1 @ es2"
    by (auto simp: node_run_append split: option.splits)
  have "issued s1 < 2 ^ 64" using issued_mono [OF node_do_step [OF ev]] snoc.prems(2) by simp
  with snoc.IH r have IH: "conn_inv limit s1" "watched evs es1 s1" by blast+
  with conn_inv_step [OF node_do_step [OF ev]] lim(2) snoc.prems(2) have "conn_inv limit s" by blast
  with watched_do [OF IH(2,1) _ ev] show ?case by (simp add: es)
qed

text \<open>
  C23: the heartbeat check closes exactly who is silent. After any events of a node built by \<open>New\<close>, let \<open>c\<close> be an open
  connection and \<open>t\<close> the time of its opening or of its last read, whichever came later. A tick of the check at \<open>now\<close>
  leaves no connection that is silent for more than 90 seconds without a close: gnet was asked to close it, by this tick
  or before. And the tick closes nobody whom it read from in the last 90 seconds. What a client sends decides, and not
  what it says: the tasks of the workers, heartbeat messages among them, move no time.
\<close>

theorem silent_connections_closed:
  assumes run: "node_run cdc evs (start_sys a) = Some (es, s)" and new: "New numCPU ok stat file cfg = NewApp a"
    and "sint (MaxConns cfg) = int limit" "limit < 2 ^ 62" "issued s < 2 ^ 64"
    and tick: "node_do cdc (HeartbeatTick now) s = Some (act, es', s')"
    and c: "c \<in> opened s" "last_heard c evs = Some t"
  shows "(90 < sint (now - t) \<longrightarrow> Net (CloseConn c) \<in> set (es @ es')) \<and>
    (Net (CloseConn c) \<in> set es' \<longrightarrow> 90 < sint (now - t))"
proof -
  from watched_run [OF run new assms(3-5)] have inv: "conn_inv limit s" and w: "watched evs es s" by simp_all
  obtain n where hb: "heartbeat_tick now (nd s) = (es', n)" using tick by (auto split: prod.splits)
  obtain ctx where ctx: "nctx (nd s) c = Some ctx" using inv c(1) by (auto simp: conn_inv_def)
  with w c have "t = LastActiveTime ctx" by (simp add: watched_def)
  with heartbeat_does(1) [OF inv hb ctx] w c(1) ctx show ?thesis by (auto simp: watched_def)
qed

text \<open>
  Two connections are opened; the second is read from at 60, the first never. A tick at 100 asks to close the first and not
  the second.
\<close>

definition two_visitors :: "node_event list" where
  "two_visitors = [Opened 5 7, Opened 6 8, Read 60 (\<lambda>_. True) (Some []) 8]"

lemma no_request: "\<not> contains_crlf2 []"
  by code_simp

lemma two_visitors_run:
  "\<exists>es s. node_run null_codec two_visitors (start_sys sample_app) = Some (es, s) \<and> opened s = {7, 8} \<and>
    last_heard 7 two_visitors = Some 5 \<and> last_heard 8 two_visitors = Some 60 \<and> issued s = 2 \<and> es = []"
  using New_facts [OF sample_app_New]
  by (simp add: two_visitors_def OnOpen_def start_sys_def new_node_def Load_def Let_def NextConnID_def last_heard_def heard_def
      OnTraffic_def handleHandshake_def new_ConnContext_def no_request insert_commute)

theorem silent_connections_closed_witness:
  "\<exists>es s es' s'. node_run null_codec two_visitors (start_sys sample_app) = Some (es, s) \<and>
    node_do null_codec (HeartbeatTick 100) s = Some (ActNone, es', s') \<and>
    Net (CloseConn 7) \<in> set (es @ es') \<and> Net (CloseConn 8) \<notin> set es'"
proof -
  obtain es s where r: "node_run null_codec two_visitors (start_sys sample_app) = Some (es, s)"
    and s: "opened s = {7, 8}" "last_heard 7 two_visitors = Some 5" "last_heard 8 two_visitors = Some 60" "issued s = 2"
    using two_visitors_run by blast
  obtain es' s' where t: "node_do null_codec (HeartbeatTick 100) s = Some (ActNone, es', s')"
    by (cases "heartbeat_tick 100 (nd s)") simp
  have lim: "sint (MaxConns (Load ''host'' 5 42 2)) = int 100000" by (simp add: Load_def)
  have "(90 < sint (100 - 5 :: int64) \<longrightarrow> Net (CloseConn 7) \<in> set (es @ es')) \<and> (Net (CloseConn 7) \<in> set es' \<longrightarrow> 90 < sint (100 - 5 :: int64))"
    by (rule silent_connections_closed [OF r sample_app_New lim _ _ t]) (simp_all add: s)
  moreover have "(90 < sint (100 - 60 :: int64) \<longrightarrow> Net (CloseConn 8) \<in> set (es @ es')) \<and> (Net (CloseConn 8) \<in> set es' \<longrightarrow> 90 < sint (100 - 60 :: int64))"
    by (rule silent_connections_closed [OF r sample_app_New lim _ _ t]) (simp_all add: s)
  ultimately show ?thesis using r t by (intro exI [of _ es] exI [of _ s] exI [of _ es'] exI [of _ s']) simp
qed

end
