(* ===== verification/Ticker_Loops.thy ===== *)
theory Ticker_Loops
  imports Kafka_Consumer
begin

text \<open>
  The goroutines that have a ticker and a channel that ends them in one \<open>select\<close>: the checks of a node
  (\<open>StartHeartbeatCheck\<close>, \<open>StartRoomCleaner\<close>, \<open>StartAutoReload\<close>, whose channel is \<open>ctx.Done()\<close>) and the loops of
  \<open>_deprecated/\<close>. A \<open>ticker_loop\<close> is that form over any round; where both channels are ready Go chooses freely, so a
  round may come also after the channel was closed.
\<close>

section \<open>Loops with a ticker and a stop channel\<close>

record 'a ticking =
  tk_state :: 'a
  tk_stop :: channel
  tk_running :: nat

datatype 'w tick_event = GoLoop | TickAt 'w | SeesStop 'w

text \<open>
  \<open>GoLoop\<close>: a goroutine of the loop starts. \<open>TickAt w\<close>: a goroutine takes the tick. \<open>SeesStop w\<close>: a goroutine takes the
  closed channel, runs its last round and returns. \<open>None\<close>: the event cannot occur.
\<close>

fun loop_do :: "('w \<Rightarrow> 'a \<Rightarrow> 'o list \<times> 'a) \<Rightarrow> ('w \<Rightarrow> 'a \<Rightarrow> 'o list \<times> 'a) \<Rightarrow> 'w tick_event \<Rightarrow> 'a ticking \<Rightarrow> ('o list \<times> 'a ticking) option" where
  "loop_do rnd fin GoLoop l = Some ([], l\<lparr>tk_running := tk_running l + 1\<rparr>)"
| "loop_do rnd fin (TickAt w) l =
    (if tk_running l = 0 then None
     else case rnd w (tk_state l) of (os, a) \<Rightarrow> Some (os, l\<lparr>tk_state := a\<rparr>))"
| "loop_do rnd fin (SeesStop w) l =
    (if tk_running l = 0 \<or> tk_stop l \<noteq> ClosedChan then None
     else case fin w (tk_state l) of (os, a) \<Rightarrow> Some (os, l\<lparr>tk_state := a, tk_running := tk_running l - 1\<rparr>))"

fun loop_run :: "('w \<Rightarrow> 'a \<Rightarrow> 'o list \<times> 'a) \<Rightarrow> ('w \<Rightarrow> 'a \<Rightarrow> 'o list \<times> 'a) \<Rightarrow> 'w tick_event list \<Rightarrow> 'a ticking \<Rightarrow> ('o list \<times> 'a ticking) option" where
  "loop_run rnd fin [] l = Some ([], l)"
| "loop_run rnd fin (ev # evs) l =
    (case loop_do rnd fin ev l of
       None \<Rightarrow> None
     | Some (os, l) \<Rightarrow> (case loop_run rnd fin evs l of None \<Rightarrow> None | Some (os', l) \<Rightarrow> Some (os @ os', l)))"

definition new_loop :: "'a \<Rightarrow> 'a ticking" where
  "new_loop a = \<lparr>tk_state = a, tk_stop = OpenChan, tk_running = 0\<rparr>"

text \<open>\<open>close\<close> of a channel panics on a closed one and on none: \<open>None\<close>.\<close>

definition close_stop :: "'a ticking \<Rightarrow> 'a ticking option" where
  "close_stop l = (if tk_stop l = OpenChan then Some (l\<lparr>tk_stop := ClosedChan\<rparr>) else None)"

section \<open>What every loop keeps\<close>

locale ticker_loop =
  fixes rnd :: "'w \<Rightarrow> 'a \<Rightarrow> 'o list \<times> 'a" and fin :: "'w \<Rightarrow> 'a \<Rightarrow> 'o list \<times> 'a" and inv :: "'a \<Rightarrow> bool"
  assumes round_keeps: "inv a \<Longrightarrow> inv (snd (rnd w a))"
    and last_keeps: "inv a \<Longrightarrow> inv (snd (fin w a))"
begin

lemma do_keeps: "loop_do rnd fin ev l = Some (os, l') \<Longrightarrow> inv (tk_state l) \<Longrightarrow> inv (tk_state l')"
proof (cases ev)
  case (TickAt w)
  with round_keeps [of "tk_state l" w] show "loop_do rnd fin ev l = Some (os, l') \<Longrightarrow> inv (tk_state l) \<Longrightarrow> ?thesis"
    by (auto split: if_splits prod.splits)
next
  case (SeesStop w)
  with last_keeps [of "tk_state l" w] show "loop_do rnd fin ev l = Some (os, l') \<Longrightarrow> inv (tk_state l) \<Longrightarrow> ?thesis"
    by (auto split: if_splits prod.splits)
qed auto

lemma run_keeps: "loop_run rnd fin evs l = Some (os, l') \<Longrightarrow> inv (tk_state l) \<Longrightarrow> inv (tk_state l')"
proof (induction evs arbitrary: l os)
  case (Cons ev evs)
  then obtain os1 l1 os2 where "loop_do rnd fin ev l = Some (os1, l1)" "loop_run rnd fin evs l1 = Some (os2, l')"
    by (auto split: option.splits)
  with Cons.IH do_keeps Cons.prems(2) show ?case by blast
qed simp

lemma ended_is_silent:
  "loop_run rnd fin evs l = Some (os, l') \<Longrightarrow> tk_running l = 0 \<Longrightarrow> GoLoop \<notin> set evs \<Longrightarrow> os = [] \<and> l' = l"
proof (induction evs)
  case (Cons ev evs)
  then show ?case by (cases ev) simp_all
qed simp

text \<open>As long as the channel is open nobody returns.\<close>

lemma unstopped_runs_on:
  "loop_run rnd fin evs l = Some (os, l') \<Longrightarrow> tk_stop l \<noteq> ClosedChan \<Longrightarrow>
    tk_stop l' = tk_stop l \<and> tk_running l \<le> tk_running l'"
proof (induction evs arbitrary: l os)
  case (Cons ev evs)
  then obtain os1 l1 os2 where s: "loop_do rnd fin ev l = Some (os1, l1)" and r: "loop_run rnd fin evs l1 = Some (os2, l')"
    by (auto split: option.splits)
  from s Cons.prems(2) have "tk_stop l1 = tk_stop l \<and> tk_running l \<le> tk_running l1"
    by (cases ev) (auto split: if_splits prod.splits)
  with Cons.IH [OF r] Cons.prems(2) show ?case by simp
qed simp

text \<open>Once the channel is closed the goroutines can all return, however many there are and whatever they did before.\<close>

lemma can_end:
  assumes "tk_stop l = ClosedChan"
  shows "\<exists>os l'. loop_run rnd fin (replicate (tk_running l) (SeesStop w)) l = Some (os, l') \<and>
    tk_running l' = 0 \<and> tk_stop l' = ClosedChan"
  using assms
proof (induction "tk_running l" arbitrary: l)
  case (Suc n)
  obtain os a where a: "fin w (tk_state l) = (os, a)" by fastforce
  let ?l = "l\<lparr>tk_state := a, tk_running := n\<rparr>"
  have run: "tk_running l = Suc n" using Suc.hyps(2) by simp
  from Suc.hyps(1) [of ?l] Suc.prems obtain os' l' where "loop_run rnd fin (replicate n (SeesStop w)) ?l = Some (os', l')"
    "tk_running l' = 0" "tk_stop l' = ClosedChan" by auto
  then show ?case by (simp add: run Suc.prems a)
qed simp

end

end
