(* ===== verification/Node_Background.thy ===== *)
theory Node_Background
  imports Node_Rooms Node_Silence Ticker_Loops
begin

text \<open>
  The goroutines that \<open>main\<close> starts beside the event loops: the heartbeat check (\<open>app.go\<close>), the cleaner of rooms
  (\<open>room/manager.go\<close>) and the reloading of the filter's words (\<open>reloadable_filter.go\<close>), each as a loop of
  \<open>Ticker_Loops\<close> over what it works on. Their ticks are the events \<open>HeartbeatTick\<close>, \<open>CleanerTick\<close> and \<open>ReloadTicks\<close> of
  a node. \<open>main\<close> hands all of them \<open>context.Background()\<close>, whose \<open>Done\<close> is the nil channel: they never return.
\<close>

section \<open>The loops\<close>

definition background :: "'a \<Rightarrow> 'a ticking" where
  "background a = \<lparr>tk_state = a, tk_stop = NilChan, tk_running = 0\<rparr>"

definition StartHeartbeatCheck :: "int64 tick_event \<Rightarrow> node ticking \<Rightarrow> (effect list \<times> node ticking) option" where
  "StartHeartbeatCheck = loop_do heartbeat_tick (\<lambda>_ n. ([], n))"

definition StartRoomCleaner :: "int64 \<Rightarrow> int64 tick_event \<Rightarrow> Manager ticking \<Rightarrow> (unit list \<times> Manager ticking) option" where
  "StartRoomCleaner idleSeconds = loop_do (\<lambda>now m. ([], room_cleaner_tick m now idleSeconds)) (\<lambda>_ m. ([], m))"

definition auto_reload :: "disk_view tick_event \<Rightarrow> ReloadableFilter ticking \<Rightarrow> (unit list \<times> ReloadableFilter ticking) option" where
  "auto_reload = loop_do (\<lambda>v f. ([], reload_tick f v)) (\<lambda>_ f. ([], f))"

section \<open>Their ticks are events of the node\<close>

lemma heartbeat_as_event:
  assumes "0 < tk_running l" and "tk_state l = nd s"
  shows "StartHeartbeatCheck (TickAt now) l =
    (case node_do cdc (HeartbeatTick now) s of Some (act, es, s') \<Rightarrow> Some (es, l\<lparr>tk_state := nd s'\<rparr>))"
  using assms by (auto simp: StartHeartbeatCheck_def split: prod.split)

lemma cleaner_as_event:
  assumes "0 < tk_running l" and "tk_state l = RoomManager (napp (nd s))"
  shows "StartRoomCleaner 180 (TickAt now) l =
    (case node_do cdc (CleanerTick now) s of Some (act, es, s') \<Rightarrow> Some ([], l\<lparr>tk_state := RoomManager (napp (nd s'))\<rparr>))"
  using assms by (auto simp: StartRoomCleaner_def)

text \<open>\<open>StartAutoReload\<close> of \<open>Text_Filter\<close>, which takes a list of ticks, is this loop run over them.\<close>

lemma auto_reload_ticks:
  "tk_running l = Suc 0 \<Longrightarrow>
    loop_run (\<lambda>v f. ([], reload_tick f v)) (\<lambda>_ f. ([], f)) (map TickAt ticks) l =
    Some ([], l\<lparr>tk_state := foldl reload_tick (tk_state l) ticks\<rparr>)"
  by (induction ticks arbitrary: l) simp_all

lemma auto_reload_as_loop:
  assumes "rf_path f \<noteq> ''''" and "0 < interval"
  shows "loop_run (\<lambda>v f. ([], reload_tick f v)) (\<lambda>_ f. ([], f)) (GoLoop # map TickAt ticks) (background f) =
    Some ([], \<lparr>tk_state = StartAutoReload interval ticks f, tk_stop = NilChan, tk_running = 1\<rparr>)"
  using assms by (simp add: auto_reload_ticks background_def StartAutoReload_def)

section \<open>What they keep\<close>

text \<open>The check leaves contexts, rooms, counts and the filter alone.\<close>

interpretation heartbeat_loop: ticker_loop heartbeat_tick "\<lambda>_ n. ([], n)" "same_places m" for m
  by unfold_locales (auto intro: same_places_trans heartbeat_places)

text \<open>The cleaner keeps the buckets and everybody who is in a room.\<close>

interpretation cleaner_loop: ticker_loop "\<lambda>now m. ([], room_cleaner_tick m now idle)" "\<lambda>_ m. ([], m)"
  "\<lambda>m. wf_manager m \<and> small_manager m \<and> loopCount m = n \<and> members m = ms" for idle n ms
proof
  fix m now
  assume m: "wf_manager m \<and> small_manager m \<and> loopCount m = n \<and> members m = ms"
  then have "members (room_cleaner_tick m now idle) = members m" by (intro ext) (simp add: members_room_cleaner_tick)
  with m show "wf_manager (snd ([], room_cleaner_tick m now idle)) \<and> small_manager (snd ([], room_cleaner_tick m now idle)) \<and>
      loopCount (snd ([], room_cleaner_tick m now idle)) = n \<and> members (snd ([], room_cleaner_tick m now idle)) = ms"
    by (auto simp: room_cleaner_tick_spec small_manager_def split: option.splits if_splits)
qed simp

text \<open>Reloading keeps the path, and never takes the words away that are there.\<close>

interpretation reload_loop: ticker_loop "\<lambda>v f. ([], reload_tick f v)" "\<lambda>_ f. ([], f)"
  "\<lambda>f. rf_path f = p \<and> (current f \<noteq> None \<or> \<not> loaded)" for p loaded
  by unfold_locales (auto simp: reload_tick_def reloadIfChanged_def loadLocked_def split: prod.split sum.split fs_error.split)

text \<open>With the context that \<open>main\<close> passes, the cleaner is there for the life of the process.\<close>

lemma cleaner_for_ever:
  assumes "loop_run (\<lambda>now m. ([] :: unit list, room_cleaner_tick m now idle)) (\<lambda>_ m. ([], m)) (GoLoop # evs) (background m) = Some (os, l)"
  shows "0 < tk_running l"
proof -
  from assms obtain os' where "loop_run (\<lambda>now m. ([] :: unit list, room_cleaner_tick m now idle)) (\<lambda>_ m. ([], m)) evs
      (background m\<lparr>tk_running := 1\<rparr>) = Some (os', l)"
    by (auto simp: background_def split: option.splits)
  from cleaner_loop.unstopped_runs_on [OF this] show ?thesis by (simp add: background_def)
qed

end
