(* ===== verification/Go_Scan.thy ===== *)
theory Go_Scan
  imports Go_Strings
begin

text \<open>
  \<open>fmt.Sscanf\<close> for the two formats the program uses, \<open>"%d"\<close> and \<open>"%s:%d"\<close>, on UTF-8 input: white space
  before a verb is skipped, a newline stops the scan, \<open>%d\<close> takes a sign and decimal digits and fails
  outside \<open>int64\<close>, and \<open>%s\<close> takes a word up to the next white space. A verb that fails leaves its target
  as it was, so its result is an option.
\<close>

section \<open>Skipping and words\<close>

definition newline_text :: string where
  "newline_text = [char_of (10 :: nat)]"

definition SkipSpace :: "string \<Rightarrow> string option" where
  "SkipSpace s =
    (let t = trim_front (filter (\<lambda>e. e \<noteq> newline_text) spaces) s
     in if prefix newline_text t then None else Some t)"

definition at_space :: "string \<Rightarrow> bool" where
  "at_space s \<longleftrightarrow> (\<exists>e \<in> set spaces. prefix e s)"

fun word :: "string \<Rightarrow> string \<times> string" where
  "word [] = ([], [])"
| "word (c # s) =
    (if at_space (c # s) then ([], c # s) else (case word s of (w, rest) \<Rightarrow> (c # w, rest)))"

definition scan_s :: "string \<Rightarrow> (string \<times> string) option" where
  "scan_s s =
    (case SkipSpace s of
       None \<Rightarrow> None
     | Some t \<Rightarrow> if t = [] then None else Some (word t))"

section \<open>Numbers\<close>

definition is_digit :: "char \<Rightarrow> bool" where
  "is_digit c \<longleftrightarrow> 48 \<le> (of_char c :: nat) \<and> (of_char c :: nat) \<le> 57"

definition int_in_range :: "int \<Rightarrow> bool" where
  "int_in_range i \<longleftrightarrow> - (2 ^ 63) \<le> i \<and> i < 2 ^ 63"

definition scan_d :: "string \<Rightarrow> int option" where
  "scan_d s =
    (case SkipSpace s of
       None \<Rightarrow> None
     | Some t \<Rightarrow>
       let neg = (t \<noteq> [] \<and> hd t = CHR ''-'');
           signed = (t \<noteq> [] \<and> (hd t = CHR ''-'' \<or> hd t = CHR ''+''));
           digits = takeWhile is_digit (if signed then tl t else t);
           value = (if neg then - int (dec_value digits) else int (dec_value digits))
       in if digits = [] \<or> \<not> int_in_range value then None else Some value)"

text \<open>
  \<open>fmt.Sscanf(s, "%s:%d", &addr, &port)\<close>: the two results, each only if its verb was reached and
  succeeded.
\<close>

definition scan_s_colon_d :: "string \<Rightarrow> string option \<times> int option" where
  "scan_s_colon_d s =
    (case scan_s s of
       None \<Rightarrow> (None, None)
     | Some (w, rest) \<Rightarrow>
       (Some w, if prefix '':'' rest then scan_d (tl rest) else None))"

section \<open>Facts\<close>

lemma space_nonempty: "e \<in> set spaces \<Longrightarrow> e \<noteq> []"
  by (auto simp: spaces_def space_encodings_def)

lemma word_rest: "word s = (w, rest) \<Longrightarrow> rest = [] \<or> at_space rest"
  by (induction s arbitrary: w) (auto split: if_splits prod.splits)

lemma colon_no_space:
  assumes "e \<in> set spaces"
  shows "hd e \<noteq> CHR '':''"
proof -
  have "(of_char (hd e) :: nat) \<noteq> 58" using assms by (auto simp: spaces_def space_encodings_def)
  moreover have "(of_char CHR '':'' :: nat) = 58" by simp
  ultimately show ?thesis by metis
qed

text \<open>A word ends at white space, so the colon after \<open>%s\<close> never matches.\<close>

lemma scan_s_colon_d_port: "snd (scan_s_colon_d s) = None"
proof (cases "scan_s s")
  case None
  then show ?thesis by (simp add: scan_s_colon_d_def)
next
  case (Some wr)
  obtain w rest where wr: "wr = (w, rest)" by (cases wr)
  with Some obtain t where "word t = (w, rest)" by (auto simp: scan_s_def split: option.splits if_splits)
  from word_rest [OF this] consider "rest = []" | e where "e \<in> set spaces" "prefix e rest"
    by (auto simp: at_space_def)
  then have "\<not> prefix '':'' rest"
  proof cases
    case 2
    then have "hd rest = hd e" using space_nonempty by (auto simp: prefix_def)
    then show ?thesis using colon_no_space [OF 2(1)] by (cases rest) auto
  qed simp
  then show ?thesis by (simp add: scan_s_colon_d_def Some wr)
qed

text \<open>Text without white space is one word.\<close>

definition spaceless :: "string \<Rightarrow> bool" where
  "spaceless s \<longleftrightarrow> (\<forall>e \<in> set spaces. \<not> sublist e s)"

lemma spaceless_tail: "spaceless (c # s) \<Longrightarrow> spaceless s"
  by (auto simp: spaceless_def sublist_Cons_right)

lemma spaceless_not_at_space: "spaceless s \<Longrightarrow> \<not> at_space s"
  by (auto simp: spaceless_def at_space_def)

lemma word_spaceless: "spaceless s \<Longrightarrow> word s = (s, [])"
proof (induction s)
  case (Cons c s)
  then show ?case using spaceless_not_at_space [OF Cons.prems] spaceless_tail [OF Cons.prems] by simp
qed simp

lemma SkipSpace_clean:
  assumes "\<not> at_space s"
  shows "SkipSpace s = Some s"
proof -
  have "newline_text \<in> set spaces" by (simp add: newline_text_def spaces_def space_encodings_def)
  with assms have "\<not> prefix newline_text s" by (auto simp: at_space_def)
  moreover have "trim_front (filter (\<lambda>e. e \<noteq> newline_text) spaces) s = s"
    using assms by (intro trim_front_none) (auto simp: at_space_def)
  ultimately show ?thesis by (simp add: SkipSpace_def)
qed

lemma scan_s_colon_d_spaceless:
  assumes "spaceless s" and "s \<noteq> []"
  shows "scan_s_colon_d s = (Some s, None)"
  using assms SkipSpace_clean [OF spaceless_not_at_space [OF assms(1)]] word_spaceless [OF assms(1)]
  by (simp add: scan_s_colon_d_def scan_s_def)

lemma dec_digit_is_digit: "d < 10 \<Longrightarrow> is_digit (dec_digit d)"
  by (simp add: is_digit_def)

lemma FormatNat_is_digit: "c \<in> set (FormatNat n) \<Longrightarrow> is_digit c"
  using FormatNat_digits dec_digit_is_digit by blast

lemma digit_no_space: "e \<in> set spaces \<Longrightarrow> \<not> is_digit (hd e)"
  by (auto simp: spaces_def space_encodings_def is_digit_def)

lemma digit_not_at_space: "is_digit c \<Longrightarrow> \<not> at_space (c # s)"
  using digit_no_space space_nonempty by (fastforce simp: at_space_def prefix_Cons neq_Nil_conv)

text \<open>Scanning a printed number gives it back.\<close>

lemma scan_d_FormatNat:
  assumes "int n < 2 ^ 63"
  shows "scan_d (FormatNat n) = Some (int n)"
proof -
  obtain c s where cs: "FormatNat n = c # s" by (cases "FormatNat n") auto
  have c: "is_digit c" using FormatNat_is_digit [of c n] by (simp add: cs)
  then have "c \<noteq> CHR ''-''" "c \<noteq> CHR ''+''" by (auto simp: is_digit_def)
  moreover have "takeWhile is_digit (c # s) = c # s"
    using FormatNat_is_digit [of _ n] by (simp add: cs takeWhile_eq_all_conv)
  moreover have "dec_value (c # s) = n" using dec_value_FormatNat [of n] by (simp only: cs)
  moreover have "SkipSpace (c # s) = Some (c # s)" using SkipSpace_clean [OF digit_not_at_space [OF c]] .
  ultimately show ?thesis
    using assms by (simp add: scan_d_def cs int_in_range_def)
qed

end
