(* ===== verification/Service_Registry.thy ===== *)
theory Service_Registry
  imports Go_Scan "HOL-Library.List_Lexorder" "HOL-Library.Char_ord"
begin

text \<open>
  \<open>internal/registry/service.go\<close>: the registry interface with its static, Consul and Etcd
  implementations, and the registrar that keeps the node registered.

  The Consul and Etcd clients are third-party: each is a record of the calls the code makes, on a state
  of its own. A call that fails gives the text of its error. Log lines are not modelled.
\<close>

section \<open>Services\<close>

record ServiceInfo =
  svc_ID :: string
  svc_Name :: string
  svc_Addr :: string
  svc_Port :: int
  svc_Tags :: "string list"
  svc_Meta :: "(string \<times> string) list"

type_synonym error = "string option"

subsection \<open>The static registry\<close>

record StaticRegistry =
  services :: "(string \<times> ServiceInfo) list"

definition NewStaticRegistry :: StaticRegistry where
  "NewStaticRegistry = \<lparr>services = []\<rparr>"

definition static_Register :: "ServiceInfo \<Rightarrow> StaticRegistry \<Rightarrow> error \<times> StaticRegistry" where
  "static_Register info r = (None, r\<lparr>services := AList.update (svc_ID info) info (services r)\<rparr>)"

definition static_Deregister :: "string \<Rightarrow> StaticRegistry \<Rightarrow> error \<times> StaticRegistry" where
  "static_Deregister serviceId r = (None, r\<lparr>services := AList.delete serviceId (services r)\<rparr>)"

definition static_Heartbeat :: "string \<Rightarrow> StaticRegistry \<Rightarrow> error \<times> StaticRegistry" where
  "static_Heartbeat serviceId r = (None, r)"

definition static_GetServices :: "string \<Rightarrow> StaticRegistry \<Rightarrow> ServiceInfo list" where
  "static_GetServices serviceName r = filter (\<lambda>svc. svc_Name svc = serviceName) (map snd (services r))"

definition GetAllServices :: "StaticRegistry \<Rightarrow> ServiceInfo list" where
  "GetAllServices r = map snd (services r)"

subsection \<open>Consul\<close>

record AgentServiceRegistration =
  reg_ID :: string
  reg_Name :: string
  reg_Address :: string
  reg_Port :: int
  reg_Tags :: "string list"
  reg_Meta :: "(string \<times> string) list"
  check_HTTP :: string
  check_Interval :: string
  check_Timeout :: string
  check_DeregisterAfter :: string

record AgentService =
  as_ID :: string
  as_Service :: string
  as_Address :: string
  as_Port :: int
  as_Tags :: "string list"
  as_Meta :: "(string \<times> string) list"

record 's consul =
  ServiceRegister :: "AgentServiceRegistration \<Rightarrow> 's \<Rightarrow> error \<times> 's"
  ServiceDeregister :: "string \<Rightarrow> 's \<Rightarrow> error \<times> 's"
  ServicesWithFilter :: "string \<Rightarrow> 's \<Rightarrow> string + AgentService list"
  Service :: "string \<Rightarrow> 's \<Rightarrow> string + AgentService"

definition consul_registration :: "ServiceInfo \<Rightarrow> AgentServiceRegistration" where
  "consul_registration info =
    \<lparr>reg_ID = svc_ID info, reg_Name = svc_Name info, reg_Address = svc_Addr info, reg_Port = svc_Port info,
     reg_Tags = svc_Tags info, reg_Meta = svc_Meta info,
     check_HTTP = ''http://'' @ svc_Addr info @ '':'' @ FormatInt (svc_Port info) @ ''/health'',
     check_Interval = ''10s'', check_Timeout = ''5s'', check_DeregisterAfter = ''30s''\<rparr>"

definition wrap_error :: "string \<Rightarrow> string \<Rightarrow> string" where
  "wrap_error what err = what @ '': '' @ err"

definition consul_Register :: "'s consul \<Rightarrow> ServiceInfo \<Rightarrow> 's \<Rightarrow> error \<times> 's" where
  "consul_Register C info s =
    (case ServiceRegister C (consul_registration info) s of
       (Some err, s') \<Rightarrow> (Some (wrap_error ''register service to consul'' err), s')
     | (None, s') \<Rightarrow> (None, s'))"

definition consul_Deregister :: "'s consul \<Rightarrow> string \<Rightarrow> 's \<Rightarrow> error \<times> 's" where
  "consul_Deregister C serviceId s =
    (case ServiceDeregister C serviceId s of
       (Some err, s') \<Rightarrow> (Some (wrap_error ''deregister service from consul'' err), s')
     | (None, s') \<Rightarrow> (None, s'))"

definition consul_Heartbeat :: "string \<Rightarrow> 's \<Rightarrow> error \<times> 's" where
  "consul_Heartbeat serviceId s = (None, s)"

definition info_of_agent :: "AgentService \<Rightarrow> ServiceInfo" where
  "info_of_agent svc =
    \<lparr>svc_ID = as_ID svc, svc_Name = as_Service svc, svc_Addr = as_Address svc, svc_Port = as_Port svc,
     svc_Tags = as_Tags svc, svc_Meta = as_Meta svc\<rparr>"

definition consul_GetServices :: "'s consul \<Rightarrow> string \<Rightarrow> 's \<Rightarrow> string + ServiceInfo list" where
  "consul_GetServices C serviceName s =
    (case ServicesWithFilter C (''Service == '' @ [CHR 0x22] @ serviceName @ [CHR 0x22]) s of
       Inl err \<Rightarrow> Inl (wrap_error ''query services from consul'' err)
     | Inr svcs \<Rightarrow> Inr (map info_of_agent svcs))"

definition consul_GetService :: "'s consul \<Rightarrow> string \<Rightarrow> 's \<Rightarrow> string + ServiceInfo" where
  "consul_GetService C serviceId s =
    (case Service C serviceId s of
       Inl err \<Rightarrow> Inl (wrap_error ''get service from consul'' err)
     | Inr svc \<Rightarrow> Inr (info_of_agent svc))"

subsection \<open>Etcd\<close>

text \<open>
  \<open>Get\<close> gives the key-value pairs of its answer, whose number is the answer's count; \<open>GetPrefix\<close> is
  \<open>Get\<close> with \<open>WithPrefix\<close>. A lease is known by its number.
\<close>

record 's etcd =
  Grant :: "int \<Rightarrow> 's \<Rightarrow> (string + nat) \<times> 's"
  Put :: "string \<Rightarrow> string \<Rightarrow> nat \<Rightarrow> 's \<Rightarrow> error \<times> 's"
  GetKey :: "string \<Rightarrow> 's \<Rightarrow> string + (string \<times> string) list"
  GetPrefix :: "string \<Rightarrow> 's \<Rightarrow> string + (string \<times> string) list"
  DeleteKey :: "string \<Rightarrow> 's \<Rightarrow> error \<times> 's"

definition serviceKey :: "string \<Rightarrow> string" where
  "serviceKey serviceId = ''/services/'' @ serviceId"

definition metaKey :: "string \<Rightarrow> string" where
  "metaKey key = key @ ''/meta''"

text \<open>\<open>%v\<close> of a slice and of a map of strings: maps print their keys in order.\<close>

fun spaced :: "string list \<Rightarrow> string" where
  "spaced [] = []"
| "spaced [x] = x"
| "spaced (x # xs) = x @ '' '' @ spaced xs"

definition format_slice :: "string list \<Rightarrow> string" where
  "format_slice xs = ''['' @ spaced xs @ '']''"

definition format_map :: "(string \<times> string) list \<Rightarrow> string" where
  "format_map m = ''map['' @ spaced (map (\<lambda>(k, v). k @ '':'' @ v) (sort_key fst m)) @ '']''"

definition meta_value :: "ServiceInfo \<Rightarrow> string" where
  "meta_value info =
    (let q = [CHR 0x22]
     in ''{'' @ q @ ''name'' @ q @ '':'' @ q @ svc_Name info @ q @ '','' @ q @ ''tags'' @ q @ '':'' @
        format_slice (svc_Tags info) @ '','' @ q @ ''meta'' @ q @ '':'' @ format_map (svc_Meta info) @ ''}'')"

definition addr_value :: "ServiceInfo \<Rightarrow> string" where
  "addr_value info = svc_Addr info @ '':'' @ FormatInt (svc_Port info)"

definition etcd_Register :: "'s etcd \<Rightarrow> ServiceInfo \<Rightarrow> 's \<Rightarrow> error \<times> 's" where
  "etcd_Register E info s =
    (let key = serviceKey (svc_ID info)
     in case Grant E 10 s of
          (Inl err, s1) \<Rightarrow> (Some (wrap_error ''create etcd lease'' err), s1)
        | (Inr lease, s1) \<Rightarrow>
          (case Put E key (addr_value info) lease s1 of
             (Some err, s2) \<Rightarrow> (Some (wrap_error ''put service to etcd'' err), s2)
           | (None, s2) \<Rightarrow>
             (case Put E (metaKey key) (meta_value info) lease s2 of
                (Some err, s3) \<Rightarrow> (Some (wrap_error ''put service meta to etcd'' err), s3)
              | (None, s3) \<Rightarrow> (None, s3))))"

definition etcd_Deregister :: "'s etcd \<Rightarrow> string \<Rightarrow> 's \<Rightarrow> error \<times> 's" where
  "etcd_Deregister E serviceId s =
    (let key = serviceKey serviceId
     in case DeleteKey E key s of
          (Some err, s1) \<Rightarrow> (Some (wrap_error ''delete service from etcd'' err), s1)
        | (None, s1) \<Rightarrow> (None, snd (DeleteKey E (metaKey key) s1)))"

definition etcd_Heartbeat :: "'s etcd \<Rightarrow> string \<Rightarrow> 's \<Rightarrow> error \<times> 's" where
  "etcd_Heartbeat E serviceId s =
    (let key = serviceKey serviceId
     in case GetKey E key s of
          Inl err \<Rightarrow> (Some (wrap_error ''get service from etcd'' err), s)
        | Inr [] \<Rightarrow> (Some (''service not found: '' @ serviceId), s)
        | Inr ((k, value) # kvs) \<Rightarrow>
          (case Grant E 10 s of
             (Inl err, s1) \<Rightarrow> (Some (wrap_error ''create etcd lease'' err), s1)
           | (Inr lease, s1) \<Rightarrow>
             (case Put E key value lease s1 of
                (Some err, s2) \<Rightarrow> (Some (wrap_error ''refresh service TTL in etcd'' err), s2)
              | (None, s2) \<Rightarrow>
                (None, case GetKey E (metaKey key) s2 of
                         Inr ((k', meta) # kvs') \<Rightarrow> snd (Put E (metaKey key) meta lease s2)
                       | _ \<Rightarrow> s2))))"

definition is_meta :: "string \<Rightarrow> bool" where
  "is_meta key \<longleftrightarrow> length key > 5 \<and> drop (length key - 5) key = ''/meta''"

definition etcd_info :: "'s etcd \<Rightarrow> string \<Rightarrow> 's \<Rightarrow> string \<times> string \<Rightarrow> ServiceInfo" where
  "etcd_info E serviceName s kv =
    (let key = fst kv;
         info = \<lparr>svc_ID = drop 10 key, svc_Name = '''', svc_Addr = snd kv, svc_Port = 0, svc_Tags = [], svc_Meta = []\<rparr>;
         info = (case scan_s_colon_d (svc_Addr info) of (addr, port) \<Rightarrow>
                   info\<lparr>svc_Addr := (case addr of None \<Rightarrow> svc_Addr info | Some a \<Rightarrow> a),
                        svc_Port := (case port of None \<Rightarrow> svc_Port info | Some p \<Rightarrow> p)\<rparr>)
     in case GetKey E (metaKey key) s of
          Inr (m # ms) \<Rightarrow> info\<lparr>svc_Name := serviceName\<rparr>
        | _ \<Rightarrow> info)"

definition etcd_GetServices :: "'s etcd \<Rightarrow> string \<Rightarrow> 's \<Rightarrow> string + ServiceInfo list" where
  "etcd_GetServices E serviceName s =
    (case GetPrefix E ''/services/'' s of
       Inl err \<Rightarrow> Inl (wrap_error ''list services from etcd'' err)
     | Inr kvs \<Rightarrow> Inr (map (etcd_info E serviceName s) (filter (\<lambda>(k, v). \<not> is_meta k) kvs)))"

section \<open>The interface\<close>

text \<open>A value of the interface type: which implementation, with its state.\<close>

datatype ('c, 'e) registry = Static StaticRegistry | Consul 'c | Etcd 'e

definition Register ::
  "'c consul \<Rightarrow> 'e etcd \<Rightarrow> ServiceInfo \<Rightarrow> ('c, 'e) registry \<Rightarrow> error \<times> ('c, 'e) registry" where
  "Register C E info r =
    (case r of
       Static s \<Rightarrow> map_prod id Static (static_Register info s)
     | Consul s \<Rightarrow> map_prod id Consul (consul_Register C info s)
     | Etcd s \<Rightarrow> map_prod id Etcd (etcd_Register E info s))"

definition Deregister ::
  "'c consul \<Rightarrow> 'e etcd \<Rightarrow> string \<Rightarrow> ('c, 'e) registry \<Rightarrow> error \<times> ('c, 'e) registry" where
  "Deregister C E serviceId r =
    (case r of
       Static s \<Rightarrow> map_prod id Static (static_Deregister serviceId s)
     | Consul s \<Rightarrow> map_prod id Consul (consul_Deregister C serviceId s)
     | Etcd s \<Rightarrow> map_prod id Etcd (etcd_Deregister E serviceId s))"

definition registry_Heartbeat ::
  "'c consul \<Rightarrow> 'e etcd \<Rightarrow> string \<Rightarrow> ('c, 'e) registry \<Rightarrow> error \<times> ('c, 'e) registry" where
  "registry_Heartbeat C E serviceId r =
    (case r of
       Static s \<Rightarrow> map_prod id Static (static_Heartbeat serviceId s)
     | Consul s \<Rightarrow> map_prod id Consul (consul_Heartbeat serviceId s)
     | Etcd s \<Rightarrow> map_prod id Etcd (etcd_Heartbeat E serviceId s))"

definition GetServices ::
  "'c consul \<Rightarrow> 'e etcd \<Rightarrow> string \<Rightarrow> ('c, 'e) registry \<Rightarrow> string + ServiceInfo list" where
  "GetServices C E serviceName r =
    (case r of
       Static s \<Rightarrow> Inr (static_GetServices serviceName s)
     | Consul s \<Rightarrow> consul_GetServices C serviceName s
     | Etcd s \<Rightarrow> etcd_GetServices E serviceName s)"

text \<open>
  \<open>NewRegistry\<close>: \<open>new_consul\<close> and \<open>new_etcd\<close> are the constructors of the two client libraries, which give a
  connected client state or an error.
\<close>

definition NewConsulRegistry :: "(string \<Rightarrow> string + 'c) \<Rightarrow> string \<Rightarrow> string + 'c" where
  "NewConsulRegistry new_consul addr =
    (case new_consul addr of Inl err \<Rightarrow> Inl (wrap_error ''create consul client'' err) | Inr client \<Rightarrow> Inr client)"

definition NewEtcdRegistry :: "(string \<Rightarrow> string + 'e) \<Rightarrow> string \<Rightarrow> string + 'e" where
  "NewEtcdRegistry new_etcd addr =
    (case new_etcd addr of Inl err \<Rightarrow> Inl (wrap_error ''create etcd client'' err) | Inr client \<Rightarrow> Inr client)"

definition NewRegistry ::
  "(string \<Rightarrow> string + 'c) \<Rightarrow> (string \<Rightarrow> string + 'e) \<Rightarrow> string \<Rightarrow> string \<Rightarrow> string + ('c, 'e) registry" where
  "NewRegistry new_consul new_etcd registryType addr =
    (if registryType = ''consul'' then map_sum id Consul (NewConsulRegistry new_consul addr)
     else if registryType = ''etcd'' then map_sum id Etcd (NewEtcdRegistry new_etcd addr)
     else if registryType = ''static'' then Inr (Static NewStaticRegistry)
     else Inl (''unknown registry type: '' @ registryType))"

section \<open>The registrar\<close>

text \<open>
  \<open>cancellable\<close> says whether the context can end: the one \<open>main\<close> passes cannot. A wake-up of the loop is
  one arm of its \<open>select\<close>; \<open>stopCh\<close> is ready once it is closed. Closing it twice panics.
\<close>

datatype loop_phase = NoLoop | Looping | Returned

record ('c, 'e) ServiceRegistrar =
  reg_impl :: "('c, 'e) registry"
  reg_info :: ServiceInfo
  stop_closed :: bool
  reg_loop :: loop_phase

definition NewServiceRegistrar :: "('c, 'e) registry \<Rightarrow> ServiceInfo \<Rightarrow> ('c, 'e) ServiceRegistrar" where
  "NewServiceRegistrar r info = \<lparr>reg_impl = r, reg_info = info, stop_closed = False, reg_loop = NoLoop\<rparr>"

definition Start ::
  "'c consul \<Rightarrow> 'e etcd \<Rightarrow> ('c, 'e) ServiceRegistrar \<Rightarrow> error \<times> ('c, 'e) ServiceRegistrar" where
  "Start C E s =
    (case Register C E (reg_info s) (reg_impl s) of
       (Some err, r) \<Rightarrow> (Some (wrap_error ''register failed'' err), s\<lparr>reg_impl := r\<rparr>)
     | (None, r) \<Rightarrow> (None, s\<lparr>reg_impl := r, reg_loop := Looping\<rparr>))"

datatype wakeup = CtxDone | StopSeen | Tick

definition is_etcd :: "('c, 'e) registry \<Rightarrow> bool" where
  "is_etcd r = (case r of Etcd s \<Rightarrow> True | _ \<Rightarrow> False)"

definition heartbeat_iteration ::
  "'c consul \<Rightarrow> 'e etcd \<Rightarrow> wakeup \<Rightarrow> ('c, 'e) ServiceRegistrar \<Rightarrow> ('c, 'e) ServiceRegistrar" where
  "heartbeat_iteration C E w s =
    (if \<not> is_etcd (reg_impl s) then s\<lparr>reg_loop := Returned\<rparr>
     else case w of
            CtxDone \<Rightarrow> s\<lparr>reg_loop := Returned\<rparr>
          | StopSeen \<Rightarrow>
              s\<lparr>reg_impl := snd (Deregister C E (svc_ID (reg_info s)) (reg_impl s)), reg_loop := Returned\<rparr>
          | Tick \<Rightarrow> s\<lparr>reg_impl := snd (registry_Heartbeat C E (svc_ID (reg_info s)) (reg_impl s))\<rparr>)"

definition Stop :: "('c, 'e) ServiceRegistrar \<Rightarrow> ('c, 'e) ServiceRegistrar option" where
  "Stop s = (if stop_closed s then None else Some (s\<lparr>stop_closed := True\<rparr>))"

inductive registrar_step ::
  "'c consul \<Rightarrow> 'e etcd \<Rightarrow> bool \<Rightarrow> ('c, 'e) ServiceRegistrar \<Rightarrow> ('c, 'e) ServiceRegistrar \<Rightarrow> bool"
  for C E cancellable where
  wake: "reg_loop s = Looping \<Longrightarrow> (w = StopSeen \<Longrightarrow> stop_closed s) \<Longrightarrow> (w = CtxDone \<Longrightarrow> cancellable) \<Longrightarrow>
    registrar_step C E cancellable s (heartbeat_iteration C E w s)"
| stop: "Stop s = Some s' \<Longrightarrow> registrar_step C E cancellable s s'"

inductive registrar_run ::
  "'c consul \<Rightarrow> 'e etcd \<Rightarrow> bool \<Rightarrow> ('c, 'e) ServiceRegistrar \<Rightarrow> ('c, 'e) ServiceRegistrar \<Rightarrow> bool"
  for C E cancellable s where
  here: "registrar_run C E cancellable s s"
| more: "registrar_run C E cancellable s s1 \<Longrightarrow> registrar_step C E cancellable s1 s2 \<Longrightarrow>
    registrar_run C E cancellable s s2"

inductive_cases registrar_stepE: "registrar_step C E cancellable s s'"

lemma is_etcd_simps [simp]:
  "is_etcd (Etcd e)" "\<not> is_etcd (Static r)" "\<not> is_etcd (Consul c)"
  by (simp_all add: is_etcd_def)

lemma is_etcd_ops [simp]:
  "is_etcd (snd (registry_Heartbeat C E i r)) = is_etcd r" "is_etcd (snd (Deregister C E i r)) = is_etcd r"
  "is_etcd (snd (Register C E info r)) = is_etcd r"
  by (cases r; simp add: registry_Heartbeat_def Deregister_def Register_def)+

section \<open>Etcd as a store\<close>

text \<open>
  What the code relies on of Etcd, over a view \<open>kv\<close> of the client's state: a read answers the value of
  the key, a prefix read the values of exactly the keys with the prefix, a write or a delete that
  succeeds changes its key and no other, one that fails changes nothing else, and a lease changes no
  key. Leases that run out are the subject of no property here.
\<close>

definition etcd_ok :: "'s etcd \<Rightarrow> ('s \<Rightarrow> string \<rightharpoonup> string) \<Rightarrow> bool" where
  "etcd_ok E kv \<longleftrightarrow>
     (\<forall>ttl s. kv (snd (Grant E ttl s)) = kv s) \<and>
     (\<forall>k v l s. kv (snd (Put E k v l s)) = (kv s)(k \<mapsto> v) \<or>
        fst (Put E k v l s) \<noteq> None \<and> kv (snd (Put E k v l s)) = kv s) \<and>
     (\<forall>k s. kv (snd (DeleteKey E k s)) = (kv s)(k := None) \<or>
        fst (DeleteKey E k s) \<noteq> None \<and> kv (snd (DeleteKey E k s)) = kv s) \<and>
     (\<forall>k s kvs. GetKey E k s = Inr kvs \<longrightarrow> kvs = (case kv s k of None \<Rightarrow> [] | Some v \<Rightarrow> [(k, v)])) \<and>
     (\<forall>p s kvs. GetPrefix E p s = Inr kvs \<longrightarrow> set kvs = {(k, v). prefix p k \<and> kv s k = Some v})"

lemma etcd_okD:
  assumes "etcd_ok E kv"
  shows "Grant E ttl s = (g, s') \<Longrightarrow> kv s' = kv s"
    and "Put E k v l s = (None, s') \<Longrightarrow> kv s' = (kv s)(k \<mapsto> v)"
    and "Put E k v l s = (err, s') \<Longrightarrow> kv s' = (kv s)(k \<mapsto> v) \<or> kv s' = kv s"
    and "DeleteKey E k s = (None, s') \<Longrightarrow> kv s' = (kv s)(k := None)"
    and "DeleteKey E k s = (err, s') \<Longrightarrow> kv s' = (kv s)(k := None) \<or> kv s' = kv s"
    and "GetKey E k s = Inr kvs \<Longrightarrow> kvs = (case kv s k of None \<Rightarrow> [] | Some v \<Rightarrow> [(k, v)])"
    and "GetPrefix E p s = Inr kvs \<Longrightarrow> set kvs = {(k, v). prefix p k \<and> kv s k = Some v}"
proof -
  note parts = assms [unfolded etcd_ok_def]
  have grant: "kv (snd (Grant E ttl s)) = kv s" for ttl s using parts by blast
  have put: "kv (snd (Put E k v l s)) = (kv s)(k \<mapsto> v) \<or>
      fst (Put E k v l s) \<noteq> None \<and> kv (snd (Put E k v l s)) = kv s" for k v l s using parts by blast
  have delete: "kv (snd (DeleteKey E k s)) = (kv s)(k := None) \<or>
      fst (DeleteKey E k s) \<noteq> None \<and> kv (snd (DeleteKey E k s)) = kv s" for k s using parts by blast
  show "Grant E ttl s = (g, s') \<Longrightarrow> kv s' = kv s" using grant [of ttl s] by simp
  show "Put E k v l s = (None, s') \<Longrightarrow> kv s' = (kv s)(k \<mapsto> v)" using put [of k v l s] by simp
  show "Put E k v l s = (err, s') \<Longrightarrow> kv s' = (kv s)(k \<mapsto> v) \<or> kv s' = kv s" using put [of k v l s] by auto
  show "DeleteKey E k s = (None, s') \<Longrightarrow> kv s' = (kv s)(k := None)" using delete [of k s] by simp
  show "DeleteKey E k s = (err, s') \<Longrightarrow> kv s' = (kv s)(k := None) \<or> kv s' = kv s" using delete [of k s] by auto
  show "GetKey E k s = Inr kvs \<Longrightarrow> kvs = (case kv s k of None \<Rightarrow> [] | Some v \<Rightarrow> [(k, v)])" using parts by blast
  show "GetPrefix E p s = Inr kvs \<Longrightarrow> set kvs = {(k, v). prefix p k \<and> kv s k = Some v}" using parts by blast
qed

lemma serviceKey_inject [simp]: "serviceKey i = serviceKey j \<longleftrightarrow> i = j"
  by (simp add: serviceKey_def)

lemma metaKey_not_key [simp]: "metaKey k \<noteq> k" "k \<noteq> metaKey k"
  by (simp_all add: metaKey_def)

lemma serviceKey_parts [simp]: "drop 10 (serviceKey i) = i" "prefix ''/services/'' (serviceKey i)"
  by (simp_all add: serviceKey_def)

lemma service_of_key [simp]: "prefix ''/services/'' k \<Longrightarrow> serviceKey (drop 10 k) = k"
  by (auto simp: prefix_def serviceKey_def)

lemma etcd_Register_kv:
  assumes "etcd_ok E kv" and "etcd_Register E info s = (None, s')"
  shows "kv s' = (kv s)(serviceKey (svc_ID info) \<mapsto> addr_value info,
                        metaKey (serviceKey (svc_ID info)) \<mapsto> meta_value info)"
  using assms(2) etcd_okD(1,2) [OF assms(1)]
  by (force simp: etcd_Register_def Let_def split: prod.splits sum.splits option.splits)

lemma etcd_Deregister_kv:
  assumes "etcd_ok E kv" and "etcd_Deregister E i s = (None, s')"
  shows "kv s' (serviceKey i) = None"
proof -
  obtain s1 where 1: "DeleteKey E (serviceKey i) s = (None, s1)"
    and s': "s' = snd (DeleteKey E (metaKey (serviceKey i)) s1)"
    using assms(2) by (auto simp: etcd_Deregister_def Let_def split: prod.splits option.splits)
  obtain err where 2: "DeleteKey E (metaKey (serviceKey i)) s1 = (err, s')"
    using s' by (metis prod.collapse)
  show ?thesis
    using etcd_okD(4) [OF assms(1) 1] etcd_okD(5) [OF assms(1) 2] by (auto simp: fun_upd_def)
qed

lemma etcd_Heartbeat_kv:
  assumes "etcd_ok E kv"
  shows "kv (snd (etcd_Heartbeat E i s)) = kv s"
proof -
  note ok = etcd_okD [OF assms]
  have head: "kv s0 k = Some v" if "GetKey E k s0 = Inr ((k', v) # kvs)" for k k' v kvs s0
    using ok(6) [OF that] by (auto split: option.splits)
  have same: "kv (snd (Put E k v l s0)) = kv s0" if "kv s0 k = Some v" for k v l s0
    using ok(3) [of k v l s0 "fst (Put E k v l s0)" "snd (Put E k v l s0)"] that by (auto simp: fun_upd_idem)
  show ?thesis
  proof (cases "GetKey E (serviceKey i) s")
    case (Inr kvs)
    show ?thesis
    proof (cases kvs)
      case (Cons e es)
      obtain k val where e: "e = (k, val)" by (cases e)
      have v: "kv s (serviceKey i) = Some val" using head Inr Cons e by simp
      obtain g s1 where g: "Grant E 10 s = (g, s1)" by fastforce
      have s1: "kv s1 = kv s" using ok(1) [OF g] .
      show ?thesis
      proof (cases g)
        case (Inr lease)
        obtain err s2 where p: "Put E (serviceKey i) val lease s1 = (err, s2)" by fastforce
        have s2: "kv s2 = kv s" using same [of s1 "serviceKey i" val lease] p s1 v by simp
        have "kv (snd (Put E (metaKey (serviceKey i)) meta lease s2)) = kv s"
          if "GetKey E (metaKey (serviceKey i)) s2 = Inr ((k', meta) # kvs')" for k' meta kvs'
          using same [of s2 _ meta lease] head [OF that] s2 by simp
        then show ?thesis
          using \<open>GetKey E (serviceKey i) s = Inr kvs\<close> Cons e g Inr p s2
          by (auto simp: etcd_Heartbeat_def Let_def split: option.split sum.split list.split)
      qed (use Inr Cons e g s1 in \<open>simp add: etcd_Heartbeat_def\<close>)
    qed (use Inr in \<open>simp add: etcd_Heartbeat_def\<close>)
  qed (simp add: etcd_Heartbeat_def)
qed

section \<open>What an interface promises\<close>

text \<open>
  A registry knows a set of ids. A registration that succeeds adds its id, one that is withdrawn removes
  it, and a heartbeat changes nothing a client can list.
\<close>

locale registration =
  fixes reg :: "ServiceInfo \<Rightarrow> 's \<Rightarrow> error \<times> 's"
    and dereg :: "string \<Rightarrow> 's \<Rightarrow> error \<times> 's"
    and beat :: "string \<Rightarrow> 's \<Rightarrow> error \<times> 's"
    and ids :: "'s \<Rightarrow> string set"
  assumes reg_ids: "reg info s = (None, s') \<Longrightarrow> ids s' = insert (svc_ID info) (ids s)"
    and dereg_ids: "dereg i s = (None, s') \<Longrightarrow> ids s' = ids s - {i}"
    and beat_ids: "ids (snd (beat i s)) = ids s"
begin

lemma beats_ids: "ids (((\<lambda>s. snd (beat i s)) ^^ k) s) = ids s"
  by (induction k) (simp_all add: beat_ids)

lemma life_cycle:
  assumes "reg info s = (None, s1)" and "s2 = ((\<lambda>s. snd (beat (svc_ID info) s)) ^^ k) s1"
    and "dereg (svc_ID info) s2 = (None, s3)"
  shows "svc_ID info \<in> ids s2" and "ids s3 = ids s - {svc_ID info}"
  using reg_ids [OF assms(1)] dereg_ids [OF assms(3)] beats_ids by (auto simp: assms(2))

end

definition static_ids :: "StaticRegistry \<Rightarrow> string set" where
  "static_ids r = fst ` set (services r)"

lemma static_ids_lookup: "i \<in> static_ids r \<longleftrightarrow> map_of (services r) i \<noteq> None"
  by (auto simp: static_ids_def map_of_eq_None_iff)

interpretation static: registration static_Register static_Deregister static_Heartbeat static_ids
  by unfold_locales
    (auto simp: static_Register_def static_Deregister_def static_Heartbeat_def static_ids_lookup set_eq_iff)

text \<open>The ids Etcd lists, for a client that keeps \<open>etcd_ok\<close>.\<close>

definition etcd_ids :: "('s \<Rightarrow> string \<rightharpoonup> string) \<Rightarrow> 's \<Rightarrow> string set" where
  "etcd_ids kv s = {i. kv s (serviceKey i) \<noteq> None \<and> \<not> is_meta (serviceKey i)}"

lemma etcd_GetServices_ids:
  assumes "etcd_ok E kv" and "etcd_GetServices E name s = Inr svcs"
  shows "svc_ID ` set svcs = etcd_ids kv s" and "svc \<in> set svcs \<Longrightarrow> svc_Port svc = 0"
proof -
  obtain kvs where k: "GetPrefix E ''/services/'' s = Inr kvs"
    and svcs: "svcs = map (etcd_info E name s) (filter (\<lambda>(k, v). \<not> is_meta k) kvs)"
    using assms(2) by (auto simp: etcd_GetServices_def split: sum.splits)
  have kv: "set kvs = {(k, v). prefix ''/services/'' k \<and> kv s k = Some v}" using etcd_okD(7) [OF assms(1) k] .
  have "snd (scan_s_colon_d v) = None" for v by (rule scan_s_colon_d_port)
  then have port: "svc_Port (etcd_info E name s kv) = 0" for kv
    by (auto simp: etcd_info_def Let_def case_prod_unfold split: sum.split list.split)
  show "svc \<in> set svcs \<Longrightarrow> svc_Port svc = 0" by (auto simp: svcs port)
  have id: "svc_ID (etcd_info E name s (k, v)) = drop 10 k" for k v
    by (auto simp: etcd_info_def Let_def split: prod.split sum.split list.split)
  have "svc_ID ` set svcs = {drop 10 k | k v. prefix ''/services/'' k \<and> kv s k = Some v \<and> \<not> is_meta k}"
    by (force simp: svcs id kv image_iff)
  also have "\<dots> = etcd_ids kv s"
    using serviceKey_parts by (auto simp: etcd_ids_def) (metis serviceKey_parts)
  finally show "svc_ID ` set svcs = etcd_ids kv s" .
qed

lemma etcd_ids_Register:
  assumes "etcd_ok E kv" and "etcd_Register E info s = (None, s')" and "\<not> is_meta (serviceKey (svc_ID info))"
  shows "svc_ID info \<in> etcd_ids kv s'"
  using assms(3) by (simp add: etcd_ids_def etcd_Register_kv [OF assms(1,2)])

section \<open>Properties\<close>


text \<open>An Etcd that never fails: a list of keys and values.\<close>

definition sample_etcd :: "(string \<times> string) list etcd" where
  "sample_etcd =
    \<lparr>Grant = (\<lambda>ttl s. (Inr 1, s)), Put = (\<lambda>k v l s. (None, AList.update k v s)),
     GetKey = (\<lambda>k s. Inr (case map_of s k of None \<Rightarrow> [] | Some v \<Rightarrow> [(k, v)])),
     GetPrefix = (\<lambda>p s. Inr (map (\<lambda>k. (k, the (map_of s k))) (filter (prefix p) (map fst s)))),
     DeleteKey = (\<lambda>k s. (None, AList.delete k s))\<rparr>"

lemma sample_etcd_ok: "etcd_ok sample_etcd map_of"
proof -
  have "(k, v) \<in> set (map (\<lambda>k. (k, the (map_of s k))) (filter (prefix p) (map fst s))) \<longleftrightarrow>
      prefix p k \<and> map_of s k = Some v" for k v p and s :: "(string \<times> string) list"
  proof -
    have "k \<in> set (map fst s) \<longleftrightarrow> map_of s k \<noteq> None" by (simp add: map_of_eq_None_iff)
    then show ?thesis by auto
  qed
  then show ?thesis by (auto simp: etcd_ok_def sample_etcd_def set_eq_iff)
qed

definition sample_info :: ServiceInfo where
  "sample_info = \<lparr>svc_ID = ''n1'', svc_Name = ''barrage'', svc_Addr = ''10.0.0.1'', svc_Port = 9000,
    svc_Tags = [], svc_Meta = []\<rparr>"


lemma reg_loop_iteration:
  "reg_info (heartbeat_iteration C E w s) = reg_info s"
  "stop_closed (heartbeat_iteration C E w s) = stop_closed s"
  "is_etcd (reg_impl (heartbeat_iteration C E w s)) = is_etcd (reg_impl s)"
  by (cases w; simp add: heartbeat_iteration_def)+

lemma registrar_run_facts:
  assumes "registrar_run C E False s0 s" and "reg_loop s0 = Looping"
  shows "reg_info s = reg_info s0 \<and> is_etcd (reg_impl s) = is_etcd (reg_impl s0) \<and>
    (\<not> is_etcd (reg_impl s0) \<longrightarrow> reg_impl s = reg_impl s0) \<and>
    (is_etcd (reg_impl s0) \<and> reg_loop s \<noteq> Looping \<longrightarrow>
       stop_closed s \<and> (\<exists>r. reg_impl s = snd (Deregister C E (svc_ID (reg_info s0)) r)))"
  using assms(1)
proof induction
  case here
  then show ?case using assms(2) by simp
next
  case (more s1 s2)
  from more.hyps(2) show ?case
  proof cases
    case (wake w)
    then show ?thesis using more.IH
      by (cases w) (auto simp: heartbeat_iteration_def)
  next
    case stop
    then show ?thesis using more.IH by (auto simp: Stop_def split: if_splits)
  qed
qed

text \<open>
  C37: who leaves the registry. Run a started registrar under a context that never ends, as \<open>main\<close> does, with
  any interleaving of ticks and \<open>Stop\<close>. With Etcd, a loop that has returned was stopped, and the last
  thing it did was to withdraw the node's own registration. With any other registry nothing the
  registrar does after \<open>Start\<close> ever reaches the registry: a stopped node stays registered.
\<close>

theorem registrar_leaves:
  assumes "Start C E (NewServiceRegistrar r info) = (None, s0)" and "registrar_run C E False s0 s"
  shows "(is_etcd r \<and> reg_loop s = Returned \<longrightarrow>
            stop_closed s \<and> (\<exists>r'. reg_impl s = snd (Deregister C E (svc_ID info) r'))) \<and>
         (\<not> is_etcd r \<longrightarrow> reg_impl s = snd (Register C E info r))"
proof -
  have s0: "reg_loop s0 = Looping" "reg_info s0 = info" "reg_impl s0 = snd (Register C E info r)"
    using assms(1) by (auto simp: Start_def NewServiceRegistrar_def split: prod.splits option.splits)
  then show ?thesis using registrar_run_facts [OF assms(2) s0(1)] by simp
qed

definition sample_consul :: "AgentServiceRegistration list consul" where
  "sample_consul =
    \<lparr>ServiceRegister = (\<lambda>r s. (None, r # s)),
     ServiceDeregister = (\<lambda>i s. (None, filter (\<lambda>r. reg_ID r \<noteq> i) s)),
     ServicesWithFilter = (\<lambda>f s. Inr []), Service = (\<lambda>i s. Inl ''unknown'')\<rparr>"

theorem registrar_leaves_witness:
  "\<exists>s0 s. Start sample_consul sample_etcd (NewServiceRegistrar (Consul []) sample_info) = (None, s0) \<and>
     registrar_run sample_consul sample_etcd False s0 s \<and> stop_closed s \<and>
     reg_impl s = Consul [consul_registration sample_info]"
proof -
  let ?C = sample_consul and ?E = sample_etcd
  let ?s0 = "(NewServiceRegistrar (Consul []) sample_info)\<lparr>reg_impl := Consul [consul_registration sample_info],
    reg_loop := Looping\<rparr>"
  have reg: "Register ?C ?E sample_info (Consul []) = (None, Consul [consul_registration sample_info])"
    by (simp add: Register_def consul_Register_def sample_consul_def)
  have start: "Start ?C ?E (NewServiceRegistrar (Consul []) sample_info) = (None, ?s0)"
    using reg by (simp add: Start_def NewServiceRegistrar_def)
  have "Stop ?s0 = Some (?s0\<lparr>stop_closed := True\<rparr>)" by (simp add: Stop_def NewServiceRegistrar_def)
  then have run: "registrar_run ?C ?E False ?s0 (?s0\<lparr>stop_closed := True\<rparr>)"
    by (intro registrar_run.more [OF registrar_run.here] registrar_step.stop)
  from registrar_leaves [OF start run] reg
  have "reg_impl (?s0\<lparr>stop_closed := True\<rparr>) = Consul [consul_registration sample_info]" by simp
  with start run show ?thesis by force
qed

end
