(* ===== verification/Metrics_Server.thy ===== *)
theory Metrics_Server
  imports Wire_Messages Text_Filter
begin

text \<open>
  \<open>internal/app/metrics_server.go\<close>: the page of counters that Prometheus scrapes and the health page. The
  HTTP library is not modelled: a handler is its headers and body. The page is read back by the rules
  of the text format, so that what is scraped are the counters.
\<close>

section \<open>The handlers\<close>

record response =
  content_type :: string
  body :: string

definition utf8_text :: "nat list \<Rightarrow> string" where
  "utf8_text bs = map char_of bs"

definition outputCounter :: "string \<Rightarrow> string \<Rightarrow> int64 \<Rightarrow> string" where
  "outputCounter name hlp v =
    ''# HELP '' @ name @ '' '' @ hlp @ [newline] @
    ''# TYPE '' @ name @ '' counter'' @ [newline] @
    name @ '' '' @ FormatInt (sint v) @ [newline] @ [newline]"

definition help_dispatch :: string where
  "help_dispatch =
    utf8_text [229, 185, 191, 230, 146, 173, 230, 180, 190, 229, 143, 145, 230, 128, 187, 230,
      172, 161, 230, 149, 176]"

definition help_dispatch_err :: string where
  "help_dispatch_err =
    utf8_text [229, 185, 191, 230, 146, 173, 230, 180, 190, 229, 143, 145, 229, 164, 177, 232,
      180, 165, 230, 128, 187, 230, 149, 176]"

definition help_filter :: string where
  "help_filter =
    utf8_text [230, 149, 143, 230, 132, 159, 232, 175, 141, 232, 167, 166, 229, 143, 145, 233,
      169, 179, 229, 155, 158, 230, 128, 187, 230, 149, 176]"

definition help_publish :: string where
  "help_publish =
    utf8_text [75, 97, 102, 107, 97, 231, 148, 159, 228, 186, 167, 229, 164, 177, 232, 180, 165,
      230, 128, 187, 230, 149, 176]"

definition help_consume :: string where
  "help_consume =
    utf8_text [75, 97, 102, 107, 97, 230, 182, 136, 232, 180, 185, 229, 164, 177, 232, 180, 165,
      230, 128, 187, 230, 149, 176]"

definition help_slow :: string where
  "help_slow =
    utf8_text [230, 133, 162, 232, 191, 158, 230, 142, 165, 232, 183, 179, 232, 191, 135, 228,
      184, 139, 229, 143, 145, 230, 128, 187, 230, 149, 176]"

definition help_rate :: string where
  "help_rate =
    utf8_text [233, 162, 145, 231, 142, 135, 233, 153, 144, 229, 136, 182, 233, 169, 179, 229,
      155, 158, 230, 128, 187, 230, 149, 176]"

definition counters :: "metrics \<Rightarrow> (string \<times> string \<times> int64) list" where
  "counters m =
    [(''barrage_broadcast_dispatch_total'', help_dispatch, BroadcastDispatchCount m),
     (''barrage_broadcast_dispatch_errors_total'', help_dispatch_err, BroadcastDispatchErrCount m),
     (''barrage_filter_reject_total'', help_filter, FilterRejectCount m),
     (''barrage_kafka_publish_errors_total'', help_publish, KafkaPublishErrCount m),
     (''barrage_kafka_consume_errors_total'', help_consume, KafkaConsumeErrCount m),
     (''barrage_slow_conn_skip_total'', help_slow, SlowConnSkipCount m),
     (''barrage_rate_limit_reject_total'', help_rate, RateLimitRejectCount m)]"

definition handleMetrics :: "metrics \<Rightarrow> response" where
  "handleMetrics m =
    \<lparr>content_type = ''text/plain; version=0.0.4'',
     body = concat (map (\<lambda>(name, hlp, v). outputCounter name hlp v) (counters m))\<rparr>"

definition handleHealth :: response where
  "handleHealth =
    \<lparr>content_type = ''application/json'',
     body = ''{'' @ [CHR 0x22] @ ''status'' @ [CHR 0x22] @ '':'' @ [CHR 0x22] @ ''ok'' @ [CHR 0x22] @ ''}''\<rparr>"

text \<open>The handlers by path, as \<open>Start\<close> registers them; \<open>None\<close> is the library's 404.\<close>

definition metrics_route :: "metrics \<Rightarrow> string \<Rightarrow> response option" where
  "metrics_route m path =
    (if path = ''/metrics'' then Some (handleMetrics m)
     else if path = ''/health'' then Some handleHealth
     else None)"

section \<open>Scraping\<close>

text \<open>
  A scraper splits the page into lines, drops comments and blank lines, and reads a name up to the first
  space and a decimal value after it.
\<close>

definition int_value :: "string \<Rightarrow> int" where
  "int_value s = (if s \<noteq> [] \<and> hd s = CHR ''-'' then - int (dec_value (tl s)) else int (dec_value s))"

definition scrape_line :: "string \<Rightarrow> (string \<times> int) list" where
  "scrape_line l =
    (if l = [] \<or> hd l = CHR ''#'' then []
     else [(takeWhile (\<lambda>c. c \<noteq> CHR '' '') l, int_value (tl (dropWhile (\<lambda>c. c \<noteq> CHR '' '') l)))])"

definition scrape :: "string \<Rightarrow> (string \<times> int) list" where
  "scrape page = concat (map scrape_line (split_lines page))"

lemma int_value_FormatInt [simp]: "int_value (FormatInt i) = i"
proof -
  have "hd (FormatNat n) \<noteq> CHR ''-''" for n
    using minus_not_digit [of n] list.set_sel(1) [OF FormatNat_nonempty, of n] by metis
  then show ?thesis by (simp add: int_value_def FormatInt_def)
qed

lemma FormatInt_no_newline: "newline \<notin> set (FormatInt i)"
proof -
  have "newline \<notin> set (FormatNat n)" for n
  proof
    assume "newline \<in> set (FormatNat n)"
    then obtain d where "d < 10" and "newline = dec_digit d" using FormatNat_digits by blast
    then have "(of_char newline :: nat) = 48 + d" by (metis dec_digit_value)
    then show False by simp
  qed
  then show ?thesis by (auto simp: FormatInt_def char_of_eq_iff)
qed

definition counter_name :: "string \<Rightarrow> bool" where
  "counter_name name \<longleftrightarrow> name \<noteq> [] \<and> hd name \<noteq> CHR ''#'' \<and> newline \<notin> set name \<and> CHR '' '' \<notin> set name"

lemma scrape_outputCounter:
  assumes "counter_name name" and "newline \<notin> set hlp"
  shows "scrape (outputCounter name hlp v @ rest) = (name, sint v) # scrape rest"
proof -
  let ?l1 = "''# HELP '' @ name @ '' '' @ hlp" and ?l2 = "''# TYPE '' @ name @ '' counter''"
    and ?l3 = "name @ '' '' @ FormatInt (sint v)"
  have "outputCounter name hlp v @ rest = ?l1 @ newline # ?l2 @ newline # ?l3 @ newline # [] @ newline # rest"
    by (simp add: outputCounter_def)
  moreover have nl: "newline \<notin> set ?l1" "newline \<notin> set ?l2" "newline \<notin> set ?l3"
    using assms FormatInt_no_newline by (auto simp: counter_name_def char_of_eq_iff)
  ultimately have "split_lines (outputCounter name hlp v @ rest) = ?l1 # ?l2 # ?l3 # [] # split_lines rest"
    by (simp only: split_lines_line nl) (simp add: split_lines_line [of "[]", simplified])
  moreover have "scrape_line ?l3 = [(name, sint v)]"
  proof -
    have sp: "\<And>c. c \<in> set name \<Longrightarrow> c \<noteq> CHR '' ''" using assms(1) by (auto simp: counter_name_def)
    show ?thesis
      using assms(1) by (simp add: scrape_line_def counter_name_def hd_append takeWhile_append2 [OF sp] dropWhile_append2 [OF sp])
  qed
  ultimately show ?thesis by (simp add: scrape_def scrape_line_def)
qed

lemmas help_defs = help_dispatch_def help_dispatch_err_def help_filter_def help_publish_def
  help_consume_def help_slow_def help_rate_def

lemma help_no_newline: "(name, hlp, v) \<in> set (counters m) \<Longrightarrow> newline \<notin> set hlp"
  by (auto simp: counters_def help_defs utf8_text_def char_of_eq_iff)

lemma counter_names: "(name, hlp, v) \<in> set (counters m) \<Longrightarrow> counter_name name"
  by (auto simp: counters_def counter_name_def char_of_eq_iff)

section \<open>Properties\<close>

text \<open>
  Prometheus scrapes the counters. Reading the metrics page by the rules of the text format gives
  each counter of the program under its name, with its signed value, in the order of the page.
\<close>

theorem metrics_scraped:
  "scrape (body (handleMetrics m)) = map (\<lambda>(name, hlp, v). (name, sint v)) (counters m)"
proof -
  have "scrape (concat (map (\<lambda>(name, hlp, v). outputCounter name hlp v) cs)) = map (\<lambda>(name, hlp, v). (name, sint v)) cs"
    if "set cs \<subseteq> set (counters m)" for cs
    using that
  proof (induction cs)
    case Nil
    then show ?case by (simp add: scrape_def)
  next
    case (Cons c cs)
    obtain name hlp v where c: "c = (name, hlp, v)" by (cases c)
    then have "(name, hlp, v) \<in> set (counters m)" using Cons.prems by simp
    then show ?case
      using Cons scrape_outputCounter [OF counter_names help_no_newline] by (simp add: c)
  qed
  then show ?thesis by (simp add: handleMetrics_def)
qed

end
