(* ===== verification/App_Lifecycle.thy ===== *)
theory App_Lifecycle
  imports Event_Handler Service_Registry Metrics_Server
begin

text \<open>
  The rest of \<open>internal/app/app.go\<close>, \<open>internal/worker/pool.go\<close> and \<open>cmd/barrage/main.go\<close>: how a node is put
  together, announced to the registry, started and shut down.

  A \<open>process\<close> is the application with the goroutines it owns: the consumer loop, the registrar and the
  metrics server.
\<close>

section \<open>The worker pool\<close>

text \<open>\<open>mk\<close> is the constructor of the pool library; the wrapper only corrects the size.\<close>

definition NewPool :: "(int \<Rightarrow> string + 'p) \<Rightarrow> int \<Rightarrow> string + 'p" where
  "NewPool mk n = mk (if n \<le> 0 then 1 else n)"

section \<open>The node's entry in the registry\<close>

definition after_last_colon :: "string \<Rightarrow> string option" where
  "after_last_colon addr =
    (if CHR '':'' \<in> set addr then Some (rev (takeWhile (\<lambda>c. c \<noteq> CHR '':'') (rev addr))) else None)"

definition registry_port :: "string \<Rightarrow> int" where
  "registry_port addr =
    (case after_last_colon addr of
       None \<Rightarrow> 9000
     | Some portStr \<Rightarrow> (case scan_d portStr of None \<Rightarrow> 9000 | Some p \<Rightarrow> p))"

definition node_info :: "string \<Rightarrow> Config \<Rightarrow> ServiceInfo" where
  "node_info hostname cfg =
    \<lparr>svc_ID = NodeId cfg, svc_Name = ServiceName cfg, svc_Addr = ListenAddr cfg,
     svc_Port = registry_port (ListenAddr cfg), svc_Tags = [], svc_Meta = [(''hostname'', hostname)]\<rparr>"

definition new_registrar ::
  "(string \<Rightarrow> string + 'c) \<Rightarrow> (string \<Rightarrow> string + 'e) \<Rightarrow> string \<Rightarrow> Config \<Rightarrow>
   string + ('c, 'e) ServiceRegistrar option" where
  "new_registrar new_consul new_etcd hostname cfg =
    (if RegistryType cfg \<noteq> ''static'' \<and> RegistryAddr cfg \<noteq> '''' then
       (case NewRegistry new_consul new_etcd (RegistryType cfg) (RegistryAddr cfg) of
          Inl err \<Rightarrow> Inl (wrap_error ''create registry'' err)
        | Inr r \<Rightarrow> Inr (Some (NewServiceRegistrar r (node_info hostname cfg))))
     else Inr None)"

section \<open>The process\<close>

datatype server_state = NoServer | Listening string | ServerClosed

record ('c, 'e) process =
  p_node :: node
  p_consumer :: "shared option"
  p_registrar :: "('c, 'e) ServiceRegistrar option"
  p_metrics :: server_state

definition new_process :: "app \<Rightarrow> ('c, 'e) ServiceRegistrar option \<Rightarrow> ('c, 'e) process" where
  "new_process a reg =
    \<lparr>p_node = new_node a, p_consumer = map_option start_shared (AppConsumer a), p_registrar = reg,
     p_metrics = NoServer\<rparr>"

text \<open>\<open>StartConsumer\<close>: the goroutine of the consumer's \<open>Start\<close>, once it has made its stop channel.\<close>

definition StartConsumer :: "('c, 'e) process \<Rightarrow> ('c, 'e) process" where
  "StartConsumer p =
    (case p_consumer p of
       None \<Rightarrow> p
     | Some s \<Rightarrow>
       if reader (con s)
       then p\<lparr>p_consumer := Some (s\<lparr>con := (con s)\<lparr>stopCh := OpenChan\<rparr>, loop := Running\<rparr>)\<rparr>
       else p)"

text \<open>\<open>MetricsServer.Start\<close>: the server listens in a goroutine of its own; what it serves is \<open>metrics_route\<close>.\<close>

definition start_metrics :: "string \<Rightarrow> server_state" where
  "start_metrics addr = Listening addr"

definition StartMetricsServer :: "string \<Rightarrow> ('c, 'e) process \<Rightarrow> ('c, 'e) process" where
  "StartMetricsServer addr p = p\<lparr>p_metrics := start_metrics (if addr = '''' then '':9090'' else addr)\<rparr>"

definition StartRegistry ::
  "'c consul \<Rightarrow> 'e etcd \<Rightarrow> ('c, 'e) process \<Rightarrow> error \<times> ('c, 'e) process" where
  "StartRegistry C E p =
    (case p_registrar p of
       None \<Rightarrow> (None, p)
     | Some s \<Rightarrow>
       (case Start C E s of
          (Some err, s') \<Rightarrow> (Some (wrap_error ''start registry'' err), p\<lparr>p_registrar := Some s'\<rparr>)
        | (None, s') \<Rightarrow> (None, p\<lparr>p_registrar := Some s'\<rparr>)))"

text \<open>The registry of the application is the one its registrar holds.\<close>

definition GetRegistryServices ::
  "'c consul \<Rightarrow> 'e etcd \<Rightarrow> string \<Rightarrow> ('c, 'e) process \<Rightarrow> string + ServiceInfo list" where
  "GetRegistryServices C E serviceName p =
    (case p_registrar p of
       None \<Rightarrow> Inr []
     | Some s \<Rightarrow> GetServices C E serviceName (reg_impl s))"

text \<open>\<open>MetricsServer.Stop\<close>.\<close>

definition stop_metrics :: "server_state \<Rightarrow> server_state" where
  "stop_metrics s = (case s of NoServer \<Rightarrow> NoServer | _ \<Rightarrow> ServerClosed)"

text \<open>\<open>App.Close\<close>; \<open>None\<close> is a panic, of the consumer's stop channel or the registrar's.\<close>

definition app_Close :: "('c, 'e) process \<Rightarrow> ('c, 'e) process option" where
  "app_Close p =
    (let cs = map_option Close (p_consumer p)
     in if map_option closer cs = Some ClosePanicked then None
        else
          (let p = p\<lparr>p_consumer := cs\<rparr>
           in case p_registrar p of
                None \<Rightarrow> Some (p\<lparr>p_metrics := stop_metrics (p_metrics p)\<rparr>)
              | Some s \<Rightarrow>
                (case Stop s of
                   None \<Rightarrow> None
                 | Some s' \<Rightarrow> Some (p\<lparr>p_registrar := Some s', p_metrics := stop_metrics (p_metrics p)\<rparr>))))"

definition OnShutdown :: "bool \<Rightarrow> ('c, 'e) process \<Rightarrow> ('c, 'e) process option" where
  "OnShutdown h p = (if h then app_Close p else Some p)"

section \<open>Start-up\<close>

text \<open>
  \<open>main\<close> up to \<open>gnet.Run\<close>. The background goroutines it starts (reload, heartbeat check, room cleaner) take
  their ticks later; \<open>Inl\<close> is a fatal error.
\<close>

definition boot ::
  "int \<Rightarrow> bool \<Rightarrow> fs_error + FileInfo \<Rightarrow> opened \<Rightarrow> (string \<Rightarrow> string + 'c) \<Rightarrow> (string \<Rightarrow> string + 'e) \<Rightarrow>
   'c consul \<Rightarrow> 'e etcd \<Rightarrow> string \<Rightarrow> Config \<Rightarrow> (string + ('c, 'e) process) option" where
  "boot numCPU pool_ok stat file new_consul new_etcd C E hostname cfg =
    (case New numCPU pool_ok stat file cfg of
       NewPanic \<Rightarrow> None
     | NewError \<Rightarrow> Some (Inl ''create app'')
     | NewApp a \<Rightarrow>
       (case new_registrar new_consul new_etcd hostname cfg of
          Inl err \<Rightarrow> Some (Inl err)
        | Inr reg \<Rightarrow>
          (case StartRegistry C E (new_process a reg) of
             (Some err, p) \<Rightarrow> Some (Inl err)
           | (None, p) \<Rightarrow> Some (Inr (StartMetricsServer (MetricsAddr cfg) (StartConsumer p))))))"

section \<open>Facts\<close>

lemma digits_no_colon: "CHR '':'' \<notin> set (FormatNat n)"
proof
  assume "CHR '':'' \<in> set (FormatNat n)"
  from FormatNat_is_digit [OF this] show False by (simp add: is_digit_def)
qed

lemma after_last_colon_port: "after_last_colon (pre @ '':'' @ FormatNat p) = Some (FormatNat p)"
proof -
  have "takeWhile (\<lambda>c. c \<noteq> CHR '':'') (rev (FormatNat p) @ CHR '':'' # rev pre) = rev (FormatNat p)"
    using digits_no_colon [of p] by (subst takeWhile_append2) auto
  then show ?thesis by (simp add: after_last_colon_def)
qed

lemma registry_port_decimal:
  "int p < 2 ^ 63 \<Longrightarrow> registry_port (pre @ '':'' @ FormatNat p) = int p"
  unfolding registry_port_def after_last_colon_port by (simp add: scan_d_FormatNat)

section \<open>Properties\<close>

text \<open>
  What a node registers. With a registry configured and reachable and a listen address that ends in
  a colon and a decimal port, the node registers this port, under its own id, with the whole listen
  address as its address; the health check Consul is given is therefore the listen address, its
  scheme and port included, between \<open>http://\<close> and the port again.
\<close>

theorem node_registers_as:
  assumes "RegistryType cfg \<noteq> ''static''" and "RegistryAddr cfg \<noteq> ''''"
    and "NewRegistry new_consul new_etcd (RegistryType cfg) (RegistryAddr cfg) = Inr r"
    and "ListenAddr cfg = pre @ '':'' @ FormatNat p" and "int p < 2 ^ 63"
  shows "\<exists>s. new_registrar new_consul new_etcd hostname cfg = Inr (Some s) \<and>
    reg_impl s = r \<and> svc_ID (reg_info s) = NodeId cfg \<and> svc_Port (reg_info s) = int p \<and>
    svc_Addr (reg_info s) = ListenAddr cfg \<and>
    check_HTTP (consul_registration (reg_info s)) =
      ''http://'' @ ListenAddr cfg @ '':'' @ FormatNat p @ ''/health''"
proof -
  have "registry_port (ListenAddr cfg) = int p" unfolding assms(4) by (rule registry_port_decimal [OF assms(5)])
  then show ?thesis
    using assms(1-3)
    by (simp add: new_registrar_def node_info_def NewServiceRegistrar_def consul_registration_def FormatInt_def)
qed

theorem node_registers_as_witness:
  "\<exists>s. new_registrar (\<lambda>_. Inr ([] :: AgentServiceRegistration list)) (\<lambda>_. Inl ''no etcd'' :: string + unit)
      ''h'' ((Load ''h'' 5 42 4)\<lparr>RegistryAddr := ''127.0.0.1:8500''\<rparr>) = Inr (Some s) \<and>
    check_HTTP (consul_registration (reg_info s)) = ''http://tcp://0.0.0.0:9000:9000/health''"
proof -
  let ?cfg = "(Load ''h'' 5 42 4)\<lparr>RegistryAddr := ''127.0.0.1:8500''\<rparr>"
  have nine: "FormatNat 9000 = ''9000''" by (simp add: FormatNat.simps dec_digit_def char_of_eq_iff)
  have cfg: "RegistryType ?cfg \<noteq> ''static''" "RegistryAddr ?cfg \<noteq> ''''" "RegistryType ?cfg = ''consul''"
    "ListenAddr ?cfg = ''tcp://0.0.0.0'' @ '':'' @ FormatNat 9000"
    unfolding nine by (simp_all add: Load_def)
  have r: "NewRegistry (\<lambda>_. Inr ([] :: AgentServiceRegistration list)) (\<lambda>_. Inl ''no etcd'' :: string + unit)
      (RegistryType ?cfg) (RegistryAddr ?cfg) = Inr (Consul [])"
    unfolding cfg(3) by (simp add: NewRegistry_def NewConsulRegistry_def)
  from node_registers_as [OF cfg(1,2) r cfg(4), of "''h''"] show ?thesis
    unfolding cfg(4) nine by auto
qed

end
