(* ===== verification/Cluster.thy ===== *)
theory Cluster
  imports "HOL-Library.Multiset" Node_Rooms
begin

text \<open>
  Nodes behind one Kafka topic. A \<open>cluster\<close> is the nodes, the consumer of each, the topic by partitions,
  the position of each consumer in each partition, and the envelopes a consumer's callback has given
  to the worker pool of its node and no worker has broadcast yet.

  The topic is Kafka's: a record goes to the end of the partition of its key (\<open>part\<close>, the hash balancer of
  the producer), a consumer reads each partition in order, and every node has a consumer group of its own.
  Whether a write reached the topic is an argument, also where the write was answered by an error.
\<close>

section \<open>The cluster\<close>

record cluster =
  nodes :: "sys list"
  consumers :: "Consumer option list"
  partitions :: "nat \<Rightarrow> bytes list"
  positions :: "nat \<Rightarrow> nat \<Rightarrow> nat"
  mail :: "nat \<Rightarrow> BroadcastEnvelope list"

definition empty_cluster :: cluster where
  "empty_cluster =
    \<lparr>nodes = [], consumers = [], partitions = (\<lambda>_. []), positions = (\<lambda>_ _. 0), mail = (\<lambda>_. [])\<rparr>"

text \<open>
  \<open>NodeStarts a\<close>: a node with application \<open>a\<close> starts; its consumer group is new (the configuration puts the host
  and a random number in its name), so its consumer reads every partition from the first record.
  \<open>At i ev stored\<close>: an event of node \<open>i\<close>, the \<open>k\<close>-th of its writes reaching the topic if \<open>stored k\<close>.
  \<open>Fetch i p accepts\<close>: the consumer of node \<open>i\<close> reads the next record of partition \<open>p\<close>, and its callback submits the
  broadcast to the pool. \<open>FetchFails i err\<close>: a read fails. \<open>RunMail i k ob\<close>: a worker of node \<open>i\<close> runs the broadcast of
  the \<open>k\<close>-th envelope waiting there.
\<close>

datatype cluster_event =
    NodeStarts app
  | At nat node_event "nat \<Rightarrow> bool"
  | Fetch nat nat bool
  | FetchFails nat string
  | RunMail nat nat "conn \<Rightarrow> int"

datatype cluster_output =
    Did effect
  | Handed nat BroadcastEnvelope
  | Delivered BroadcastEnvelope
  | Sent net_action

fun kafka_writes :: "effect list \<Rightarrow> (bytes \<times> bytes) list" where
  "kafka_writes [] = []"
| "kafka_writes (Kafka (WriteMessages k v) # es) = (k, v) # kafka_writes es"
| "kafka_writes (Kafka (SleepMs t) # es) = kafka_writes es"
| "kafka_writes (Net a # es) = kafka_writes es"
| "kafka_writes (Post l t # es) = kafka_writes es"

fun append_records :: "(bytes \<Rightarrow> nat) \<Rightarrow> (nat \<Rightarrow> bool) \<Rightarrow> (bytes \<times> bytes) list \<Rightarrow> (nat \<Rightarrow> bytes list) \<Rightarrow> (nat \<Rightarrow> bytes list)" where
  "append_records part stored [] ps = ps"
| "append_records part stored ((k, v) # ws) ps =
    append_records part (stored \<circ> Suc) ws (if stored 0 then ps(part k := ps (part k) @ [v]) else ps)"

fun cluster_do :: "codec \<Rightarrow> (bytes \<Rightarrow> nat) \<Rightarrow> cluster_event \<Rightarrow> cluster \<Rightarrow> ((nat \<times> cluster_output) list \<times> cluster) option" where
  "cluster_do cdc part (NodeStarts a) cl =
    Some ([], cl\<lparr>nodes := nodes cl @ [start_sys a],
                 consumers := consumers cl @ [map_option (stopCh_update (\<lambda>_. OpenChan)) (AppConsumer a)]\<rparr>)"
| "cluster_do cdc part (At i ev stored) cl =
    (if length (nodes cl) \<le> i then None
     else case node_do cdc ev (nodes cl ! i) of
       None \<Rightarrow> None
     | Some (act, es, s') \<Rightarrow>
       Some (map (\<lambda>e. (i, Did e)) es,
             cl\<lparr>nodes := (nodes cl)[i := s'],
                partitions := append_records part stored (kafka_writes es) (partitions cl)\<rparr>))"
| "cluster_do cdc part (Fetch i p accepts) cl =
    (if length (nodes cl) \<le> i \<or> length (partitions cl p) \<le> positions cl i p then None
     else case consumers cl ! i of
       None \<Rightarrow> None
     | Some c \<Rightarrow>
       let s = nodes cl ! i; v = partitions cl p ! positions cl i p
       in case loop_body cdc False \<lparr>msg_Value = Some v, read_err = None\<rparr> c (nmet (nd s)) of
            (it, envelopes, c', mt) \<Rightarrow>
              let taken = (if accepts then envelopes else [])
              in Some (map (\<lambda>e. (i, Handed p e)) taken,
                   cl\<lparr>nodes := (nodes cl)[i := s\<lparr>nd := (nd s)\<lparr>nmet := mt\<rparr>\<rparr>], consumers := (consumers cl)[i := Some c'],
                      positions := (positions cl)(i := (positions cl i)(p := Suc (positions cl i p))),
                      mail := (mail cl)(i := mail cl i @ taken)\<rparr>))"
| "cluster_do cdc part (FetchFails i err) cl =
    (if length (nodes cl) \<le> i then None
     else case consumers cl ! i of
       None \<Rightarrow> None
     | Some c \<Rightarrow>
       let s = nodes cl ! i
       in case loop_body cdc False \<lparr>msg_Value = None, read_err = Some err\<rparr> c (nmet (nd s)) of
            (it, envelopes, c', mt) \<Rightarrow>
              Some ([], cl\<lparr>nodes := (nodes cl)[i := s\<lparr>nd := (nd s)\<lparr>nmet := mt\<rparr>\<rparr>], consumers := (consumers cl)[i := Some c']\<rparr>))"
| "cluster_do cdc part (RunMail i k ob) cl =
    (if length (nodes cl) \<le> i \<or> length (mail cl i) \<le> k then None
     else
       let s = nodes cl ! i; e = mail cl i ! k
       in case BroadcastLocal (nctx (nd s)) ob (Some \<lparr>Rooms = Some (RoomManager (napp (nd s)))\<rparr>) (Some e) (nmet (nd s)) of
            (acts, mt) \<Rightarrow>
              Some ((i, Delivered e) # map (\<lambda>a. (i, Sent a)) acts,
                cl\<lparr>nodes := (nodes cl)[i := s\<lparr>nd := (nd s)\<lparr>nmet := mt\<rparr>\<rparr>],
                   mail := (mail cl)(i := take k (mail cl i) @ drop (Suc k) (mail cl i))\<rparr>))"

fun cluster_run ::
  "codec \<Rightarrow> (bytes \<Rightarrow> nat) \<Rightarrow> cluster_event list \<Rightarrow> cluster \<Rightarrow> ((nat \<times> cluster_output) list \<times> cluster) option" where
  "cluster_run cdc part [] cl = Some ([], cl)"
| "cluster_run cdc part (ev # evs) cl =
    (case cluster_do cdc part ev cl of
       None \<Rightarrow> None
     | Some (os, cl') \<Rightarrow>
       (case cluster_run cdc part evs cl' of None \<Rightarrow> None | Some (os', cl'') \<Rightarrow> Some (os @ os', cl'')))"

lemma cluster_run_append:
  "cluster_run cdc part (evs @ evs') cl =
    (case cluster_run cdc part evs cl of
       None \<Rightarrow> None
     | Some (os, cl') \<Rightarrow>
       (case cluster_run cdc part evs' cl' of None \<Rightarrow> None | Some (os', cl'') \<Rightarrow> Some (os @ os', cl'')))"
  by (induction evs arbitrary: cl) (auto split: option.splits)

lemma cluster_run_rev_induct [consumes 1, case_names none snoc]:
  assumes "cluster_run cdc part evs cl0 = Some (os, cl)"
    and "P [] [] cl0"
    and "\<And>evs os cl ev os' cl'. cluster_run cdc part evs cl0 = Some (os, cl) \<Longrightarrow> P evs os cl \<Longrightarrow>
      cluster_do cdc part ev cl = Some (os', cl') \<Longrightarrow> P (evs @ [ev]) (os @ os') cl'"
  shows "P evs os cl"
  using assms(1)
proof (induction evs arbitrary: os cl rule: rev_induct)
  case Nil
  with assms(2) show ?case by simp
next
  case (snoc ev evs)
  then obtain os1 cl1 os2 where "cluster_run cdc part evs cl0 = Some (os1, cl1)" "cluster_do cdc part ev cl1 = Some (os2, cl)"
    "os = os1 @ os2" by (auto simp: cluster_run_append split: option.splits)
  with snoc.IH assms(3) show ?case by blast
qed

section \<open>What reaches the topic\<close>

lemma kafka_writes_append [simp]: "kafka_writes (es @ fs) = kafka_writes es @ kafka_writes fs"
  by (induction es rule: kafka_writes.induct) simp_all

lemma kafka_writes_map [simp]:
  "kafka_writes (map Net as) = []" "kafka_writes (map (\<lambda>(l, u). Post l u) ps) = []" "kafka_writes (map Kafka tr) = writes tr"
  by (induction as, auto) (induction ps, auto, induction tr rule: writes.induct, auto)

lemma kafka_writes_replies [simp]: "kafka_writes (replies es) = []"
  by (induction es rule: replies.induct) simp_all

lemma append_records_set:
  "v \<in> set (append_records part stored ws ps p) \<Longrightarrow> v \<in> set (ps p) \<or> (\<exists>k. (k, v) \<in> set ws \<and> part k = p)"
  by (induction part stored ws ps rule: append_records.induct) (fastforce split: if_splits)+

lemma append_records_prefix: "\<exists>vs. append_records part stored ws ps p = ps p @ vs"
proof (induction part stored ws ps rule: append_records.induct)
  case (2 part stored k v ws ps)
  then show ?case by (auto simp: comp_def split: if_splits)
qed simp

lemma no_writes:
  "kafka_writes (fst (broadcast_here env e n)) = []" "kafka_writes (sendError env cdc c ctx code text) = []"
  "kafka_writes (fst (handleJoinRoom env cdc c ctx frame n)) = []"
  "kafka_writes (fst (post env i t n)) = []" "kafka_writes (fst (KickConn env k reason n)) = []"
  by (auto simp: broadcast_here_def sendError_def handleJoinRoom_def post_def KickConn_def Let_def
      split: prod.splits option.splits bool.splits)

lemma no_writes_range:
  "(\<And>c n. kafka_writes (fst (f c n)) = []) \<Longrightarrow> kafka_writes (fst (range_conns f tab n)) = []"
  by (induction f tab n rule: range_conns.induct) (auto split: prod.splits, metis fst_conv)

text \<open>
  The envelope of an accepted chat: the task \<open>k\<close> of the node is a chat, of a length the node takes, of an admitted sender
  in a room, not a banned one, the filter of the moment finds nothing in it, and the frame inside names the sender's room and user.
\<close>

definition chat_accepted :: "codec \<Rightarrow> env \<Rightarrow> nat \<Rightarrow> sys \<Rightarrow> BroadcastEnvelope \<Rightarrow> bool" where
  "chat_accepted cdc env k s e \<longleftrightarrow> k < length (pend s) \<and>
     (\<exists>ctx frame msg out. nctx (nd s) (task_Conn (pend s ! k)) = Some ctx \<and>
        0 < length (task_Data (pend s ! k)) \<and> length (task_Data (pend s ! k)) \<le> 64 * 1024 \<and>
        Unmarshal_Frame cdc (task_Data (pend s ! k)) = Some frame \<and> f_Op frame = OpType_OP_CHAT \<and>
        Unmarshal_ChatMsg cdc (f_Payload frame) = Some msg \<and>
        chat_admitted env (napp (nd s)) ctx \<and> \<not> isUserBanned (napp (nd s)) (UserID ctx) \<and>
        (\<forall>w \<in> set (reloadable_vocabulary (TextFilter (napp (nd s)))). w = '''' \<or> \<not> sublist w (chat_Content msg)) \<and>
        Marshal_Frame cdc (chat_frame env ctx (f_Payload frame)) = (out, None) \<and> e = chat_envelope env ctx out)"

text \<open>The envelope of an announcement to a room.\<close>

definition announced :: "codec \<Rightarrow> env \<Rightarrow> int64 \<Rightarrow> string \<Rightarrow> int32 \<Rightarrow> BroadcastEnvelope \<Rightarrow> bool" where
  "announced cdc env room content msgType e \<longleftrightarrow> positive room \<and> e_RoomId e = room \<and> e_SenderConnId e = ''SYSTEM'' \<and>
     e_Payload e = fst (Marshal_Frame cdc \<lparr>f_Op = OpType_OP_SYSTEM, f_RoomId = room, f_UserId = 0,
       f_Payload = fst (Marshal_SystemMsg cdc \<lparr>sys_Content = content, sys_Type = msgType\<rparr>), f_Timestamp = frame_ms env\<rparr>)"

definition sent_by :: "codec \<Rightarrow> node_event \<Rightarrow> sys \<Rightarrow> BroadcastEnvelope \<Rightarrow> bool" where
  "sent_by cdc ev s e \<longleftrightarrow> (case ev of
     Work env k \<Rightarrow> chat_accepted cdc env k s e
   | Announce env room content msgType \<Rightarrow> announced cdc env room content msgType e
   | _ \<Rightarrow> False)"

text \<open>The key of a record: the room of its envelope in decimals.\<close>

definition key_of :: "BroadcastEnvelope \<Rightarrow> bytes" where
  "key_of e = bytes_of_string (FormatInt (sint (e_RoomId e)))"

lemma Publish_writes:
  assumes "Publish cdc answer now p (Some e) = (r, tr)" and "e_MsgType e = 0" and "(k, v) \<in> set (writes tr)"
  shows "Marshal_Envelope cdc e = (v, None) \<and> k = bytes_of_string (FormatInt (sint (e_RoomId e)))"
  using assms by (auto simp: Publish_def EncodeBroadcastEnvelope_def MsgTypeDanmaku_def split: option.splits prod.splits if_splits)

lemma handleChat_writes:
  assumes "handleChat env cdc c ctx frame n = (es, n')" and "(k, v) \<in> set (kafka_writes es)"
  shows "\<exists>msg out. Unmarshal_ChatMsg cdc (f_Payload frame) = Some msg \<and> chat_admitted env (napp n) ctx \<and>
    \<not> Hit (reloadable_Check (TextFilter (napp n)) (chat_Content msg)) \<and>
    Marshal_Frame cdc (chat_frame env ctx (f_Payload frame)) = (out, None) \<and>
    Marshal_Envelope cdc (chat_envelope env ctx out) = (v, None) \<and>
    k = bytes_of_string (FormatInt (sint (RoomID ctx)))"
proof -
  have adm: "chat_admitted env (napp n) ctx"
    using assms no_writes by (auto simp: handleChat_def chat_admitted_def Let_def split: if_splits prod.splits option.splits)
  obtain msg where msg: "Unmarshal_ChatMsg cdc (f_Payload frame) = Some msg"
    using assms no_writes by (auto simp: handleChat_def Let_def split: if_splits prod.splits option.splits)
  note h = handleChat_admitted [OF adm msg, of c]
  have hit: "\<not> Hit (reloadable_Check (TextFilter (napp n)) (chat_Content msg))"
    using assms h no_writes by (auto simp: Let_def)
  obtain out where out: "Marshal_Frame cdc (chat_frame env ctx (f_Payload frame)) = (out, None)"
    using assms h hit by (auto simp: Let_def split: prod.splits option.splits)
  have wr: "kafka_writes (fst (broadcast_here env e m)) = []" for e m by (rule no_writes)
  show ?thesis
  proof (cases "AppProducer (napp n)")
    case None
    have "es = fst (handleChat env cdc c ctx frame n)" using assms(1) by simp
    then have "kafka_writes es = []" unfolding h using None hit out wr by (simp add: Let_def)
    with assms(2) show ?thesis by simp
  next
    case (Some p)
    obtain r tr where p: "Publish cdc (KafkaAnswer env) (now_nano env) (Some p) (Some (chat_envelope env ctx out)) = (r, tr)"
      by fastforce
    have "es = fst (handleChat env cdc c ctx frame n)" using assms(1) by simp
    then have "es = map Kafka tr" unfolding h using Some hit out p by (simp add: Let_def split: option.split)
    with assms(2) have "(k, v) \<in> set (writes tr)" by simp
    from Publish_writes [OF p _ this] adm msg hit out show ?thesis by (auto simp: chat_envelope_def)
  qed
qed

section \<open>Nodes keep their order\<close>

text \<open>What holds on every node after any events, of any environments.\<close>

definition sane :: "sys \<Rightarrow> bool" where
  "sane s \<longleftrightarrow> wf_manager (RoomManager (napp (nd s))) \<and>
     (\<forall>c ctx. nctx (nd s) c = Some ctx \<longrightarrow> in_room ctx \<longrightarrow> \<not> isUserBanned (napp (nd s)) (UserID ctx))"

lemma sane_same:
  assumes "same_places (nd s) n" and "sane s"
  shows "sane (s\<lparr>nd := n, pend := p\<rparr>)"
  using assms same_places_ctxD(1) [OF assms(1)]
  by (fastforce simp: sane_def same_places_def isUserBanned_def in_room_def place_eq_iff)

lemma sane_start: "New numCPU pool_ok stat fl cfg = NewApp a \<Longrightarrow> sane (start_sys a)"
  using New_facts(1) by (simp add: sane_def start_sys_def new_node_def)

lemma sane_do:
  assumes ev: "node_do cdc ev s = Some (act, es, s')" and s: "sane s"
  shows "sane s'"
proof -
  have wf: "wf_manager (RoomManager (napp (nd s)))" using s by (simp add: sane_def)
  have quiet: ?thesis if "same_places (nd s) n" "s' = s\<lparr>nd := n\<rparr>" for n
    using sane_same [OF that(1) s, of "pend s"] that(2) by simp
  show ?thesis
  proof (cases ev)
    case (Opened now c)
    obtain a n where o: "OnOpen True now c (nd s) = (a, n)" by fastforce
    have "RoomManager (napp n) = RoomManager (napp (nd s)) \<and> Cfg (napp n) = Cfg (napp (nd s)) \<and>
        (\<forall>d x. nctx n d = Some x \<longrightarrow> nctx (nd s) d = Some x \<or> \<not> in_room x)"
      using o by (auto simp: OnOpen_def Let_def NextConnID_def new_ConnContext_def in_room_def split: if_splits)
    moreover have "nd s' = n" using ev o by (auto simp: Opened split: if_splits action.splits)
    ultimately show ?thesis using s unfolding sane_def isUserBanned_def by metis
  next
    case (Read now accepts received c)
    obtain a es2 n where t: "OnTraffic True now accepts received c (nd s) = (a, es2, n)" using prod_cases3 by blast
    have "same_places (nd s) n" using OnTraffic_places [of "nd s" True now accepts received c] t by simp
    from sane_same [OF this s, of "pend s @ submitted es2"] ev t show ?thesis by (auto simp: Read split: if_splits)
  next
    case (Work env k)
    then have k: "k < length (pend s)" using ev by (auto split: if_splits)
    obtain es' n where h: "HandleInbound env cdc (Some (pend s ! k)) (nd s) = (es', n)" by fastforce
    have s': "s' = s\<lparr>nd := n, pend := take k (pend s) @ drop (Suc k) (pend s)\<rparr>" using ev k h by (simp add: Work)
    from h show ?thesis
    proof (cases rule: HandleInbound_split)
      case same
      from sane_same [OF this s] show ?thesis by (simp add: s')
    next
      case (joined ctx req)
      have "\<not> isUserBanned (napp (nd s)) (join_UserId req)"
        using joined(2) by (auto simp: join_refusal_def isUserBanned_def split: if_splits)
      then show ?thesis
        using s by (auto simp: s' joined(4) sane_def join_node_def Let_def isUserBanned_def wf_Add split: prod.splits if_splits)
    qed
  next
    case (Closed now c)
    obtain a n where o: "OnClose True now c (nd s) = (a, n)" by fastforce
    have "nctx n = nctx (nd s)" "Cfg (napp n) = Cfg (napp (nd s))" "wf_manager (RoomManager (napp n))"
      using o wf by (auto simp: OnClose_def Let_def wf_Remove split: option.splits)
    with ev o s show ?thesis by (auto simp: Closed sane_def isUserBanned_def split: if_splits)
  next
    case (CleanerTick now)
    with ev s room_cleaner_tick_spec(1) [OF wf] show ?thesis by (auto simp: sane_def isUserBanned_def)
  qed (rule quiet_do [OF ev], blast, erule (1) quiet)+
qed

lemma BroadcastSystemMsg_writes:
  assumes "BroadcastSystemMsg env cdc room content msgType n = (es, n')" and "(k, v) \<in> set (kafka_writes es)"
  shows "\<exists>e. announced cdc env room content msgType e \<and> Marshal_Envelope cdc e = (v, None) \<and> k = key_of e"
proof -
  let ?d = "fst (Marshal_Frame cdc \<lparr>f_Op = OpType_OP_SYSTEM, f_RoomId = room, f_UserId = 0,
       f_Payload = fst (Marshal_SystemMsg cdc \<lparr>sys_Content = content, sys_Type = msgType\<rparr>), f_Timestamp = frame_ms env\<rparr>)"
  let ?e = "\<lparr>e_MsgType = 0, e_IdempotencyKey = '''', e_RoomId = room, e_UserId = 0, e_SenderConnId = ''SYSTEM'',
      e_IsPremium = True, e_Payload = ?d, e_Timestamp = envelope_ms env, e_VideoTs = 0\<rparr>"
  have pos: "positive room" using assms by (auto simp: BroadcastSystemMsg_def split: if_splits)
  have es: "es = fst (BroadcastSystemMsg env cdc room content msgType n)" using assms(1) by simp
  show ?thesis
  proof (cases "AppProducer (napp n)")
    case None
    then have "kafka_writes es = []" unfolding es using pos no_writes(1) by (simp add: BroadcastSystemMsg_def Let_def)
    with assms(2) show ?thesis by simp
  next
    case (Some p)
    obtain r tr where p: "Publish cdc (KafkaAnswer env) (now_nano env) (Some p) (Some ?e) = (r, tr)" by fastforce
    have "kafka_writes es = writes tr"
      unfolding es using pos Some p no_writes(1) by (auto simp: BroadcastSystemMsg_def Let_def split: option.split prod.splits)
        (metis append_Nil2 fst_conv no_writes(1))+
    with assms(2) have "(k, v) \<in> set (writes tr)" by simp
    from Publish_writes [OF p _ this] pos show ?thesis by (intro exI [of _ ?e]) (simp add: announced_def key_of_def)
  qed
qed

text \<open>Every record a node writes is the envelope of an accepted chat or an announcement.\<close>

lemma node_do_writes:
  assumes ev: "node_do cdc ev s = Some (act, es, s')" and s: "sane s" and kv: "(k, v) \<in> set (kafka_writes es)"
  shows "\<exists>e. sent_by cdc ev s e \<and> Marshal_Envelope cdc e = (v, None) \<and> k = key_of e"
proof (cases ev)
  case (Work env j)
  then have j: "j < length (pend s)" using ev by (auto split: if_splits)
  let ?t = "pend s ! j"
  obtain n where h: "HandleInbound env cdc (Some ?t) (nd s) = (es, n)" using ev j by (auto simp: Work split: prod.splits)
  obtain ctx frame where len: "0 < length (task_Data ?t)" "length (task_Data ?t) \<le> 64 * 1024"
    and f: "nctx (nd s) (task_Conn ?t) = Some ctx" "Unmarshal_Frame cdc (task_Data ?t) = Some frame"
    "f_Op frame = OpType_OP_CHAT" and c: "handleChat env cdc (task_Conn ?t) ctx frame (nd s) = (es, n)"
    using h kv no_writes(3) [of env cdc "task_Conn ?t" _ _ "nd s"]
    by (auto simp: HandleInbound_def handleHeartbeat_def split: option.splits if_splits) (metis empty_iff fst_conv list.set(1))+
  from handleChat_writes [OF c kv] obtain msg out where m: "Unmarshal_ChatMsg cdc (f_Payload frame) = Some msg"
    "chat_admitted env (napp (nd s)) ctx" "\<not> Hit (reloadable_Check (TextFilter (napp (nd s))) (chat_Content msg))"
    "Marshal_Frame cdc (chat_frame env ctx (f_Payload frame)) = (out, None)"
    "Marshal_Envelope cdc (chat_envelope env ctx out) = (v, None)" "k = bytes_of_string (FormatInt (sint (RoomID ctx)))" by blast
  have "k = key_of (chat_envelope env ctx out)" using m(6) by (simp add: key_of_def chat_envelope_def)
  moreover have "\<not> isUserBanned (napp (nd s)) (UserID ctx)" using s f(1) m(2) by (auto simp: sane_def chat_admitted_def in_room_def)
  with j len f m have "chat_accepted cdc env j s (chat_envelope env ctx out)"
    unfolding chat_accepted_def reloadable_filter.hit_iff by blast
  ultimately show ?thesis using m(5) by (auto simp: sent_by_def Work)
next
  case (Announce env room content msgType)
  with ev kv BroadcastSystemMsg_writes show ?thesis by (fastforce simp: sent_by_def split: prod.splits)
next
  case (HeartbeatTick now)
  have "kafka_writes (fst (heartbeat_tick now (nd s))) = []"
    unfolding heartbeat_tick_def by (rule no_writes_range) (auto split: option.split)
  with ev kv show ?thesis by (auto simp: HeartbeatTick split: prod.splits)
next
  case (Kick env u reason)
  have "kafka_writes (fst (KickUser env u reason (nd s))) = []"
    by (auto simp: KickUser_def no_writes split: option.split intro!: no_writes_range)
  with ev kv show ?thesis by (auto simp: Kick split: prod.splits)
next
  case (AnnounceAll env content msgType)
  have "kafka_writes (fst (BroadcastGlobalSystemMsg env cdc content msgType (nd s))) = []"
    by (auto simp: BroadcastGlobalSystemMsg_def no_writes Let_def split: option.split intro!: no_writes_range)
  with ev kv show ?thesis by (auto simp: AnnounceAll split: prod.splits)
qed (use ev kv in \<open>auto split: if_splits prod.splits action.splits\<close>)

section \<open>Where broadcasts come from\<close>

definition sent_before ::
  "codec \<Rightarrow> (bytes \<Rightarrow> nat) \<Rightarrow> cluster \<Rightarrow> cluster_event list \<Rightarrow> BroadcastEnvelope \<Rightarrow> bool" where
  "sent_before cdc part cl0 evs e \<longleftrightarrow>
     (\<exists>evs1 j ev stored evs2 os cl. evs = evs1 @ At j ev stored # evs2 \<and> cluster_run cdc part evs1 cl0 = Some (os, cl) \<and>
        j < length (nodes cl) \<and> sent_by cdc ev (nodes cl ! j) e)"

lemma sent_before_append: "sent_before cdc part cl0 evs e \<Longrightarrow> sent_before cdc part cl0 (evs @ evs') e"
  unfolding sent_before_def by (metis append.assoc append_Cons)

definition built :: "app \<Rightarrow> bool" where
  "built a \<longleftrightarrow> (\<exists>numCPU pool_ok stat fl. New numCPU pool_ok stat fl (Cfg a) = NewApp a)"

text \<open>Nodes start with what \<open>New\<close> made for them.\<close>

definition by_New :: "cluster_event \<Rightarrow> bool" where
  "by_New ev \<longleftrightarrow> (case ev of NodeStarts a \<Rightarrow> built a | _ \<Rightarrow> True)"

text \<open>Every record is in the partition of its room, and came from an event before; so did all that waits in the pools.\<close>

definition origin_ok :: "codec \<Rightarrow> (bytes \<Rightarrow> nat) \<Rightarrow> cluster \<Rightarrow> cluster_event list \<Rightarrow> cluster \<Rightarrow> bool" where
  "origin_ok cdc part cl0 evs cl \<longleftrightarrow> (\<forall>s \<in> set (nodes cl). sane s) \<and>
     (\<forall>p. \<forall>v \<in> set (partitions cl p).
        \<exists>e. sent_before cdc part cl0 evs e \<and> Marshal_Envelope cdc e = (v, None) \<and> p = part (key_of e)) \<and>
     (\<forall>i. \<forall>e \<in> set (mail cl i). sent_before cdc part cl0 evs e)"

lemma sane_metrics [simp]: "sane (s\<lparr>nd := (nd s)\<lparr>nmet := mt\<rparr>\<rparr>) = sane s"
  by (simp add: sane_def)

lemma loop_body_read:
  assumes "loop_body cdc False \<lparr>msg_Value = Some v, read_err = None\<rparr> c mt = (it, es, c', mt')" and "e \<in> set es"
  shows "Unmarshal_Envelope cdc v = Some e"
  using assms by (auto simp: loop_body_def processMessage_def DecodeBroadcastEnvelope_def Let_def split: if_splits option.splits)

lemma sane_nodes:
  assumes "\<forall>s \<in> set ns. sane s" and "i < length ns"
  shows "\<forall>s \<in> set (ns[i := (ns ! i)\<lparr>nd := (nd (ns ! i))\<lparr>nmet := mt\<rparr>\<rparr>]). sane s"
  using assms set_update_subset_insert [of ns i "(ns ! i)\<lparr>nd := (nd (ns ! i))\<lparr>nmet := mt\<rparr>\<rparr>"] by auto

lemma origin_do:
  assumes rt: "\<And>e v. Marshal_Envelope cdc e = (v, None) \<Longrightarrow> Unmarshal_Envelope cdc v = Some e"
    and run: "cluster_run cdc part evs cl0 = Some (os, cl)" and ok: "origin_ok cdc part cl0 evs cl"
    and ev: "cluster_do cdc part ev cl = Some (os', cl')" and new: "by_New ev"
  shows "origin_ok cdc part cl0 (evs @ [ev]) cl' \<and>
    (\<forall>i p e. (i, Handed p e) \<in> set os' \<longrightarrow> p = part (key_of e))"
proof -
  have sn: "\<forall>s \<in> set (nodes cl). sane s"
    and rec: "v \<in> set (partitions cl p) \<Longrightarrow>
      \<exists>e. sent_before cdc part cl0 (evs @ [ev]) e \<and> Marshal_Envelope cdc e = (v, None) \<and> p = part (key_of e)"
    and mails: "e \<in> set (mail cl i) \<Longrightarrow> sent_before cdc part cl0 (evs @ [ev]) e" for p v i e
    using ok sent_before_append unfolding origin_ok_def by blast+
  show ?thesis
  proof (cases ev)
    case (NodeStarts a)
    with new have "sane (start_sys a)" by (auto simp: by_New_def built_def dest: sane_start)
    with sn rec mails ev show ?thesis by (auto simp: origin_ok_def NodeStarts)
  next
    case (At j nev stored)
    then obtain act es s' where j: "j < length (nodes cl)" and d: "node_do cdc nev (nodes cl ! j) = Some (act, es, s')"
      and out: "os' = map (\<lambda>e. (j, Did e)) es"
      and cl': "cl' = cl\<lparr>nodes := (nodes cl)[j := s'],
        partitions := append_records part stored (kafka_writes es) (partitions cl)\<rparr>"
      using ev by (auto split: if_splits option.splits prod.splits)
    have s: "sane (nodes cl ! j)" using sn j by simp
    have new: "\<exists>e. sent_before cdc part cl0 (evs @ [ev]) e \<and> Marshal_Envelope cdc e = (v, None) \<and> k = key_of e"
      if kv: "(k, v) \<in> set (kafka_writes es)" for k v
    proof -
      obtain e where "sent_by cdc nev (nodes cl ! j) e" "Marshal_Envelope cdc e = (v, None)" "k = key_of e"
        using node_do_writes [OF d s kv] by blast
      with run j show ?thesis unfolding sent_before_def At by blast
    qed
    have "\<exists>e. sent_before cdc part cl0 (evs @ [ev]) e \<and> Marshal_Envelope cdc e = (v, None) \<and> p = part (key_of e)"
      if "v \<in> set (partitions cl' p)" for p v
    proof -
      from that append_records_set [of v part stored "kafka_writes es" "partitions cl" p]
      consider "v \<in> set (partitions cl p)" | k where "(k, v) \<in> set (kafka_writes es)" "p = part k" by (auto simp: cl')
      then show ?thesis using rec new by cases blast+
    qed
    moreover have "\<forall>s \<in> set (nodes cl'). sane s"
      using sn sane_do [OF d s] set_update_subset_insert [of "nodes cl" j s'] by (auto simp: cl')
    ultimately show ?thesis using mails by (auto simp: origin_ok_def cl' out)
  next
    case (Fetch i p accepts)
    let ?s = "nodes cl ! i" and ?v = "partitions cl p ! positions cl i p"
    obtain c where i: "i < length (nodes cl)" "positions cl i p < length (partitions cl p)" "consumers cl ! i = Some c"
      using ev by (auto simp: Fetch split: if_splits option.splits)
    obtain it es c' mt where lb: "loop_body cdc False \<lparr>msg_Value = Some ?v, read_err = None\<rparr> c (nmet (nd ?s)) = (it, es, c', mt)"
      using prod_cases4 by blast
    let ?taken = "if accepts then es else []"
    have out: "os' = map (\<lambda>e. (i, Handed p e)) ?taken"
      and cl': "cl' = cl\<lparr>nodes := (nodes cl)[i := ?s\<lparr>nd := (nd ?s)\<lparr>nmet := mt\<rparr>\<rparr>], consumers := (consumers cl)[i := Some c'],
                      positions := (positions cl)(i := (positions cl i)(p := Suc (positions cl i p))),
                      mail := (mail cl)(i := mail cl i @ ?taken)\<rparr>"
      using ev i lb by (auto simp: Fetch Let_def)
    obtain e0 where e0: "sent_before cdc part cl0 (evs @ [ev]) e0" "Marshal_Envelope cdc e0 = (?v, None)" "p = part (key_of e0)"
      using rec [of ?v p] i(2) by auto
    have tk: "e = e0" if "e \<in> set es" for e using loop_body_read [OF lb that] rt [OF e0(2)] by simp
    have "\<forall>s \<in> set (nodes cl'). sane s"
      using sane_nodes [OF sn i(1)] by (simp add: cl')
    with rec mails tk e0 show ?thesis by (auto simp: origin_ok_def cl' out split: if_splits)
  next
    case (FetchFails i err)
    then obtain c it es c' mt where i: "i < length (nodes cl)" and out: "os' = []"
      and cl': "cl' = cl\<lparr>nodes := (nodes cl)[i := (nodes cl ! i)\<lparr>nd := (nd (nodes cl ! i))\<lparr>nmet := mt\<rparr>\<rparr>], consumers := (consumers cl)[i := Some c']\<rparr>"
      using ev by (auto simp: Let_def split: if_splits option.splits prod.splits)
    have "\<forall>s \<in> set (nodes cl'). sane s"
      using sane_nodes [OF sn i] by (simp add: cl')
    with rec mails show ?thesis by (auto simp: origin_ok_def cl' out)
  next
    case (RunMail i k ob)
    then obtain acts mt where i: "i < length (nodes cl)" and out: "os' = (i, Delivered (mail cl i ! k)) # map (\<lambda>a. (i, Sent a)) acts"
      and cl': "cl' = cl\<lparr>nodes := (nodes cl)[i := (nodes cl ! i)\<lparr>nd := (nd (nodes cl ! i))\<lparr>nmet := mt\<rparr>\<rparr>],
        mail := (mail cl)(i := take k (mail cl i) @ drop (Suc k) (mail cl i))\<rparr>"
      using ev by (auto simp: Let_def split: if_splits prod.splits)
    have "\<forall>s \<in> set (nodes cl'). sane s"
      using sane_nodes [OF sn i] by (simp add: cl')
    with rec mails show ?thesis by (auto simp: origin_ok_def cl' out dest: in_set_takeD in_set_dropD split: if_splits)
  qed
qed


lemma origin_run:
  assumes "\<And>e v. Marshal_Envelope cdc e = (v, None) \<Longrightarrow> Unmarshal_Envelope cdc v = Some e"
    and "cluster_run cdc part evs empty_cluster = Some (os, cl)" and "list_all by_New evs"
  shows "origin_ok cdc part empty_cluster evs cl \<and> (\<forall>i p e. (i, Handed p e) \<in> set os \<longrightarrow> p = part (key_of e))"
  using assms(2,3)
proof (induction rule: cluster_run_rev_induct)
  case none
  show ?case by (simp add: origin_ok_def empty_cluster_def)
next
  case (snoc evs os cl ev os' cl')
  with origin_do [OF assms(1) snoc.hyps(1) _ snoc.hyps(2)] show ?case by auto
qed

lemma written_to_mem: "AsyncWrite d b \<in> set acts \<Longrightarrow> b \<in> set (written_to d acts)"
  by (induction d acts rule: written_to.induct) auto

lemma deliver_outputs:
  assumes "cluster_do cdc part ev cl = Some (os, cl')" and "(i, Sent (AsyncWrite d b)) \<in> set os"
    and "\<forall>s \<in> set (nodes cl). sane s"
  shows "\<exists>k ob. ev = RunMail i k ob \<and> i < length (nodes cl) \<and> k < length (mail cl i) \<and>
    b = BuildBinaryFrame (e_Payload (mail cl i ! k)) \<and>
    (\<exists>key. members (RoomManager (napp (nd (nodes cl ! i)))) (e_RoomId (mail cl i ! k)) key = Some d) \<and>
    verdict (nctx (nd (nodes cl ! i))) ob (mail cl i ! k) d = Deliver"
proof (cases ev)
  case (RunMail j k ob)
  let ?n = "nd (nodes cl ! j)" and ?e = "mail cl j ! k"
  obtain acts mt where b: "BroadcastLocal (nctx ?n) ob (Some \<lparr>Rooms = Some (RoomManager (napp ?n))\<rparr>) (Some ?e) (nmet ?n) = (acts, mt)"
    by fastforce
  have j: "j < length (nodes cl)" "k < length (mail cl j)" using assms(1) by (auto simp: RunMail split: if_splits)
  have "wf_manager (RoomManager (napp ?n))" using assms(3) j by (simp add: sane_def)
  note wr = BroadcastLocal_written [OF this, of d "nctx ?n" ob ?e "nmet ?n"]
  have "os = (j, Delivered ?e) # map (\<lambda>a. (j, Sent a)) acts" using assms(1) j b by (simp add: RunMail Let_def)
  with assms(2) have i: "i = j" and "AsyncWrite d b \<in> set acts" by auto
  then have "b \<in> set (written_to d acts)" using written_to_mem by blast
  then have v: "verdict (nctx ?n) ob ?e d = Deliver" and "b = BuildBinaryFrame (e_Payload ?e)"
    and "card {key. members (RoomManager (napp ?n)) (e_RoomId ?e) key = Some d} \<noteq> 0"
    using wr by (auto simp: b split: if_splits)
  moreover from this(3) have "\<exists>key. members (RoomManager (napp ?n)) (e_RoomId ?e) key = Some d"
    by (metis (mono_tags, lifting) card.empty empty_Collect_eq)
  ultimately show ?thesis using i j by (auto simp: RunMail)
qed (use assms in \<open>auto simp: Let_def split: if_splits option.splits prod.splits\<close>)

section \<open>Order\<close>

definition handed_on :: "nat \<Rightarrow> nat \<Rightarrow> (nat \<times> cluster_output) list \<Rightarrow> BroadcastEnvelope list" where
  "handed_on i p os = concat (map (\<lambda>(j, x). case x of Handed q e \<Rightarrow> if j = i \<and> q = p then [e] else [] | _ \<Rightarrow> []) os)"

definition handed_all :: "nat \<Rightarrow> (nat \<times> cluster_output) list \<Rightarrow> BroadcastEnvelope list" where
  "handed_all i os = concat (map (\<lambda>(j, x). case x of Handed q e \<Rightarrow> if j = i then [e] else [] | _ \<Rightarrow> []) os)"

definition delivered :: "nat \<Rightarrow> (nat \<times> cluster_output) list \<Rightarrow> BroadcastEnvelope list" where
  "delivered i os = concat (map (\<lambda>(j, x). case x of Delivered e \<Rightarrow> if j = i then [e] else [] | _ \<Rightarrow> []) os)"

lemma outputs_append [simp]:
  "handed_on i p (os @ os') = handed_on i p os @ handed_on i p os'" "handed_all i (os @ os') = handed_all i os @ handed_all i os'"
  "delivered i (os @ os') = delivered i os @ delivered i os'"
  by (simp_all add: handed_on_def handed_all_def delivered_def)

lemma outputs_map [simp]:
  "handed_on i p (map (\<lambda>e. (j, Did e)) es) = []" "handed_all i (map (\<lambda>e. (j, Did e)) es) = []"
  "delivered i (map (\<lambda>e. (j, Did e)) es) = []"
  by (induction es) (simp_all add: handed_on_def handed_all_def delivered_def)

lemma outputs_handed [simp]:
  "handed_on i p (map (\<lambda>e. (j, Handed q e)) vs) = (if j = i \<and> q = p then vs else [])"
  "handed_all i (map (\<lambda>e. (j, Handed q e)) vs) = (if j = i then vs else [])"
  "delivered i (map (\<lambda>e. (j, Handed q e)) vs) = []"
  by (induction vs) (simp_all add: handed_on_def handed_all_def delivered_def)

lemma outputs_delivered [simp]:
  "handed_on i p ((j, Delivered e) # map (\<lambda>a. (j, Sent a)) acts) = []"
  "handed_all i ((j, Delivered e) # map (\<lambda>a. (j, Sent a)) acts) = []"
  "delivered i ((j, Delivered e) # map (\<lambda>a. (j, Sent a)) acts) = (if j = i then [e] else [])"
  by (induction acts) (simp_all add: handed_on_def handed_all_def delivered_def)

text \<open>The envelopes of records, those that decode.\<close>

definition envelopes_of :: "codec \<Rightarrow> bytes list \<Rightarrow> BroadcastEnvelope list" where
  "envelopes_of cdc vs = List.map_filter (DecodeBroadcastEnvelope cdc) vs"

lemma envelopes_append [simp]: "envelopes_of cdc (vs @ ws) = envelopes_of cdc vs @ envelopes_of cdc ws"
  by (simp add: envelopes_of_def List.map_filter_def)

definition eager :: "cluster_event \<Rightarrow> bool" where
  "eager ev \<longleftrightarrow> (case ev of Fetch i p accepts \<Rightarrow> accepts | _ \<Rightarrow> True)"

definition reading :: "Consumer option \<Rightarrow> bool" where
  "reading co \<longleftrightarrow> (case co of None \<Rightarrow> True | Some c \<Rightarrow> handle c \<and> stopCh c \<noteq> ClosedChan)"

definition order_ok :: "codec \<Rightarrow> (nat \<times> cluster_output) list \<Rightarrow> cluster \<Rightarrow> bool" where
  "order_ok cdc os cl \<longleftrightarrow> length (consumers cl) = length (nodes cl) \<and> (\<forall>co \<in> set (consumers cl). reading co) \<and>
     (\<forall>i p. positions cl i p \<le> length (partitions cl p) \<and>
        handed_on i p os = envelopes_of cdc (take (positions cl i p) (partitions cl p))) \<and>
     (\<forall>i. mset (delivered i os) + mset (mail cl i) = mset (handed_all i os))"

lemma reading_body:
  assumes "reading (Some c)" and "loop_body cdc False rd c mt = (it, es, c', mt')"
  shows "reading (Some c')" and "read_err rd = None \<Longrightarrow> msg_Value rd = Some v \<Longrightarrow> es = envelopes_of cdc [v]"
  using assms loop_body_keeps [OF assms(2)]
  by (auto simp: reading_def loop_body_def processMessage_def envelopes_of_def List.map_filter_def Let_def
      split: if_splits option.splits)

lemma New_consumer: "New numCPU pool_ok stat fl cfg = NewApp a \<Longrightarrow> AppConsumer a = None \<or> AppConsumer a = Some (NewConsumer True)"
  by (auto simp: New_def Let_def split: if_splits option.splits)

lemma reading_start:
  assumes "built a"
  shows "reading (map_option (stopCh_update (\<lambda>_. OpenChan)) (AppConsumer a))"
proof -
  from assms obtain numCPU pool_ok stat fl where "New numCPU pool_ok stat fl (Cfg a) = NewApp a" unfolding built_def by blast
  from New_consumer [OF this] show ?thesis by (auto simp: reading_def NewConsumer_def)
qed

lemma order_fetch:
  assumes ok: "order_ok cdc os cl" and ev: "cluster_do cdc part (Fetch i p True) cl = Some (os', cl')"
  shows "order_ok cdc (os @ os') cl'"
proof -
  let ?s = "nodes cl ! i" and ?v = "partitions cl p ! positions cl i p"
  obtain c where i: "i < length (nodes cl)" "positions cl i p < length (partitions cl p)" "consumers cl ! i = Some c"
    using ev by (auto split: if_splits option.splits)
  obtain it es c' mt where lb: "loop_body cdc False \<lparr>msg_Value = Some ?v, read_err = None\<rparr> c (nmet (nd ?s)) = (it, es, c', mt)"
    using prod_cases4 by blast
  have out: "os' = map (\<lambda>e. (i, Handed p e)) es"
    and cl': "cl' = cl\<lparr>nodes := (nodes cl)[i := ?s\<lparr>nd := (nd ?s)\<lparr>nmet := mt\<rparr>\<rparr>], consumers := (consumers cl)[i := Some c'],
                    positions := (positions cl)(i := (positions cl i)(p := Suc (positions cl i p))),
                    mail := (mail cl)(i := mail cl i @ es)\<rparr>"
    using ev i lb by (auto simp: Let_def)
  have "reading (Some c)" using ok i by (metis nth_mem order_ok_def)
  note rb = reading_body [OF this lb]
  have es: "es = envelopes_of cdc [?v]" using rb(2) by simp
  have "\<forall>co \<in> set (consumers cl'). reading co"
    using ok rb(1) set_update_subset_insert [of "consumers cl" i "Some c'"] by (auto simp: order_ok_def cl')
  moreover have "positions cl' j q \<le> length (partitions cl' q) \<and>
      handed_on j q (os @ os') = envelopes_of cdc (take (positions cl' j q) (partitions cl' q))" for j q
  proof (cases "j = i \<and> q = p")
    case True
    have "take (Suc (positions cl i p)) (partitions cl p) = take (positions cl i p) (partitions cl p) @ [?v]"
      using i(2) by (simp add: take_Suc_conv_app_nth)
    with True ok i(2) show ?thesis by (simp add: order_ok_def cl' out es)
  next
    case False
    with ok show ?thesis by (auto simp: order_ok_def cl' out)
  qed
  moreover have "mset (delivered j (os @ os')) + mset (mail cl' j) = mset (handed_all j (os @ os'))" for j
    using ok by (simp add: order_ok_def cl' out)
  ultimately show ?thesis using ok by (simp add: order_ok_def cl')
qed

lemma order_do:
  assumes ok: "order_ok cdc os cl" and ev: "cluster_do cdc part ev cl = Some (os', cl')" and "eager ev" and "by_New ev"
  shows "order_ok cdc (os @ os') cl'"
proof (cases ev)
  case (NodeStarts a)
  with ok ev reading_start [of a] \<open>by_New ev\<close> show ?thesis by (auto simp: order_ok_def by_New_def)
next
  case (At j nev stored)
  then obtain act es s' where out: "os' = map (\<lambda>e. (j, Did e)) es"
    and cl': "cl' = cl\<lparr>nodes := (nodes cl)[j := s'],
      partitions := append_records part stored (kafka_writes es) (partitions cl)\<rparr>"
    using ev by (auto split: if_splits option.splits prod.splits)
  have "take n (append_records part stored (kafka_writes es) (partitions cl) p) = take n (partitions cl p) \<and>
      n \<le> length (append_records part stored (kafka_writes es) (partitions cl) p)" if "n \<le> length (partitions cl p)" for n p
    using append_records_prefix [of part stored "kafka_writes es" "partitions cl" p] that by auto
  with ok show ?thesis unfolding out cl' by (simp add: order_ok_def)
next
  case (Fetch i p accepts)
  with \<open>eager ev\<close> order_fetch [OF ok] ev show ?thesis by (simp add: eager_def)
next
  case (FetchFails i err)
  then obtain c it es c' mt where i: "i < length (nodes cl)" "consumers cl ! i = Some c" and out: "os' = []"
    and lb: "loop_body cdc False \<lparr>msg_Value = None, read_err = Some err\<rparr> c (nmet (nd (nodes cl ! i))) = (it, es, c', mt)"
    and cl': "cl' = cl\<lparr>nodes := (nodes cl)[i := (nodes cl ! i)\<lparr>nd := (nd (nodes cl ! i))\<lparr>nmet := mt\<rparr>\<rparr>], consumers := (consumers cl)[i := Some c']\<rparr>"
    using ev by (auto simp: Let_def split: if_splits option.splits prod.splits)
  have "reading (Some c)" using ok i by (metis nth_mem order_ok_def)
  from reading_body(1) [OF this lb] have "\<forall>co \<in> set (consumers cl'). reading co"
    using ok set_update_subset_insert [of "consumers cl" i "Some c'"] by (auto simp: order_ok_def cl')
  with ok show ?thesis by (simp add: order_ok_def cl' out)
next
  case (RunMail i k ob)
  then obtain acts mt where i: "k < length (mail cl i)" and out: "os' = (i, Delivered (mail cl i ! k)) # map (\<lambda>a. (i, Sent a)) acts"
    and cl': "cl' = cl\<lparr>nodes := (nodes cl)[i := (nodes cl ! i)\<lparr>nd := (nd (nodes cl ! i))\<lparr>nmet := mt\<rparr>\<rparr>],
      mail := (mail cl)(i := take k (mail cl i) @ drop (Suc k) (mail cl i))\<rparr>"
    using ev by (auto simp: Let_def split: if_splits prod.splits)
  have "mset (mail cl i) = mset (take k (mail cl i) @ mail cl i ! k # drop (Suc k) (mail cl i))"
    using id_take_nth_drop [OF i] by simp
  then have "mset (mail cl i) = add_mset (mail cl i ! k) (mset (take k (mail cl i)) + mset (drop (Suc k) (mail cl i)))" by simp
  moreover have "mset (delivered i os) + mset (mail cl i) = mset (handed_all i os)" using ok by (simp add: order_ok_def)
  ultimately have "add_mset (mail cl i ! k) (mset (delivered i os) + (mset (take k (mail cl i)) + mset (drop (Suc k) (mail cl i)))) =
      mset (handed_all i os)" by simp
  with ok show ?thesis by (simp add: order_ok_def cl' out)
qed

lemma order_start: "order_ok cdc [] empty_cluster"
  by (simp add: order_ok_def empty_cluster_def handed_on_def handed_all_def delivered_def envelopes_of_def List.map_filter_def)

lemma order_run:
  assumes "cluster_run cdc part evs empty_cluster = Some (os, cl)" and "list_all eager evs" and "list_all by_New evs"
  shows "order_ok cdc os cl"
  using assms
proof (induction rule: cluster_run_rev_induct)
  case none
  show ?case by (rule order_start)
next
  case (snoc evs os cl ev os' cl')
  with order_do [OF _ snoc.hyps(2)] show ?case by auto
qed


section \<open>Properties\<close>

text \<open>
  C10: broadcasts are authentic. Whatever a node writes for an envelope of the topic, it writes to a connection
  that then is in the envelope's room there, and the envelope is one that some node had sent before: a chat of
  an admitted, not banned sender in that room, without a word of the list, or an announcement.
\<close>

theorem broadcasts_are_authentic:
  assumes "\<And>e v. Marshal_Envelope cdc e = (v, None) \<Longrightarrow> Unmarshal_Envelope cdc v = Some e"
    and "cluster_run cdc part evs empty_cluster = Some (os, cl)" and "list_all by_New evs"
    and "(i, Sent (AsyncWrite d b)) \<in> set os"
  shows "\<exists>evs1 k ob evs2 os1 cl1. evs = evs1 @ RunMail i k ob # evs2 \<and>
    cluster_run cdc part evs1 empty_cluster = Some (os1, cl1) \<and> i < length (nodes cl1) \<and> k < length (mail cl1 i) \<and>
    b = BuildBinaryFrame (e_Payload (mail cl1 i ! k)) \<and>
    (\<exists>key. members (RoomManager (napp (nd (nodes cl1 ! i)))) (e_RoomId (mail cl1 i ! k)) key = Some d) \<and>
    sent_before cdc part empty_cluster evs1 (mail cl1 i ! k)"
  using assms(2-4)
proof (induction rule: cluster_run_rev_induct)
  case none
  then show ?case by simp
next
  case (snoc evs os cl ev os' cl')
  have new: "list_all by_New evs" using snoc.prems(1) by simp
  show ?case
  proof (cases "(i, Sent (AsyncWrite d b)) \<in> set os")
    case True
    from snoc.IH [OF new True] show ?thesis by (metis append.assoc append_Cons)
  next
    case False
    then have here: "(i, Sent (AsyncWrite d b)) \<in> set os'" using snoc.prems(2) by simp
    have ok: "origin_ok cdc part empty_cluster evs cl" using origin_run [OF assms(1) snoc.hyps(1) new] by blast
    then have "\<forall>s \<in> set (nodes cl). sane s" by (simp add: origin_ok_def)
    from deliver_outputs [OF snoc.hyps(2) here this] obtain k ob where k: "ev = RunMail i k ob" "i < length (nodes cl)"
      "k < length (mail cl i)" "b = BuildBinaryFrame (e_Payload (mail cl i ! k))"
      "\<exists>key. members (RoomManager (napp (nd (nodes cl ! i)))) (e_RoomId (mail cl i ! k)) key = Some d" by blast
    have "sent_before cdc part empty_cluster evs (mail cl i ! k)" using ok nth_mem [OF k(3)] unfolding origin_ok_def by blast
    with k snoc.hyps(1) show ?thesis by blast
  qed
qed

definition of_room :: "int64 \<Rightarrow> BroadcastEnvelope list \<Rightarrow> BroadcastEnvelope list" where
  "of_room r es = filter (\<lambda>e. e_RoomId e = r) es"

lemma of_room_partition:
  assumes "\<forall>i p e. (i, Handed p e) \<in> set os \<longrightarrow> p = part (key_of e)"
  shows "of_room r (handed_all i os) = of_room r (handed_on i (part (bytes_of_string (FormatInt (sint r)))) os)"
  using assms
  by (induction os) (fastforce simp: of_room_def handed_on_def handed_all_def key_of_def split: cluster_output.splits)+

lemma prefix_take: "m \<le> n \<Longrightarrow> prefix (take m xs) (take n xs)"
  by (metis min.absorb1 take_is_prefix take_take)

lemma prefix_envelopes: "prefix vs ws \<Longrightarrow> prefix (of_room r (envelopes_of cdc vs)) (of_room r (envelopes_of cdc ws))"
  by (auto simp: prefix_def of_room_def)



lemma partitions_grow:
  "cluster_run cdc part evs cl = Some (os, cl') \<Longrightarrow> prefix (partitions cl p) (partitions cl' p)"
proof (induction rule: cluster_run_rev_induct)
  case (snoc evs os cl1 ev os' cl')
  have "prefix (partitions cl1 p) (partitions cl' p)"
    using snoc.hyps(2)
  proof (cases ev)
    case (At i nev stored)
    with snoc.hyps(2) append_records_prefix show ?thesis
      by (auto simp: prefix_def split: if_splits option.splits prod.splits)
  qed (auto simp: Let_def split: if_splits option.splits prod.splits)
  with snoc.IH show ?case by (rule prefix_order.trans)
qed simp


section \<open>A concrete run\<close>

lemma quiet_run:
  "node_run cdc evs s = Some (es, s') \<Longrightarrow> sane s \<Longrightarrow> (\<And>ev t e. ev \<in> set evs \<Longrightarrow> \<not> sent_by cdc ev t e) \<Longrightarrow> kafka_writes es = []"
proof (induction evs arbitrary: s es)
  case (Cons ev evs)
  then obtain act es1 s1 es2 where d: "node_do cdc ev s = Some (act, es1, s1)" "node_run cdc evs s1 = Some (es2, s')" "es = es1 @ es2"
    by (auto split: option.splits)
  have "kafka_writes es1 = []"
  proof (rule ccontr)
    assume "kafka_writes es1 \<noteq> []"
    then obtain k v where "(k, v) \<in> set (kafka_writes es1)" by (cases "kafka_writes es1") auto
    from node_do_writes [OF d(1) Cons.prems(2) this] Cons.prems(3) show False by auto
  qed
  moreover have "kafka_writes es2 = []" using Cons.IH [OF d(2) sane_do [OF d(1) Cons.prems(2)]] Cons.prems(3) by simp
  ultimately show ?case by (simp add: d(3))
qed simp

lemma at_run:
  "node_run cdc evs (nodes cl ! i) = Some (es, s') \<Longrightarrow> i < length (nodes cl) \<Longrightarrow> kafka_writes es = [] \<Longrightarrow>
   cluster_run cdc part (map (\<lambda>ev. At i ev stored) evs) cl = Some (map (\<lambda>e. (i, Did e)) es, cl\<lparr>nodes := (nodes cl)[i := s']\<rparr>)"
proof (induction evs arbitrary: cl es)
  case (Cons ev evs)
  then obtain act es1 s1 es2 where d: "node_do cdc ev (nodes cl ! i) = Some (act, es1, s1)" "node_run cdc evs s1 = Some (es2, s')"
    "es = es1 @ es2" by (auto split: option.splits)
  let ?cl = "cl\<lparr>nodes := (nodes cl)[i := s1]\<rparr>"
  have "cluster_run cdc part (map (\<lambda>ev. At i ev stored) evs) ?cl = Some (map (\<lambda>e. (i, Did e)) es2, ?cl\<lparr>nodes := (nodes ?cl)[i := s']\<rparr>)"
    using Cons.IH [of ?cl es2] Cons.prems d(2,3) by simp
  then show ?case using d Cons.prems by (auto simp del: node_do.simps)
next
  case Nil
  then have "s' = nodes cl ! i" "es = []" by simp_all
  then show ?case by simp
qed

definition sample_peer :: app where
  "sample_peer =
    (case New 2 True (Inl ErrNotExist) (Inl ErrNotExist) ((Load ''host'' 5 42 2)\<lparr>EnableKafka := True\<rparr>) of
       NewApp a \<Rightarrow> a | _ \<Rightarrow> undefined)"

lemma two_loops_peer: "two_loops True sample_peer"
  unfolding two_loops_def by (simp add: sample_peer_def New_def NewManager_def Let_def)

lemma peer_parts:
  "AppProducer sample_peer = Some (NewProducer ''barrage-broadcast'')" "AppConsumer sample_peer = Some (NewConsumer True)"
  by (simp_all add: sample_peer_def New_def NewManager_def Let_def Load_def)

lemma built_peer: "built sample_peer"
  using two_loops_peer two_loops_facts(1) [OF two_loops_peer] unfolding built_def two_loops_def by metis

text \<open>A client library whose frames are joins, and that knows one envelope: an announcement to room 5.\<close>

definition relayed :: BroadcastEnvelope where
  "relayed = \<lparr>e_MsgType = 0, e_IdempotencyKey = '''', e_RoomId = 5, e_UserId = 0, e_SenderConnId = ''SYSTEM'',
     e_IsPremium = True, e_Payload = [1, 2, 3], e_Timestamp = 1000000, e_VideoTs = 0\<rparr>"

definition relay_codec :: codec where
  "relay_codec = joining_codec\<lparr>Marshal_Frame := \<lambda>_. ([1, 2, 3], None),
     Marshal_Envelope := (\<lambda>e. if e = relayed then ([9], None) else ([], Some ''unknown'')),
     Unmarshal_Envelope := (\<lambda>b. if b = [9] then Some relayed else None)\<rparr>"

lemma relay_round_trip: "Marshal_Envelope relay_codec e = (v, None) \<Longrightarrow> Unmarshal_Envelope relay_codec v = Some e"
  by (auto simp: relay_codec_def split: if_splits)

text \<open>
  A node starts, connection 7 joins its room 5, the node announces there, its consumer reads the record and a
  worker broadcasts it; then a second node starts and its consumer reads the record.
\<close>

definition relay_events :: "cluster_event list" where
  "relay_events = NodeStarts sample_peer # map (\<lambda>ev. At 0 ev (\<lambda>_. True))
     (visit 7 [[1], [2]] @ [Work sample_env 0, Announce sample_env 5 ''hi'' 1]) @ [Fetch 0 0 True, RunMail 0 0 (\<lambda>_. 0)]"

definition late_events :: "cluster_event list" where
  "late_events = [Fetch 1 0 True]"

lemma relay_by_New: "list_all by_New (relay_events @ NodeStarts sample_peer # late_events)"
  and relay_eager: "list_all eager (relay_events @ NodeStarts sample_peer # late_events)"
  by (simp_all add: relay_events_def late_events_def by_New_def eager_def built_peer list_all_iff)

lemma announce_do:
  assumes "AppProducer (napp (nd s)) = Some p"
  shows "node_do relay_codec (Announce sample_env 5 ''hi'' 1) s =
    Some (ActNone, [Kafka (WriteMessages (key_of relayed) [9])], s)"
proof -
  have "relayed = \<lparr>e_MsgType = 0, e_IdempotencyKey = '''', e_RoomId = 5, e_UserId = 0, e_SenderConnId = ''SYSTEM'',
     e_IsPremium = True, e_Payload = [1, 2, 3], e_Timestamp = envelope_ms sample_env, e_VideoTs = 0\<rparr>"
    "e_RoomId relayed = 5"
    by (simp_all add: relayed_def sample_env_def)
  then show ?thesis using assms
    by (simp add: BroadcastSystemMsg_def Let_def Publish_def EncodeBroadcastEnvelope_def MsgTypeDanmaku_def sample_env_def key_of_def
        relay_codec_def)
qed

lemma from_written_to: "b \<in> set (written_to d acts) \<Longrightarrow> AsyncWrite d b \<in> set acts"
  by (induction d acts rule: written_to.induct) (auto split: if_splits)

lemma peer_joined:
  "\<exists>es s. node_run relay_codec (visit 7 [[1], [2]] @ [Work sample_env 0]) (start_sys sample_peer) = Some (es, s) \<and>
    kafka_writes es = [] \<and> AppProducer (napp (nd s)) = Some (NewProducer ''barrage-broadcast'') \<and>
    (\<forall>mt. AsyncWrite 7 (BuildBinaryFrame [1, 2, 3]) \<in>
      set (fst (BroadcastLocal (nctx (nd s)) (\<lambda>_. 0) (Some \<lparr>Rooms = Some (RoomManager (napp (nd s)))\<rparr>) (Some relayed) mt)))"
proof -
  have "Unmarshal_Frame relay_codec [1] = Some \<lparr>f_Op = OpType_OP_JOIN_ROOM, f_RoomId = 0, f_UserId = 0, f_Payload = [1], f_Timestamp = 0\<rparr>"
    "Unmarshal_JoinRoomReq relay_codec [1] = Some (join_req 42 5)" by (simp_all add: relay_codec_def joining_first)
  from first_join [OF two_loops_peer this]
  obtain es s s1 ctx1 where v: "node_run relay_codec (visit 7 [[1], [2]]) (start_sys sample_peer) = Some (es, s)"
    "node_do relay_codec (Work sample_env 0) s = Some (ActNone, [], s1)" "opened s1 = {7}" "issued s1 = 1"
    "nctx (nd s1) 7 = Some ctx1" "RoomID ctx1 = 5" "ConnID ctx1 = ''1''" "AppProducer (napp (nd s1)) = AppProducer sample_peer" by blast
  have run: "node_run relay_codec (visit 7 [[1], [2]] @ [Work sample_env 0]) (start_sys sample_peer) = Some (es, s1)"
    using v(1,2) by (simp add: node_run_append del: node_do.simps)
  have "sane (start_sys sample_peer)" using built_peer sane_start by (auto simp: built_def)
  with v(1) have quiet: "kafka_writes es = []" by (rule quiet_run) (auto simp: visit_def sent_by_def)
  note start = start_inv [OF two_loops_new_app [OF two_loops_peer]]
  have "node_inv (EventLoopOf sample_env) 100000 s1"
    using node_inv_run(1) [OF run] start v(4) by (simp add: agrees_def)
  then have p: "place_inv (EventLoopOf sample_env) s1" by (simp add: node_inv_def)
  then have m: "members (RoomManager (napp (nd s1))) (RoomID ctx1) (LoopIdx ctx1, ConnID ctx1) = Some 7"
    using v(3,5,6) by (simp add: place_inv_def all_listed_def in_room_def)
  have wf: "wf_manager (RoomManager (napp (nd s1)))" using p by (simp add: place_inv_def)
  have "verdict (nctx (nd s1)) (\<lambda>_. 0) relayed 7 = Deliver" by (simp add: verdict_def v(5,7) relayed_def)
  moreover have "card {key. members (RoomManager (napp (nd s1))) 5 key = Some 7} \<noteq> 0"
  proof -
    have "finite {key. members (RoomManager (napp (nd s1))) 5 key = Some 7}"
      using finite_slots [of "RoomManager (napp (nd s1))" 5 "\<lambda>c. c = 7"] by simp
    with m v(6) show ?thesis by auto
  qed
  ultimately have "BuildBinaryFrame [1, 2, 3] \<in> set (written_to 7
      (fst (BroadcastLocal (nctx (nd s1)) (\<lambda>_. 0) (Some \<lparr>Rooms = Some (RoomManager (napp (nd s1)))\<rparr>) (Some relayed) mt)))" for mt
    by (simp add: BroadcastLocal_written [OF wf] relayed_def)
  with from_written_to have "AsyncWrite 7 (BuildBinaryFrame [1, 2, 3]) \<in>
      set (fst (BroadcastLocal (nctx (nd s1)) (\<lambda>_. 0) (Some \<lparr>Rooms = Some (RoomManager (napp (nd s1)))\<rparr>) (Some relayed) mt))" for mt
    by blast
  with run quiet v(8) show ?thesis by (auto simp: peer_parts)
qed

lemma relay_read:
  "loop_body relay_codec False \<lparr>msg_Value = Some [9], read_err = None\<rparr> ((NewConsumer True)\<lparr>stopCh := OpenChan\<rparr>) mt =
    (Continue, [relayed], (NewConsumer True)\<lparr>stopCh := OpenChan\<rparr>, mt)"
  by (simp add: loop_body_def Let_def NewConsumer_def processMessage_def DecodeBroadcastEnvelope_def relay_codec_def)

lemma relay_run:
  "\<exists>os cl os' cl'. cluster_run relay_codec (\<lambda>_. 0) relay_events empty_cluster = Some (os, cl) \<and>
    cluster_run relay_codec (\<lambda>_. 0) (relay_events @ NodeStarts sample_peer # late_events) empty_cluster = Some (os @ os', cl') \<and>
    (0, Sent (AsyncWrite 7 (BuildBinaryFrame [1, 2, 3]))) \<in> set os \<and>
    partitions cl 0 = [[9]] \<and> length (nodes cl) = 1 \<and> positions cl' 1 0 = 1 \<and>
    handed_all 0 (os @ os') = [relayed] \<and> handed_all 1 (os @ os') = [relayed] \<and> mail cl' 0 = []"
proof -
  let ?c = "(NewConsumer True)\<lparr>stopCh := OpenChan\<rparr>" and ?part = "\<lambda>_ :: bytes. 0 :: nat"
  obtain es s where s: "node_run relay_codec (visit 7 [[1], [2]] @ [Work sample_env 0]) (start_sys sample_peer) = Some (es, s)"
    "kafka_writes es = []" "AppProducer (napp (nd s)) = Some (NewProducer ''barrage-broadcast'')"
    "\<And>mt. AsyncWrite 7 (BuildBinaryFrame [1, 2, 3]) \<in> set (fst (BroadcastLocal (nctx (nd s)) (\<lambda>_. 0)
      (Some \<lparr>Rooms = Some (RoomManager (napp (nd s)))\<rparr>) (Some relayed) mt))"
    using peer_joined by blast
  obtain acts mt where b: "BroadcastLocal (nctx (nd s)) (\<lambda>_. 0) (Some \<lparr>Rooms = Some (RoomManager (napp (nd s)))\<rparr>) (Some relayed)
      (nmet (nd s)) = (acts, mt)" by fastforce
  have sent: "AsyncWrite 7 (BuildBinaryFrame [1, 2, 3]) \<in> set acts" using s(4) [of "nmet (nd s)"] b by simp
  let ?cl0 = "empty_cluster\<lparr>nodes := [start_sys sample_peer], consumers := [Some ?c]\<rparr>"
  let ?cl1 = "?cl0\<lparr>nodes := [s]\<rparr>"
  have 0: "cluster_run relay_codec ?part [NodeStarts sample_peer] empty_cluster = Some ([], ?cl0)"
    by (simp add: peer_parts empty_cluster_def)
  have 1: "cluster_run relay_codec ?part (map (\<lambda>ev. At 0 ev (\<lambda>_. True)) (visit 7 [[1], [2]] @ [Work sample_env 0])) ?cl0 =
      Some (map (\<lambda>e. (0, Did e)) es, ?cl1)"
    using at_run [of relay_codec "visit 7 [[1], [2]] @ [Work sample_env 0]" ?cl0 0 es s ?part "\<lambda>_. True"] s(1,2) by simp
  let ?os2 = "(0, Did (Kafka (WriteMessages (key_of relayed) [9]))) # (0, Handed 0 relayed) # (0, Delivered relayed) #
      map (\<lambda>a. (0, Sent a)) acts"
  obtain cl2 where 2: "cluster_run relay_codec ?part [At 0 (Announce sample_env 5 ''hi'' 1) (\<lambda>_. True), Fetch 0 0 True, RunMail 0 0 (\<lambda>_. 0)] ?cl1 =
      Some (?os2, cl2)" and cl2: "length (nodes cl2) = 1" "partitions cl2 0 = [[9]]" "length (consumers cl2) = 1"
      "positions cl2 1 0 = 0" "mail cl2 0 = []"
    using s(3) by (simp add: announce_do relay_read b empty_cluster_def Let_def del: node_do.simps)
  have relay: "cluster_run relay_codec ?part relay_events empty_cluster = Some (map (\<lambda>e. (0, Did e)) es @ ?os2, cl2)"
  proof -
    have ev: "relay_events = [NodeStarts sample_peer] @ map (\<lambda>ev. At 0 ev (\<lambda>_. True)) (visit 7 [[1], [2]] @ [Work sample_env 0]) @
        [At 0 (Announce sample_env 5 ''hi'' 1) (\<lambda>_. True), Fetch 0 0 True, RunMail 0 0 (\<lambda>_. 0)]" by (simp add: relay_events_def)
    show ?thesis unfolding ev by (simp only: cluster_run_append 0 1 2 option.case prod.case append_Nil)
  qed
  have "\<exists>cl3. cluster_run relay_codec ?part (NodeStarts sample_peer # late_events) cl2 = Some ([(1, Handed 0 relayed)], cl3) \<and>
      positions cl3 1 0 = 1 \<and> mail cl3 0 = []"
    using cl2 by (simp add: late_events_def nth_append peer_parts relay_read)
  then obtain cl3 where late: "cluster_run relay_codec ?part (NodeStarts sample_peer # late_events) cl2 = Some ([(1, Handed 0 relayed)], cl3)"
    "positions cl3 1 0 = 1" "mail cl3 0 = []" by blast
  have cons: "handed_all i ((j, x) # os) = (case x of Handed q e \<Rightarrow> if j = i then [e] else [] | _ \<Rightarrow> []) @ handed_all i os"
    "handed_all i [] = []" for i j x os by (simp_all add: handed_all_def)
  have "handed_all i (map (\<lambda>a. (0, Sent a)) acts) = []" for i by (induction acts) (simp_all add: cons)
  then have "handed_all 0 ((map (\<lambda>e. (0, Did e)) es @ ?os2) @ [(1, Handed 0 relayed)]) = [relayed]"
    "handed_all 1 ((map (\<lambda>e. (0, Did e)) es @ ?os2) @ [(1, Handed 0 relayed)]) = [relayed]"
    by (simp_all add: cons)
  moreover have "cluster_run relay_codec ?part (relay_events @ NodeStarts sample_peer # late_events) empty_cluster =
      Some ((map (\<lambda>e. (0, Did e)) es @ ?os2) @ [(1, Handed 0 relayed)], cl3)"
    by (simp only: cluster_run_append relay late option.case prod.case)
  ultimately show ?thesis
    using relay cl2 late(2,3) sent
    by (intro exI [of _ "map (\<lambda>e. (0, Did e)) es @ ?os2"] exI [of _ cl2] exI [of _ "[(1, Handed 0 relayed)]"] exI [of _ cl3]) simp
qed

theorem broadcasts_are_authentic_witness:
  "\<exists>os cl. cluster_run relay_codec (\<lambda>_. 0) relay_events empty_cluster = Some (os, cl) \<and>
    (0, Sent (AsyncWrite 7 (BuildBinaryFrame [1, 2, 3]))) \<in> set os \<and>
    (\<exists>evs1 k ob evs2 os1 cl1. relay_events = evs1 @ RunMail 0 k ob # evs2 \<and>
      cluster_run relay_codec (\<lambda>_. 0) evs1 empty_cluster = Some (os1, cl1) \<and>
      sent_before relay_codec (\<lambda>_. 0) empty_cluster evs1 (mail cl1 0 ! k))"
proof -
  obtain os cl where run: "cluster_run relay_codec (\<lambda>_. 0) relay_events empty_cluster = Some (os, cl)"
    "(0, Sent (AsyncWrite 7 (BuildBinaryFrame [1, 2, 3]))) \<in> set os" using relay_run by blast
  have new: "list_all by_New relay_events" using relay_by_New by simp
  from broadcasts_are_authentic [OF relay_round_trip run(1) new run(2)] run show ?thesis by blast
qed



end
