(* ===== verification/Cluster_Delivery.thy ===== *)
theory Cluster_Delivery
  imports Cluster
begin

text \<open>
  From a client on one node to the clients on another: the invariants of a node hold on every node of a
  cluster, a consumer can always read on to the end of a partition, and so the chat of a sender can
  reach everybody in the room, on every node, through exactly the steps of the code.
\<close>

section \<open>Every node of a cluster\<close>

fun starts :: "cluster_event list \<Rightarrow> app list" where
  "starts [] = []"
| "starts (NodeStarts a # evs) = a # starts evs"
| "starts (At i ev stored # evs) = starts evs"
| "starts (Fetch i p accepts # evs) = starts evs"
| "starts (FetchFails i err # evs) = starts evs"
| "starts (RunMail i k ob # evs) = starts evs"

text \<open>
  The \<open>i\<close>-th node to start was made by \<open>New\<close> for its event loops \<open>E i\<close> and its limit of connections, and its tasks
  find its connections on these loops.
\<close>

definition hosted :: "(nat \<Rightarrow> conn \<Rightarrow> event_loop option) \<Rightarrow> (nat \<Rightarrow> nat) \<Rightarrow> cluster_event list \<Rightarrow> bool" where
  "hosted E limit evs \<longleftrightarrow> (\<forall>i < length (starts evs). new_app (E i) (limit i) (starts evs ! i)) \<and>
     (\<forall>i ev stored. At i ev stored \<in> set evs \<longrightarrow> agrees (E i) ev)"

lemma starts_append [simp]: "starts (evs @ evs') = starts evs @ starts evs'"
  by (induction evs rule: starts.induct) simp_all

lemma hosted_append: "hosted E limit (evs @ evs') \<Longrightarrow> hosted E limit evs"
  unfolding hosted_def by (auto simp: nth_append) (metis trans_less_add1)

lemma hosted_by_New: "hosted E limit evs \<Longrightarrow> list_all by_New evs"
proof -
  assume h: "hosted E limit evs"
  have "built a" if "NodeStarts a \<in> set evs" for a
  proof -
    have "a \<in> set (starts evs)" using that by (induction evs rule: starts.induct) auto
    then obtain i where "i < length (starts evs)" "starts evs ! i = a" by (metis in_set_conv_nth)
    with h show ?thesis unfolding hosted_def new_app_def built_def by blast
  qed
  then show ?thesis by (auto simp: list_all_iff by_New_def split: cluster_event.splits)
qed

lemma node_inv_metrics [simp]: "node_inv E limit (s\<lparr>nd := (nd s)\<lparr>nmet := mt\<rparr>\<rparr>) = node_inv E limit s"
  by (simp add: node_inv_def place_inv_def conn_inv_def users_ok_def conns_of_def contexts_ok_def placed_def members_ok_def
      all_listed_def table_ok_def isUserBanned_def)

text \<open>The node an event is at, and what becomes of it; the others stay.\<close>

lemma cluster_do_nodes:
  assumes "cluster_do cdc part ev cl = Some (os, cl')"
  obtains (starts) a where "ev = NodeStarts a" "nodes cl' = nodes cl @ [start_sys a]"
  | (at) i nev stored act es s where "ev = At i nev stored" "i < length (nodes cl)"
      "node_do cdc nev (nodes cl ! i) = Some (act, es, s)" "nodes cl' = (nodes cl)[i := s]"
  | (metrics) i mt where "i < length (nodes cl)" "starts [ev] = []"
      "nodes cl' = (nodes cl)[i := (nodes cl ! i)\<lparr>nd := (nd (nodes cl ! i))\<lparr>nmet := mt\<rparr>\<rparr>]"
proof (cases ev)
  case (NodeStarts a)
  with assms show thesis by (intro local.starts) auto
next
  case (At i nev stored)
  with assms show thesis by (auto split: if_splits option.splits prod.splits intro: local.at)
next
  case (Fetch i p accepts)
  with assms show thesis
    by (auto simp: Let_def not_le split: if_splits option.splits prod.splits intro: local.metrics)
next
  case (FetchFails i err)
  with assms show thesis
    by (auto simp: Let_def not_le split: if_splits option.splits prod.splits intro: local.metrics)
next
  case (RunMail i k ob)
  with assms show thesis
    by (auto simp: Let_def not_le split: if_splits prod.splits intro: local.metrics)
qed

lemma hosted_run:
  assumes "cluster_run cdc part evs empty_cluster = Some (os, cl)" and "hosted E limit evs"
    and "\<forall>s \<in> set (nodes cl). issued s < 2 ^ 31"
  shows "length (nodes cl) = length (starts evs) \<and> (\<forall>i < length (nodes cl). node_inv (E i) (limit i) (nodes cl ! i))"
  using assms
proof (induction rule: cluster_run_rev_induct)
  case none
  then show ?case by (simp add: empty_cluster_def)
next
  case (snoc evs os cl ev os' cl')
  note small = snoc.prems(2) and host = snoc.prems(1)
  from snoc.hyps(2) show ?case
  proof (cases rule: cluster_do_nodes)
    case (starts a)
    with small have "\<forall>s \<in> set (nodes cl). issued s < 2 ^ 31" by simp
    with snoc.IH hosted_append [OF host] have IH: "length (nodes cl) = length (starts evs)"
      "\<forall>i < length (nodes cl). node_inv (E i) (limit i) (nodes cl ! i)" by auto
    have "new_app (E (length (nodes cl))) (limit (length (nodes cl))) a"
      using host unfolding hosted_def by (auto simp: starts(1) IH(1) nth_append dest!: spec [of _ "length (starts evs)"])
    from start_inv(1) [OF this] IH starts show ?thesis by (auto simp: nth_append less_Suc_eq)
  next
    case (at i nev stored act es s)
    have le: "issued (nodes cl ! i) \<le> issued s" using issued_mono [OF node_do_step [OF at(3)]] .
    have s: "issued s < 2 ^ 31" using small at(2,4) by (simp add: set_update_memI)
    have "issued t < 2 ^ 31" if t: "t \<in> set (nodes cl)" for t
    proof -
      obtain j where j: "j < length (nodes cl)" "t = nodes cl ! j" using t by (auto simp: in_set_conv_nth)
      show ?thesis
      proof (cases "j = i")
        case False
        then have "nodes cl' ! j = t" "j < length (nodes cl')" using j at(4) by simp_all
        with small show ?thesis by (metis nth_mem)
      qed (use le s j in simp)
    qed
    with snoc.IH hosted_append [OF host] have IH: "length (nodes cl) = length (starts evs)"
      "\<forall>i < length (nodes cl). node_inv (E i) (limit i) (nodes cl ! i)" by auto
    have "new_app (E i) (limit i) (starts evs ! i)" "agrees (E i) nev"
      using host at(2) IH(1) unfolding hosted_def at(1) by (auto simp: nth_append)
    with node_inv_do(1) [OF at(3)] start_inv(3) IH(2) at(2) s have "node_inv (E i) (limit i) s" by blast
    with IH at show ?thesis by (auto simp: nth_list_update)
  next
    case (metrics i mt)
    have "issued t < 2 ^ 31" if t: "t \<in> set (nodes cl)" for t
    proof -
      obtain j where j: "j < length (nodes cl)" "t = nodes cl ! j" using t by (auto simp: in_set_conv_nth)
      then have "issued (nodes cl' ! j) = issued t" "j < length (nodes cl')"
        using metrics(1,3) by (auto simp: nth_list_update)
      with small show ?thesis by (metis nth_mem)
    qed
    with snoc.IH hosted_append [OF host] have "length (nodes cl) = length (starts evs)"
      "\<forall>i < length (nodes cl). node_inv (E i) (limit i) (nodes cl ! i)" by auto
    with metrics show ?thesis by (auto simp: nth_list_update)
  qed
qed


section \<open>Steps that can be taken\<close>

text \<open>An accepted chat on a node with Kafka writes its record, and its task changes nothing else of interest.\<close>

lemma chat_work:
  assumes acc: "chat_accepted cdc env k s e" and p: "AppProducer (napp (nd s)) = Some p" and v: "Marshal_Envelope cdc e = (v, None)"
  shows "\<exists>es s'. node_do cdc (Work env k) s = Some (ActNone, es, s') \<and> kafka_writes es = [(key_of e, v)] \<and>
    nctx (nd s') = nctx (nd s) \<and> opened s' = opened s \<and> issued s' = issued s"
proof -
  from acc obtain ctx frame msg out where k: "k < length (pend s)"
    and ctx: "nctx (nd s) (task_Conn (pend s ! k)) = Some ctx"
    and len: "task_Data (pend s ! k) \<noteq> []" "length (task_Data (pend s ! k)) \<le> 64 * 1024"
    and frame: "Unmarshal_Frame cdc (task_Data (pend s ! k)) = Some frame" "f_Op frame = OpType_OP_CHAT"
    and msg: "Unmarshal_ChatMsg cdc (f_Payload frame) = Some msg" "chat_admitted env (napp (nd s)) ctx"
    and clean: "\<forall>w \<in> set (reloadable_vocabulary (TextFilter (napp (nd s)))). w = '''' \<or> \<not> sublist w (chat_Content msg)"
    and out: "Marshal_Frame cdc (chat_frame env ctx (f_Payload frame)) = (out, None)" and e: "e = chat_envelope env ctx out"
    by (auto simp: chat_accepted_def)
  have parts: "e_RoomId e = RoomID ctx" "e_MsgType e = MsgTypeDanmaku" by (simp_all add: e chat_envelope_def MsgTypeDanmaku_def)
  have hit: "\<not> Hit (reloadable_Check (TextFilter (napp (nd s))) (chat_Content msg))"
    using clean by (auto simp: reloadable_filter.hit_iff)
  have pub: "snd (Publish cdc (KafkaAnswer env) (now_nano env) (Some p) (Some e)) = [WriteMessages (key_of e) v]"
    using v parts by (simp add: Publish_def EncodeBroadcastEnvelope_def key_of_def)
  obtain es n where h: "HandleInbound env cdc (Some (pend s ! k)) (nd s) = (es, n)" by fastforce
  have "(es, n) = handleChat env cdc (task_Conn (pend s ! k)) ctx frame (nd s)"
    using h ctx len frame by (simp add: HandleInbound_def OpType_defs)
  then have "es = [Kafka (WriteMessages (key_of e) v)] \<and> nctx n = nctx (nd s)"
    using handleChat_admitted [OF msg(2,1), of "task_Conn (pend s ! k)"] hit out p pub e
    by (auto simp: Let_def charge_limiter_def split: prod.splits option.splits)
  with h k show ?thesis by simp
qed

text \<open>A consumer can read on, up to the end of a partition; what it reads is handed to the pool, and the nodes stay as they are.\<close>

definition sent_to :: "nat \<Rightarrow> conn \<Rightarrow> (nat \<times> cluster_output) list \<Rightarrow> bytes list" where
  "sent_to i c os = concat (map (\<lambda>(j, x). case x of Sent a \<Rightarrow> if j = i then written_to c [a] else [] | _ \<Rightarrow> []) os)"

lemma sent_to_append [simp]: "sent_to i c (os @ os') = sent_to i c os @ sent_to i c os'"
  by (simp add: sent_to_def)

lemma sent_to_parts [simp]:
  "sent_to i c [] = []" "sent_to i c ((j, Delivered e) # os) = sent_to i c os"
  by (simp_all add: sent_to_def)

lemma sent_to_did [simp]: "sent_to i c (map (\<lambda>e. (j, Did e)) es) = []"
  by (induction es) (simp_all add: sent_to_def)

lemma sent_to_handed [simp]: "sent_to i c (map (\<lambda>e. (j, Handed p e)) vs) = []"
  by (induction vs) (simp_all add: sent_to_def)

lemma sent_to_acts [simp]: "sent_to i c (map (\<lambda>a. (i, Sent a)) acts) = written_to c acts"
proof (induction acts)
  case (Cons a acts)
  then show ?case by (cases a) (simp_all add: sent_to_def)
qed (simp add: sent_to_def)

lemma fetch_all:
  assumes "i < length (nodes cl)" and "length (consumers cl) = length (nodes cl)" and "consumers cl ! i = Some c" "reading (Some c)"
    and "positions cl i p + n \<le> length (partitions cl p)"
  shows "\<exists>os cl' mt. cluster_run cdc part (replicate n (Fetch i p True)) cl = Some (os, cl') \<and>
    mail cl' i = mail cl i @ envelopes_of cdc (take n (drop (positions cl i p) (partitions cl p))) \<and>
    nodes cl' = (nodes cl)[i := (nodes cl ! i)\<lparr>nd := (nd (nodes cl ! i))\<lparr>nmet := mt\<rparr>\<rparr>] \<and> (\<forall>j d. sent_to j d os = [])"
  using assms
proof (induction n arbitrary: cl c)
  case 0
  show ?case
    by (intro exI [of _ "[]"] exI [of _ cl] exI [of _ "nmet (nd (nodes cl ! i))"]) (simp add: envelopes_of_def List.map_filter_def)
next
  case (Suc n)
  let ?s = "nodes cl ! i" and ?v = "partitions cl p ! positions cl i p"
  have pos: "positions cl i p < length (partitions cl p)" using Suc.prems(5) by simp
  obtain it es c' mt where lb: "loop_body cdc False \<lparr>msg_Value = Some ?v, read_err = None\<rparr> c (nmet (nd ?s)) = (it, es, c', mt)"
    using prod_cases4 by blast
  note rb = reading_body [OF Suc.prems(4) lb]
  have es: "es = envelopes_of cdc [?v]" using rb(2) by simp
  let ?cl = "cl\<lparr>nodes := (nodes cl)[i := ?s\<lparr>nd := (nd ?s)\<lparr>nmet := mt\<rparr>\<rparr>], consumers := (consumers cl)[i := Some c'],
                positions := (positions cl)(i := (positions cl i)(p := Suc (positions cl i p))),
                mail := (mail cl)(i := mail cl i @ es)\<rparr>"
  have step: "cluster_do cdc part (Fetch i p True) cl = Some (map (\<lambda>e. (i, Handed p e)) es, ?cl)"
    using Suc.prems(1,3) pos lb by (simp add: Let_def)
  have "i < length (nodes ?cl)" "length (consumers ?cl) = length (nodes ?cl)" "consumers ?cl ! i = Some c'" "reading (Some c')"
    "positions ?cl i p + n \<le> length (partitions ?cl p)"
    using Suc.prems rb(1) by simp_all
  from Suc.IH [OF this] obtain os cl' mt' where run: "cluster_run cdc part (replicate n (Fetch i p True)) ?cl = Some (os, cl')"
    "mail cl' i = mail ?cl i @ envelopes_of cdc (take n (drop (positions ?cl i p) (partitions ?cl p)))"
    "nodes cl' = (nodes ?cl)[i := (nodes ?cl ! i)\<lparr>nd := (nd (nodes ?cl ! i))\<lparr>nmet := mt'\<rparr>\<rparr>]" "\<forall>j d. sent_to j d os = []" by blast
  have "take (Suc n) (drop (positions cl i p) (partitions cl p)) = ?v # take n (drop (Suc (positions cl i p)) (partitions cl p))"
    using pos by (metis Cons_nth_drop_Suc take_Suc_Cons)
  moreover have "envelopes_of cdc (?v # xs) = es @ envelopes_of cdc xs" for xs
    unfolding es by (metis append_Cons append_Nil envelopes_append)
  ultimately have "envelopes_of cdc (take (Suc n) (drop (positions cl i p) (partitions cl p))) =
      es @ envelopes_of cdc (take n (drop (Suc (positions cl i p)) (partitions cl p)))" by simp
  with run step Suc.prems(1) show ?case
    by (intro exI [of _ "map (\<lambda>e. (i, Handed p e)) es @ os"] exI [of _ cl'] exI [of _ mt']) (simp del: cluster_do.simps)
qed


section \<open>Properties\<close>

text \<open>An envelope that waits for a worker can be broadcast, to everybody in its room whose verdict is to deliver.\<close>

lemma mail_reaches_members:
  assumes i: "i < length (nodes cl)" and mail: "mail cl i = ms @ [e]" and inv: "node_inv F limit (nodes cl ! i)"
    and room: "positive (e_RoomId e)"
  shows "\<exists>acts cl'. cluster_do cdc part (RunMail i (length ms) ob) cl =
      Some ((i, Delivered e) # map (\<lambda>a. (i, Sent a)) acts, cl') \<and>
    (\<forall>c \<in> opened (nodes cl ! i). \<forall>ctx. nctx (nd (nodes cl ! i)) c = Some ctx \<and> RoomID ctx = e_RoomId e \<and>
        verdict (nctx (nd (nodes cl ! i))) ob e c = Deliver \<longrightarrow> written_to c acts = [BuildBinaryFrame (e_Payload e)])"
proof -
  let ?n = "nd (nodes cl ! i)"
  obtain acts mt where b: "BroadcastLocal (nctx ?n) ob (Some \<lparr>Rooms = Some (RoomManager (napp ?n))\<rparr>) (Some e) (nmet ?n) = (acts, mt)"
    by fastforce
  with i mail obtain cl' where "cluster_do cdc part (RunMail i (length ms) ob) cl =
      Some ((i, Delivered e) # map (\<lambda>a. (i, Sent a)) acts, cl')" by (simp add: Let_def)
  moreover have "written_to c acts = [BuildBinaryFrame (e_Payload e)]"
    if "c \<in> opened (nodes cl ! i)" "nctx ?n c = Some ctx" "RoomID ctx = e_RoomId e" "verdict (nctx ?n) ob e c = Deliver" for c ctx
    using joined_is_written(2) [OF inv, of c ctx e ob "nmet ?n"] that room b by simp
  ultimately show ?thesis by blast
qed

text \<open>
  C11: a chat can reach everybody in its room, on every node. In any state of a cluster whose pools took all work so far, let
  a worker of one node have an accepted chat before it, and let another node (or the same) consume from
  Kafka. Then the task can run, the consumer of the other node can read on to the chat's record, and a worker there can
  broadcast it; and this writes the chat's frame exactly once to each open connection that is in the room there and whose
  verdict is to deliver.
\<close>

theorem chat_can_reach_room:
  assumes rt: "\<And>e v. Marshal_Envelope cdc e = (v, None) \<Longrightarrow> Unmarshal_Envelope cdc v = Some e"
    and run: "cluster_run cdc part evs empty_cluster = Some (os, cl)" and eager: "list_all eager evs"
    and host: "hosted E limit (evs @ [At j (Work env k) (\<lambda>_. True)])" and small: "\<forall>s \<in> set (nodes cl). issued s < 2 ^ 31"
    and j: "j < length (nodes cl)" "AppProducer (napp (nd (nodes cl ! j))) = Some p"
    and chat: "chat_accepted cdc env k (nodes cl ! j) e" "Marshal_Envelope cdc e = (v, None)"
    and i: "i < length (nodes cl)" "consumers cl ! i = Some cons"
  shows "\<exists>evs' os' cl'. cluster_run cdc part (At j (Work env k) (\<lambda>_. True) # evs') cl = Some (os', cl') \<and>
    (\<forall>ev \<in> set evs'. (\<exists>q. ev = Fetch i q True) \<or> (\<exists>n. ev = RunMail i n ob)) \<and>
    (\<forall>c \<in> opened (nodes cl ! i). \<forall>ctx. nctx (nd (nodes cl ! i)) c = Some ctx \<and> RoomID ctx = e_RoomId e \<and>
        verdict (nctx (nd (nodes cl ! i))) ob e c = Deliver \<longrightarrow>
      sent_to i c os' = [BuildBinaryFrame (e_Payload e)])"
proof -
  let ?work = "At j (Work env k) (\<lambda>_. True)" and ?q = "part (key_of e)"
  obtain es s' where w: "node_do cdc (Work env k) (nodes cl ! j) = Some (ActNone, es, s')" "kafka_writes es = [(key_of e, v)]"
    "nctx (nd s') = nctx (nd (nodes cl ! j))" "opened s' = opened (nodes cl ! j)" "issued s' = issued (nodes cl ! j)"
    using chat_work [OF chat(1) j(2) chat(2)] by blast
  let ?cl1 = "cl\<lparr>nodes := (nodes cl)[j := s'], partitions := (partitions cl)(?q := partitions cl ?q @ [v])\<rparr>"
  have 1: "cluster_do cdc part ?work cl = Some (map (\<lambda>e. (j, Did e)) es, ?cl1)" using w(1,2) j(1) by simp
  have here: "nctx (nd (nodes ?cl1 ! i)) = nctx (nd (nodes cl ! i))" "opened (nodes ?cl1 ! i) = opened (nodes cl ! i)"
    using w(3,4) j(1) by (cases "i = j"; simp)+
  have "issued t < 2 ^ 31" if "t \<in> set (nodes ?cl1)" for t
    using that small w(5) j(1) set_update_subset_insert [of "nodes cl" j s'] by auto
  then have inv: "node_inv (E i) (limit i) (nodes ?cl1 ! i)"
    using hosted_run [of cdc part "evs @ [?work]" _ ?cl1, OF _ host] run 1 i(1) by (simp add: cluster_run_append)
  have "order_ok cdc os cl" using order_run [OF run eager] hosted_by_New [OF hosted_append [OF host]] by simp
  then have ord: "length (consumers ?cl1) = length (nodes ?cl1)" "reading (Some cons)" "positions cl i ?q \<le> length (partitions cl ?q)"
    using i by (auto simp: order_ok_def) (metis nth_mem)
  let ?n = "length (partitions ?cl1 ?q) - positions cl i ?q"
  have bounds: "i < length (nodes ?cl1)" "consumers ?cl1 ! i = Some cons" "positions ?cl1 i ?q + ?n \<le> length (partitions ?cl1 ?q)"
    using i ord(3) by simp_all
  from fetch_all [OF bounds(1) ord(1) bounds(2) ord(2) bounds(3), where cdc = cdc and part = part] obtain os2 cl2 mt where
    2: "cluster_run cdc part (replicate ?n (Fetch i ?q True)) ?cl1 = Some (os2, cl2)"
      "mail cl2 i = mail ?cl1 i @ envelopes_of cdc (take ?n (drop (positions ?cl1 i ?q) (partitions ?cl1 ?q)))"
      "nodes cl2 = (nodes ?cl1)[i := (nodes ?cl1 ! i)\<lparr>nd := (nd (nodes ?cl1 ! i))\<lparr>nmet := mt\<rparr>\<rparr>]"
      "\<forall>j d. sent_to j d os2 = []" by blast
  have "envelopes_of cdc [v] = [e]"
    using rt [OF chat(2)] by (simp add: envelopes_of_def List.map_filter_simps DecodeBroadcastEnvelope_def)
  with 2(2) ord(3) have "mail cl2 i = (mail cl i @ envelopes_of cdc (drop (positions cl i ?q) (partitions cl ?q))) @ [e]" by simp
  then obtain ms where mail: "mail cl2 i = ms @ [e]" by blast
  let ?s2 = "nodes cl2 ! i"
  have s2: "?s2 = (nodes ?cl1 ! i)\<lparr>nd := (nd (nodes ?cl1 ! i))\<lparr>nmet := mt\<rparr>\<rparr>" using 2(3) bounds(1) by simp
  have room: "positive (e_RoomId e)" using chat(1) by (auto simp: chat_accepted_def chat_admitted_def in_room_def chat_envelope_def)
  have s2: "node_inv (E i) (limit i) ?s2" "nctx (nd ?s2) = nctx (nd (nodes cl ! i))" "opened ?s2 = opened (nodes cl ! i)"
    using inv here by (simp_all add: s2)
  let ?mail = "RunMail i (length ms) ob"
  have "i < length (nodes cl2)" using 2(3) bounds(1) by simp
  from mail_reaches_members [OF this mail s2(1) room, of cdc part ob, unfolded s2(2,3)] obtain acts cl3 where
    3: "cluster_do cdc part ?mail cl2 = Some ((i, Delivered e) # map (\<lambda>a. (i, Sent a)) acts, cl3)"
    and "\<forall>c \<in> opened (nodes cl ! i). \<forall>ctx. nctx (nd (nodes cl ! i)) c = Some ctx \<and> RoomID ctx = e_RoomId e \<and>
        verdict (nctx (nd (nodes cl ! i))) ob e c = Deliver \<longrightarrow> written_to c acts = [BuildBinaryFrame (e_Payload e)]"
    by blast
  moreover have "cluster_run cdc part (?work # replicate ?n (Fetch i ?q True) @ [?mail]) cl =
      Some (map (\<lambda>e. (j, Did e)) es @ os2 @ (i, Delivered e) # map (\<lambda>a. (i, Sent a)) acts, cl3)"
    using 1 2(1) 3 by (simp add: cluster_run_append del: cluster_do.simps)
  ultimately show ?thesis
    using 2(4)
    by (intro exI [of _ "replicate ?n (Fetch i ?q True) @ [?mail]"]
        exI [of _ "map (\<lambda>e. (j, Did e)) es @ os2 @ (i, Delivered e) # map (\<lambda>a. (i, Sent a)) acts"] exI [of _ cl3]) auto
qed


subsection \<open>A concrete cluster\<close>

text \<open>
  A client library with one join, of user 42 to room 5, and one chat; its only envelope is that chat as a node sends it
  for its first connection.
\<close>

definition crossing :: BroadcastEnvelope where
  "crossing = \<lparr>e_MsgType = 0, e_IdempotencyKey = '''', e_RoomId = 5, e_UserId = 42, e_SenderConnId = ''1'',
     e_IsPremium = False, e_Payload = [1, 2, 3], e_Timestamp = 1000000, e_VideoTs = 0\<rparr>"

definition crossing_codec :: codec where
  "crossing_codec = joining_codec\<lparr>
     Unmarshal_Frame := (\<lambda>b. Some \<lparr>f_Op = (if b = [1] then OpType_OP_JOIN_ROOM else OpType_OP_CHAT), f_RoomId = 0, f_UserId = 0,
       f_Payload = b, f_Timestamp = 0\<rparr>),
     Unmarshal_ChatMsg := (\<lambda>_. Some \<lparr>chat_Content = ''hi''\<rparr>), Marshal_Frame := (\<lambda>_. ([1, 2, 3], None)),
     Marshal_Envelope := (\<lambda>e. if e = crossing then ([9], None) else ([], Some ''unknown'')),
     Unmarshal_Envelope := (\<lambda>b. if b = [9] then Some crossing else None)\<rparr>"

lemma crossing_round_trip: "Marshal_Envelope crossing_codec e = (v, None) \<Longrightarrow> Unmarshal_Envelope crossing_codec v = Some e"
  by (auto simp: crossing_codec_def split: if_splits)

lemma crossing_join: "Unmarshal_Frame crossing_codec [1] =
    Some \<lparr>f_Op = OpType_OP_JOIN_ROOM, f_RoomId = 0, f_UserId = 0, f_Payload = [1], f_Timestamp = 0\<rparr>"
  "Unmarshal_JoinRoomReq crossing_codec [1] = Some (join_req 42 5)"
  by (simp_all add: crossing_codec_def joining_codec_def)

lemma peer_filter:
  "AppLimiter sample_peer = Some (NewRateLimiter 10 20)"
  "TextFilter sample_peer = Some (NewReloadableFilter ''configs/sensitive_words.txt'' defaultSensitiveWords)"
  by (simp_all add: sample_peer_def New_def NewManager_def Let_def Load_def LoadNow_def loadLocked_def NewReloadableFilter_def)

text \<open>On the first node connection 7 joins and has a chat waiting.\<close>

lemma first_node:
  "\<exists>es s. node_run crossing_codec (visit 7 [[1], [2]] @ [Work sample_env 0]) (start_sys sample_peer) = Some (es, s) \<and>
    kafka_writes es = [] \<and> issued s = 1 \<and> AppProducer (napp (nd s)) = Some (NewProducer ''barrage-broadcast'') \<and>
    chat_accepted crossing_codec sample_env 0 s crossing"
proof -
  from first_join [OF two_loops_peer crossing_join]
  obtain es s s1 ctx1 where v: "node_run crossing_codec (visit 7 [[1], [2]]) (start_sys sample_peer) = Some (es, s)"
    "node_do crossing_codec (Work sample_env 0) s = Some (ActNone, [], s1)" "issued s1 = 1" "pend s1 = [\<lparr>task_Conn = 7, task_Data = [2]\<rparr>]"
    "nctx (nd s1) 7 = Some ctx1" "RoomID ctx1 = 5" "UserID ctx1 = 42" "ConnID ctx1 = ''1''" "\<not> IsPremium ctx1"
    "AppProducer (napp (nd s1)) = AppProducer sample_peer" "AppLimiter (napp (nd s1)) = AppLimiter sample_peer"
    "TextFilter (napp (nd s1)) = TextFilter sample_peer" "Cfg (napp (nd s1)) = Cfg sample_peer" by blast
  have run: "node_run crossing_codec (visit 7 [[1], [2]] @ [Work sample_env 0]) (start_sys sample_peer) = Some (es, s1)"
    using v(1,2) by (simp add: node_run_append del: node_do.simps)
  have "sane (start_sys sample_peer)" using built_peer sane_start by (auto simp: built_def)
  with v(1) have quiet: "kafka_writes es = []" by (rule quiet_run) (auto simp: visit_def sent_by_def)
  have adm: "chat_admitted sample_env (napp (nd s1)) ctx1"
    unfolding chat_admitted_def v(11) peer_filter by (simp add: v(6,7) Allow_def NewRateLimiter_def)
  have "\<not> isUserBanned (napp (nd s1)) 42"
    using two_loops_facts(1) [OF two_loops_peer] by (simp add: isUserBanned_def v(13) Load_def)
  moreover have "\<forall>w \<in> set (reloadable_vocabulary (TextFilter (napp (nd s1)))). w = '''' \<or> \<not> sublist w ''hi''"
  proof
    fix w assume "w \<in> set (reloadable_vocabulary (TextFilter (napp (nd s1))))"
    then have "w \<in> set defaultSensitiveWords"
      unfolding v(12) peer_filter by (simp add: reloadable_vocabulary_def simple_vocabulary_def NewReloadableFilter_def NewSimpleFilter_def)
    then have "2 < length w" by (auto simp: defaultSensitiveWords_def utf8_def)
    then show "w = '''' \<or> \<not> sublist w ''hi''" using sublist_length_le [of w "''hi''"] by auto
  qed
  moreover have "chat_envelope sample_env ctx1 [1, 2, 3] = crossing"
    by (simp add: chat_envelope_def crossing_def v(6-9) sample_env_def)
  ultimately have "chat_accepted crossing_codec sample_env 0 s1 crossing"
    using adm by (simp add: chat_accepted_def v(4,5,7) crossing_codec_def OpType_defs)
  with run quiet v(3,10) peer_parts show ?thesis by auto
qed

text \<open>On the second node another connection comes first; then connection 7 joins.\<close>

lemma second_node:
  "\<exists>es s ctx. node_run crossing_codec (visit 8 [] @ visit 7 [[1]] @ [Work sample_env 0]) (start_sys sample_peer) = Some (es, s) \<and>
    kafka_writes es = [] \<and> issued s = 2 \<and> 7 \<in> opened s \<and> nctx (nd s) 7 = Some ctx \<and> RoomID ctx = 5 \<and> ConnID ctx = ''2''"
proof -
  note facts = two_loops_facts [OF two_loops_peer]
  have mx: "sint (MaxConns (Cfg sample_peer)) = 100000" by (simp add: facts Load_def)
  have w: "length (wire []) \<le> 130 * 1024" "length (wire [[1]]) \<le> 130 * 1024"
    by (simp_all add: wire_def client_frame_def message_frame_def)
  obtain es1 s1 where v1: "node_run crossing_codec (visit 8 []) (start_sys sample_peer) = Some (es1, s1)" "opened s1 = {8}"
    "seen s1 = {8}" "issued s1 = 1" "pend s1 = []"
    "napp (nd s1) = sample_peer\<lparr>CurrConnCount := 1, AllConns := AList.update (FormatUint (connSeq (new_node sample_peer) + 1)) 8 []\<rparr>"
    using visit_possible [of 8 "start_sys sample_peer" "[]" crossing_codec] mx w(1)
    by (auto simp: start_sys_def new_node_def facts)
  have "node_inv (EventLoopOf sample_env) 100000 s1"
    using node_inv_run(1) [OF v1(1)] start_inv [OF two_loops_new_app [OF two_loops_peer]] v1(4) by simp
  then have seq: "connSeq (nd s1) = 1" using v1(4) by (simp add: node_inv_def conn_inv_def)
  obtain es2 s2 where v2: "node_run crossing_codec (visit 7 [[1]]) s1 = Some (es2, s2)" "opened s2 = {7, 8}" "issued s2 = 2"
    "pend s2 = [\<lparr>task_Conn = 7, task_Data = [1]\<rparr>]" "map_option place (nctx (nd s2) 7) = Some (FormatUint 2, 0, 0, 0)"
    "Cfg (napp (nd s2)) = Cfg sample_peer" "userConnCount (napp (nd s2)) = Map.empty"
    using visit_possible [of 7 s1 "[[1]]" crossing_codec] mx w(2) v1(2-6)
    by (auto simp: seq facts MaxWebSocketPayloadSize_def)
  from v2(5) obtain ctx where ctx: "nctx (nd s2) 7 = Some ctx" "ConnID ctx = FormatUint 2" by (auto simp: place_def)
  have ref: "join_refusal (napp (nd s2)) (join_req 42 5) = None"
    by (rule two_loops_refusal [OF two_loops_peer]) (simp_all add: v2(6,7) user_count_def)
  let ?s3 = "s2\<lparr>nd := join_node sample_env 7 ctx (join_req 42 5) (nd s2), pend := []\<rparr>"
  have d: "node_do crossing_codec (Work sample_env 0) s2 = Some (ActNone, [], ?s3)"
    using join_do [of 0 s2 7 "[1]" ctx crossing_codec _ "join_req 42 5" sample_env] v2(4) ctx(1) ref crossing_join by simp
  have two: "FormatUint 2 = ''2''" by code_simp
  obtain ctx3 where ctx3: "nctx (nd ?s3) 7 = Some ctx3" "RoomID ctx3 = 5" "ConnID ctx3 = ''2''"
    using join_node_ctx(1) [of sample_env 7 ctx "join_req 42 5" "nd s2"] ctx(2) two by (auto simp: join_req_def)
  have run: "node_run crossing_codec (visit 8 [] @ visit 7 [[1]] @ [Work sample_env 0]) (start_sys sample_peer) = Some (es1 @ es2, ?s3)"
    using v1(1) v2(1) d by (simp add: node_run_append del: node_do.simps)
  have "node_run crossing_codec (visit 8 [] @ visit 7 [[1]]) (start_sys sample_peer) = Some (es1 @ es2, s2)"
    using v1(1) v2(1) by (simp add: node_run_append)
  moreover have "sane (start_sys sample_peer)" using built_peer sane_start by (auto simp: built_def)
  ultimately have "kafka_writes (es1 @ es2) = []" by (rule quiet_run) (auto simp: visit_def sent_by_def)
  with run ctx3 v2(2,3) show ?thesis by (intro exI [of _ "es1 @ es2"] exI [of _ ?s3] exI [of _ ctx3]) simp
qed


definition crossing_events :: "cluster_event list" where
  "crossing_events = [NodeStarts sample_peer, NodeStarts sample_peer] @
     map (\<lambda>ev. At 0 ev (\<lambda>_. True)) (visit 7 [[1], [2]] @ [Work sample_env 0]) @
     map (\<lambda>ev. At 1 ev (\<lambda>_. True)) (visit 8 [] @ visit 7 [[1]] @ [Work sample_env 0])"

lemma crossing_hosted:
  "hosted (\<lambda>_. EventLoopOf sample_env) (\<lambda>_. 100000) (crossing_events @ [At 0 (Work sample_env 0) (\<lambda>_. True)])"
proof -
  have "starts (map (\<lambda>ev. At i ev stored) evs) = []" for i stored evs by (induction evs) simp_all
  moreover have "agrees (EventLoopOf sample_env) ev"
    if "At i ev stored \<in> set (crossing_events @ [At 0 (Work sample_env 0) (\<lambda>_. True)])" for i ev stored
    using that agrees_visit unfolding crossing_events_def by (auto simp: list_all_iff agrees_def)
  moreover have "new_app (EventLoopOf sample_env) 100000 sample_peer" by (rule two_loops_new_app [OF two_loops_peer])
  ultimately show ?thesis by (simp add: hosted_def crossing_events_def nth_Cons' del: map_append)
qed

lemma crossing_run:
  "\<exists>os cl ctx. cluster_run crossing_codec (\<lambda>_. 0) crossing_events empty_cluster = Some (os, cl) \<and> length (nodes cl) = 2 \<and>
    (\<forall>s \<in> set (nodes cl). issued s < 2 ^ 31) \<and> AppProducer (napp (nd (nodes cl ! 0))) = Some (NewProducer ''barrage-broadcast'') \<and>
    chat_accepted crossing_codec sample_env 0 (nodes cl ! 0) crossing \<and>
    consumers cl ! 1 = Some ((NewConsumer True)\<lparr>stopCh := OpenChan\<rparr>) \<and>
    7 \<in> opened (nodes cl ! 1) \<and> nctx (nd (nodes cl ! 1)) 7 = Some ctx \<and> RoomID ctx = 5 \<and> ConnID ctx = ''2''"
proof -
  let ?c = "(NewConsumer True)\<lparr>stopCh := OpenChan\<rparr>" and ?part = "\<lambda>_ :: bytes. 0 :: nat" and ?s = "start_sys sample_peer"
  let ?cl0 = "empty_cluster\<lparr>nodes := [?s, ?s], consumers := [Some ?c, Some ?c]\<rparr>"
  obtain es0 s0 where n0: "node_run crossing_codec (visit 7 [[1], [2]] @ [Work sample_env 0]) ?s = Some (es0, s0)" "kafka_writes es0 = []"
    "issued s0 = 1" "AppProducer (napp (nd s0)) = Some (NewProducer ''barrage-broadcast'')"
    "chat_accepted crossing_codec sample_env 0 s0 crossing" using first_node by blast
  obtain es1 s1 ctx where n1: "node_run crossing_codec (visit 8 [] @ visit 7 [[1]] @ [Work sample_env 0]) ?s = Some (es1, s1)"
    "kafka_writes es1 = []" "issued s1 = 2" "7 \<in> opened s1" "nctx (nd s1) 7 = Some ctx" "RoomID ctx = 5" "ConnID ctx = ''2''"
    using second_node by blast
  have 0: "cluster_run crossing_codec ?part [NodeStarts sample_peer, NodeStarts sample_peer] empty_cluster = Some ([], ?cl0)"
    by (simp add: peer_parts empty_cluster_def)
  have 1: "cluster_run crossing_codec ?part (map (\<lambda>ev. At 0 ev (\<lambda>_. True)) (visit 7 [[1], [2]] @ [Work sample_env 0])) ?cl0 =
      Some (map (\<lambda>e. (0, Did e)) es0, ?cl0\<lparr>nodes := [s0, ?s]\<rparr>)"
    using at_run [of crossing_codec "visit 7 [[1], [2]] @ [Work sample_env 0]" ?cl0 0 es0 s0 ?part "\<lambda>_. True"] n0(1,2) by simp
  have 2: "cluster_run crossing_codec ?part (map (\<lambda>ev. At 1 ev (\<lambda>_. True)) (visit 8 [] @ visit 7 [[1]] @ [Work sample_env 0]))
      (?cl0\<lparr>nodes := [s0, ?s]\<rparr>) = Some (map (\<lambda>e. (1, Did e)) es1, ?cl0\<lparr>nodes := [s0, s1]\<rparr>)"
    using at_run [of crossing_codec "visit 8 [] @ visit 7 [[1]] @ [Work sample_env 0]" "?cl0\<lparr>nodes := [s0, ?s]\<rparr>" 1 es1 s1 ?part "\<lambda>_. True"]
      n1(1,2) by simp
  have "cluster_run crossing_codec ?part crossing_events empty_cluster =
      Some (map (\<lambda>e. (0, Did e)) es0 @ map (\<lambda>e. (1, Did e)) es1, ?cl0\<lparr>nodes := [s0, s1]\<rparr>)"
    unfolding crossing_events_def by (simp only: cluster_run_append 0 1 2 option.case prod.case append_Nil)
  with n0(3-5) n1(3-7) show ?thesis
    by (intro exI [of _ "map (\<lambda>e. (0, Did e)) es0 @ map (\<lambda>e. (1, Did e)) es1"] exI [of _ "?cl0\<lparr>nodes := [s0, s1]\<rparr>"] exI [of _ ctx]) simp
qed

theorem chat_can_reach_room_witness:
  "\<exists>evs' os' cl cl'. (\<exists>os. cluster_run crossing_codec (\<lambda>_. 0) crossing_events empty_cluster = Some (os, cl)) \<and>
    cluster_run crossing_codec (\<lambda>_. 0) (At 0 (Work sample_env 0) (\<lambda>_. True) # evs') cl = Some (os', cl') \<and>
    sent_to 1 7 os' = [BuildBinaryFrame [1, 2, 3]]"
proof -
  obtain os cl ctx where run: "cluster_run crossing_codec (\<lambda>_. 0) crossing_events empty_cluster = Some (os, cl)"
    and two: "length (nodes cl) = 2" and small: "\<forall>s \<in> set (nodes cl). issued s < 2 ^ 31"
    and p: "AppProducer (napp (nd (nodes cl ! 0))) = Some (NewProducer ''barrage-broadcast'')"
    and acc: "chat_accepted crossing_codec sample_env 0 (nodes cl ! 0) crossing"
    and con: "consumers cl ! 1 = Some ((NewConsumer True)\<lparr>stopCh := OpenChan\<rparr>)"
    and c: "7 \<in> opened (nodes cl ! 1)" "nctx (nd (nodes cl ! 1)) 7 = Some ctx" "RoomID ctx = 5" "ConnID ctx = ''2''"
    using crossing_run by blast
  from two have n: "0 < length (nodes cl)" "1 < length (nodes cl)" by simp_all
  have eag: "list_all eager crossing_events" by (auto simp: crossing_events_def eager_def list_all_iff)
  have m: "Marshal_Envelope crossing_codec crossing = ([9], None)" by (simp add: crossing_codec_def)
  have v: "verdict (nctx (nd (nodes cl ! 1))) (\<lambda>_. 0) crossing 7 = Deliver"
    by (simp add: verdict_def c(2,4) crossing_def del: One_nat_def)
  have e: "RoomID ctx = e_RoomId crossing" "e_Payload crossing = [1, 2, 3]" by (simp_all add: c(3) crossing_def)
  from chat_can_reach_room [OF crossing_round_trip run eag crossing_hosted small n(1) p acc m n(2) con, of "\<lambda>_. 0"]
  obtain evs' os' cl' where "cluster_run crossing_codec (\<lambda>_. 0) (At 0 (Work sample_env 0) (\<lambda>_. True) # evs') cl = Some (os', cl')"
    "sent_to 1 7 os' = [BuildBinaryFrame [1, 2, 3]]" using c(1,2) e(1) v unfolding e(2) by blast
  with run show ?thesis by blast
qed

end
