(* ===== verification/Gateway_Router.thy ===== *)
theory Gateway_Router
  imports Barrage_Prelude
begin

text \<open>
  \<open>_deprecated/gateway/router.go\<close>: which edge node serves a user, and which edges serve a room.

  The set of edges of a room is a list without repetitions, in the order a \<open>range\<close> visits it.
\<close>

section \<open>The tables\<close>

record EdgeInfo =
  ei_NodeId :: string
  ei_Addr :: string
  ei_ConnCount :: int32

record RoomRouter =
  userToEdge :: "int64 \<rightharpoonup> string"
  roomToEdges :: "int64 \<rightharpoonup> string list"
  edges :: "(string \<times> EdgeInfo) list"

definition NewRoomRouter :: RoomRouter where
  "NewRoomRouter = \<lparr>userToEdge = Map.empty, roomToEdges = Map.empty, edges = []\<rparr>"

definition RegisterEdge :: "string \<Rightarrow> string \<Rightarrow> RoomRouter \<Rightarrow> RoomRouter" where
  "RegisterEdge nodeId addr r =
    r\<lparr>edges := AList.update nodeId \<lparr>ei_NodeId = nodeId, ei_Addr = addr, ei_ConnCount = 0\<rparr> (edges r)\<rparr>"

definition UnregisterEdge :: "string \<Rightarrow> RoomRouter \<Rightarrow> RoomRouter" where
  "UnregisterEdge nodeId r = r\<lparr>edges := AList.delete nodeId (edges r)\<rparr>"

definition BindUserToEdge :: "int64 \<Rightarrow> string \<Rightarrow> RoomRouter \<Rightarrow> RoomRouter" where
  "BindUserToEdge userId nodeId r = r\<lparr>userToEdge := (userToEdge r)(userId \<mapsto> nodeId)\<rparr>"

text \<open>Deleting an edge from a room's set, and the room with its last edge.\<close>

definition delete_edge :: "string \<Rightarrow> string list option \<Rightarrow> string list option" where
  "delete_edge nodeId es =
    (case es of
       None \<Rightarrow> None
     | Some xs \<Rightarrow> let xs = removeAll nodeId xs in if length xs = 0 then None else Some xs)"

definition UnbindUser :: "int64 \<Rightarrow> RoomRouter \<Rightarrow> RoomRouter" where
  "UnbindUser userId r =
    (case userToEdge r userId of
       None \<Rightarrow> r
     | Some nodeId \<Rightarrow>
       r\<lparr>userToEdge := (userToEdge r)(userId := None),
         roomToEdges := (\<lambda>roomId. delete_edge nodeId (roomToEdges r roomId))\<rparr>)"

definition AddUserToRoom :: "int64 \<Rightarrow> int64 \<Rightarrow> string \<Rightarrow> RoomRouter \<Rightarrow> RoomRouter" where
  "AddUserToRoom userId roomId nodeId r =
    (let es = (case roomToEdges r roomId of None \<Rightarrow> [] | Some es \<Rightarrow> es)
     in r\<lparr>userToEdge := (userToEdge r)(userId \<mapsto> nodeId),
          roomToEdges := (roomToEdges r)(roomId \<mapsto> List.insert nodeId es)\<rparr>)"

definition RemoveUserFromRoom :: "int64 \<Rightarrow> int64 \<Rightarrow> RoomRouter \<Rightarrow> RoomRouter" where
  "RemoveUserFromRoom userId roomId r =
    (let nodeId = (case userToEdge r userId of None \<Rightarrow> '''' | Some n \<Rightarrow> n);
         r = r\<lparr>userToEdge := (userToEdge r)(userId := None)\<rparr>
     in if nodeId \<noteq> '''' \<and> roomToEdges r roomId \<noteq> None
        then r\<lparr>roomToEdges := (roomToEdges r)(roomId := delete_edge nodeId (roomToEdges r roomId))\<rparr>
        else r)"

definition GetUserEdge :: "int64 \<Rightarrow> RoomRouter \<Rightarrow> string option" where
  "GetUserEdge userId r = userToEdge r userId"

definition GetRoomEdges :: "int64 \<Rightarrow> RoomRouter \<Rightarrow> string list" where
  "GetRoomEdges roomId r = (case roomToEdges r roomId of None \<Rightarrow> [] | Some es \<Rightarrow> es)"

definition GetEdge :: "string \<Rightarrow> RoomRouter \<Rightarrow> EdgeInfo option" where
  "GetEdge nodeId r = map_of (edges r) nodeId"

definition IncEdgeConnCount :: "string \<Rightarrow> RoomRouter \<Rightarrow> RoomRouter" where
  "IncEdgeConnCount nodeId r =
    (case map_of (edges r) nodeId of
       None \<Rightarrow> r
     | Some info \<Rightarrow> r\<lparr>edges := AList.update nodeId (info\<lparr>ei_ConnCount := ei_ConnCount info + 1\<rparr>) (edges r)\<rparr>)"

definition DecEdgeConnCount :: "string \<Rightarrow> RoomRouter \<Rightarrow> RoomRouter" where
  "DecEdgeConnCount nodeId r =
    (case map_of (edges r) nodeId of
       None \<Rightarrow> r
     | Some info \<Rightarrow>
       if sint (ei_ConnCount info) > 0
       then r\<lparr>edges := AList.update nodeId (info\<lparr>ei_ConnCount := ei_ConnCount info - 1\<rparr>) (edges r)\<rparr>
       else r)"

definition GetAllEdges :: "RoomRouter \<Rightarrow> EdgeInfo list" where
  "GetAllEdges r = map snd (edges r)"

text \<open>\<open>SelectEdgeForUser\<close>: the outer option is the panic of an index below zero.\<close>

definition SelectEdgeForUser :: "int64 \<Rightarrow> RoomRouter \<Rightarrow> (string \<times> string) option option" where
  "SelectEdgeForUser userId r =
    (let es = GetAllEdges r
     in if length es = 0 then Some None
        else let idx = go_rem (sint userId) (int (length es))
             in if idx < 0 then None
                else let info = es ! nat idx in Some (Some (ei_NodeId info, ei_Addr info)))"

section \<open>Invariant\<close>

text \<open>No room is kept without an edge, and an edge is registered under its own id.\<close>

definition wf_router :: "RoomRouter \<Rightarrow> bool" where
  "wf_router r \<longleftrightarrow>
     (\<forall>roomId es. roomToEdges r roomId = Some es \<longrightarrow> es \<noteq> [] \<and> distinct es) \<and>
     keys_distinct (edges r) \<and> (\<forall>(k, info) \<in> set (edges r). ei_NodeId info = k \<and> 0 \<le> sint (ei_ConnCount info))"

lemma delete_edge_wf:
  "(\<And>es. oe = Some es \<Longrightarrow> es \<noteq> [] \<and> distinct es) \<Longrightarrow> delete_edge n oe = Some es' \<Longrightarrow> es' \<noteq> [] \<and> distinct es'"
  by (auto simp: delete_edge_def Let_def distinct_removeAll split: option.splits if_splits)

lemma GetRoomEdges_delete:
  "set (case delete_edge n oe of None \<Rightarrow> [] | Some es \<Rightarrow> es) = set (case oe of None \<Rightarrow> [] | Some es \<Rightarrow> es) - {n}"
proof (cases oe)
  case (Some xs)
  have "set xs - {n} = {}" if "removeAll n xs = []" using set_removeAll [of n xs] that by simp
  then show ?thesis by (auto simp: Some delete_edge_def Let_def)
qed (simp add: delete_edge_def)

lemma AddUserToRoom_edges:
  "set (GetRoomEdges rid (AddUserToRoom u roomId n r)) =
    (if rid = roomId then insert n (set (GetRoomEdges rid r)) else set (GetRoomEdges rid r))"
  by (auto simp: GetRoomEdges_def AddUserToRoom_def Let_def split: option.splits)

lemma RemoveUserFromRoom_edges:
  assumes "GetUserEdge u r = Some n" and "n \<noteq> ''''"
  shows "set (GetRoomEdges rid (RemoveUserFromRoom u roomId r)) =
    (if rid = roomId then set (GetRoomEdges rid r) - {n} else set (GetRoomEdges rid r))"
  using assms GetRoomEdges_delete [of n "roomToEdges r roomId"]
  by (auto simp: GetRoomEdges_def RemoveUserFromRoom_def GetUserEdge_def Let_def split: option.splits)

lemma wf_NewRoomRouter: "wf_router NewRoomRouter"
  by (simp add: wf_router_def NewRoomRouter_def)

lemma set_alist_delete: "set (AList.delete k xs) \<subseteq> set xs"
  by (auto simp: AList.delete_eq)

lemma wf_RegisterEdge: "wf_router r \<Longrightarrow> wf_router (RegisterEdge n a r)"
  using set_alist_update [of n "\<lparr>ei_NodeId = n, ei_Addr = a, ei_ConnCount = 0\<rparr>" "edges r"]
  by (fastforce simp: wf_router_def RegisterEdge_def distinct_update)

lemma wf_UnregisterEdge: "wf_router r \<Longrightarrow> wf_router (UnregisterEdge n r)"
  using set_alist_delete [of n "edges r"] by (fastforce simp: wf_router_def UnregisterEdge_def distinct_delete)

lemma wf_users:
  "wf_router r \<Longrightarrow> wf_router (BindUserToEdge u n r)"
  "wf_router r \<Longrightarrow> wf_router (UnbindUser u r)"
  "wf_router r \<Longrightarrow> wf_router (AddUserToRoom u roomId n r)"
  "wf_router r \<Longrightarrow> wf_router (RemoveUserFromRoom u roomId r)"
proof -
  assume r: "wf_router r"
  then have es: "roomToEdges r rid = Some es \<Longrightarrow> es \<noteq> [] \<and> distinct es" for rid es by (simp add: wf_router_def)
  then have del: "delete_edge n (roomToEdges r rid) = Some es \<Longrightarrow> es \<noteq> [] \<and> distinct es" for n rid es
    by (rule delete_edge_wf)
  show "wf_router (BindUserToEdge u n r)" using r by (simp add: wf_router_def BindUserToEdge_def)
  show "wf_router (UnbindUser u r)"
    using r del by (auto simp: wf_router_def UnbindUser_def split: option.splits)
  have "List.insert n xs \<noteq> []" for n :: string and xs by (auto simp: List.insert_def)
  then show "wf_router (AddUserToRoom u roomId n r)"
    using r es by (auto simp: wf_router_def AddUserToRoom_def Let_def split: option.splits if_splits)
  show "wf_router (RemoveUserFromRoom u roomId r)"
    using r del by (auto simp: wf_router_def RemoveUserFromRoom_def Let_def split: if_splits)
qed

section \<open>Properties\<close>

text \<open>
  A leaving user takes the edge of the others away. When two users of a room are served by the same
  edge and one of them leaves the room, the edge is no longer among the edges of the room, although the
  other user is still bound to it: messages routed to the room's edges miss this user.
\<close>

theorem leaving_strands_others:
  assumes "u \<noteq> v" and "n \<noteq> ''''"
  shows "let r' = RemoveUserFromRoom u roomId (AddUserToRoom v roomId n (AddUserToRoom u roomId n r))
    in GetUserEdge v r' = Some n \<and> n \<notin> set (GetRoomEdges roomId r')"
proof -
  let ?r = "AddUserToRoom v roomId n (AddUserToRoom u roomId n r)"
  have u: "GetUserEdge u ?r = Some n" using assms(1) by (simp add: GetUserEdge_def AddUserToRoom_def Let_def)
  have "GetUserEdge v (RemoveUserFromRoom u roomId ?r) = Some n"
    using assms(1) by (simp add: GetUserEdge_def RemoveUserFromRoom_def AddUserToRoom_def Let_def)
  then show ?thesis using RemoveUserFromRoom_edges [OF u assms(2), of roomId roomId] by (simp add: Let_def)
qed

theorem leaving_strands_others_witness:
  "let r' = RemoveUserFromRoom 1 5 (AddUserToRoom 2 5 ''e1'' (AddUserToRoom 1 5 ''e1'' NewRoomRouter))
   in GetUserEdge 2 r' = Some ''e1'' \<and> ''e1'' \<notin> set (GetRoomEdges 5 r')"
  using leaving_strands_others [of 1 2 "''e1''" 5 NewRoomRouter] by simp

end
