(* ===== verification/Hot_Levels.thy ===== *)
theory Hot_Levels
  imports Barrage_Prelude
begin

text \<open>
  \<open>internal/common/constant.go\<close> and the hot levels of \<open>internal/common/types.go\<close>: how crowded a room is, and
  which share of its messages is kept.

  A sample rate is a \<open>float32\<close> constant with two decimals; it is kept here as its percentage. The code only
  compares \<open>float32(r)/100.0 > rate\<close> for integers \<open>r\<close> from 0 to 99: the division rounds \<open>r/100\<close> to the nearest
  \<open>float32\<close>, as the constant was rounded, and neighbouring hundredths round to different numbers, so the
  comparison is that of \<open>r\<close> with the percentage.
\<close>

section \<open>Levels\<close>

datatype HotLevel = HotLevelNormal | HotLevelWarm | HotLevelHot | HotLevelSuper

text \<open>The constants are numbered by \<open>iota\<close>, and compared as numbers.\<close>

fun level_int :: "HotLevel \<Rightarrow> int" where
  "level_int HotLevelNormal = 0"
| "level_int HotLevelWarm = 1"
| "level_int HotLevelHot = 2"
| "level_int HotLevelSuper = 3"

lemma level_int_inject [simp]: "level_int a = level_int b \<longleftrightarrow> a = b"
  by (cases a; cases b) simp_all

instantiation HotLevel :: linorder
begin

definition less_eq_HotLevel :: "HotLevel \<Rightarrow> HotLevel \<Rightarrow> bool" where
  "a \<le> b \<longleftrightarrow> level_int a \<le> level_int b"

definition less_HotLevel :: "HotLevel \<Rightarrow> HotLevel \<Rightarrow> bool" where
  "a < b \<longleftrightarrow> level_int a < level_int b"

instance
  by standard (auto simp: less_eq_HotLevel_def less_HotLevel_def)

end

lemmas HotLevel_order = less_eq_HotLevel_def less_HotLevel_def

section \<open>Constants\<close>

definition TopicDanmaku :: string where "TopicDanmaku = ''barrage-danmaku''"
definition SamplerRateHotLevelSuper :: int where "SamplerRateHotLevelSuper = 5"
definition SamplerRateHotLevelHot :: int where "SamplerRateHotLevelHot = 10"
definition SamplerRateHotLevelWarm :: int where "SamplerRateHotLevelWarm = 30"
definition SamplerRateNormal :: int where "SamplerRateNormal = 100"
definition HotThresholdSuper :: int32 where "HotThresholdSuper = 20000"
definition HotThresholdHot :: int32 where "HotThresholdHot = 5000"
definition HotThresholdWarm :: int32 where "HotThresholdWarm = 1000"
definition DefaultVideoDelayMs :: int64 where "DefaultVideoDelayMs = 3000"
definition MaxVideoDelayMs :: int64 where "MaxVideoDelayMs = 10000"
definition VideoSyncIntervalMs :: int64 where "VideoSyncIntervalMs = 50"
definition MaxBufferPerSession :: nat where "MaxBufferPerSession = 200"
definition MaxPendingPerRoom :: int where "MaxPendingPerRoom = 1000"

lemmas rate_defs = SamplerRateHotLevelSuper_def SamplerRateHotLevelHot_def SamplerRateHotLevelWarm_def
  SamplerRateNormal_def

lemmas threshold_defs = HotThresholdSuper_def HotThresholdHot_def HotThresholdWarm_def

section \<open>Configurations\<close>

record HotConfig =
  hc_Level :: HotLevel
  hc_SampleRate :: int
  hc_Threshold :: int32

definition HotConfigs :: "HotConfig list" where
  "HotConfigs =
    [\<lparr>hc_Level = HotLevelSuper, hc_SampleRate = SamplerRateHotLevelSuper, hc_Threshold = HotThresholdSuper\<rparr>,
     \<lparr>hc_Level = HotLevelHot, hc_SampleRate = SamplerRateHotLevelHot, hc_Threshold = HotThresholdHot\<rparr>,
     \<lparr>hc_Level = HotLevelWarm, hc_SampleRate = SamplerRateHotLevelWarm, hc_Threshold = HotThresholdWarm\<rparr>,
     \<lparr>hc_Level = HotLevelNormal, hc_SampleRate = SamplerRateNormal, hc_Threshold = 0\<rparr>]"

definition GetHotConfig :: "int32 \<Rightarrow> HotConfig" where
  "GetHotConfig count =
    (case find (\<lambda>c. sint count \<ge> sint (hc_Threshold c)) HotConfigs of
       Some c \<Rightarrow> c
     | None \<Rightarrow> last HotConfigs)"

definition GetHotConfigByLevel :: "HotLevel \<Rightarrow> HotConfig" where
  "GetHotConfigByLevel level =
    (case find (\<lambda>c. hc_Level c = level) HotConfigs of Some c \<Rightarrow> c | None \<Rightarrow> last HotConfigs)"

definition HotLevelFromCount :: "int32 \<Rightarrow> HotLevel" where
  "HotLevelFromCount count =
    (if sint count \<ge> 20000 then HotLevelSuper
     else if sint count \<ge> 5000 then HotLevelHot
     else if sint count \<ge> 1000 then HotLevelWarm
     else HotLevelNormal)"

text \<open>A draw \<open>r\<close> of \<open>rand.Intn(100)\<close> is dropped when it exceeds the rate.\<close>

definition draw_drops :: "int \<Rightarrow> int \<Rightarrow> bool" where
  "draw_drops r percent \<longleftrightarrow> r > percent"

section \<open>Facts\<close>

lemma GetHotConfig_level: "hc_Level (GetHotConfig count) = HotLevelFromCount count"
  by (simp add: GetHotConfig_def HotConfigs_def HotLevelFromCount_def threshold_defs)

lemma GetHotConfigByLevel_level [simp]: "hc_Level (GetHotConfigByLevel level) = level"
  by (cases level) (simp_all add: GetHotConfigByLevel_def HotConfigs_def)

lemma GetHotConfig_ByLevel: "GetHotConfig count = GetHotConfigByLevel (HotLevelFromCount count)"
  by (simp add: GetHotConfig_def GetHotConfigByLevel_def HotConfigs_def HotLevelFromCount_def threshold_defs)

lemma HotLevelFromCount_mono: "sint m \<le> sint n \<Longrightarrow> HotLevelFromCount m \<le> HotLevelFromCount n"
  by (simp add: HotLevelFromCount_def HotLevel_order)

lemma GetHotConfigByLevel_rate:
  "hc_SampleRate (GetHotConfigByLevel level) =
    (case level of HotLevelSuper \<Rightarrow> 5 | HotLevelHot \<Rightarrow> 10 | HotLevelWarm \<Rightarrow> 30 | HotLevelNormal \<Rightarrow> 100)"
  by (cases level) (simp_all add: GetHotConfigByLevel_def HotConfigs_def rate_defs)

lemma rate_antimono:
  "a \<le> b \<Longrightarrow> hc_SampleRate (GetHotConfigByLevel b) \<le> hc_SampleRate (GetHotConfigByLevel a)"
  by (cases a; cases b) (simp_all add: GetHotConfigByLevel_rate HotLevel_order)

text \<open>Of the hundred draws, one more than the rate passes.\<close>

lemma draws_kept:
  assumes "0 \<le> percent" and "percent < 100"
  shows "card {r. 0 \<le> r \<and> r < 100 \<and> \<not> draw_drops r percent} = nat percent + 1"
proof -
  have "{r. 0 \<le> r \<and> r < 100 \<and> \<not> draw_drops r percent} = {0..percent}"
    using assms by (auto simp: draw_drops_def)
  then show ?thesis using assms by simp
qed

end
