(* ===== verification/Gateway_Hot.thy ===== *)
theory Gateway_Hot
  imports Hot_Levels
begin

text \<open>
  \<open>_deprecated/gateway/hot.go\<close> and \<open>sampler.go\<close>: the detector that measures the message rate of every room,
  and the sampler that drops a share of the messages of crowded rooms.

  A room's record is shared between the map and the caller that just looked it up; the callers change
  it at once, so the model changes the entry of the map. \<open>float64(count) * 1000 / float64(ms)\<close> is exact
  enough to be compared as integers: for fewer than 2^31 messages a second and windows shorter than
  2^40 ms, no quotient below a threshold rounds up to it.
\<close>

section \<open>The hot detector\<close>

record RoomHotInfo =
  hi_RoomId :: int64
  hi_MsgCount :: int64
  hi_WindowStart :: int64
  hi_Level :: HotLevel
  hi_SampleRate :: int
  hi_UpdateAt :: int64

record HotDetector =
  hd_rooms :: "(int64 \<times> RoomHotInfo) list"
  hotThreshold :: int32
  warmThreshold :: int32
  superThreshold :: int32

definition NewHotDetector :: HotDetector where
  "NewHotDetector = \<lparr>hd_rooms = [], hotThreshold = 500, warmThreshold = 100, superThreshold = 2000\<rparr>"

definition cleanup :: "int64 \<Rightarrow> HotDetector \<Rightarrow> HotDetector" where
  "cleanup now h = h\<lparr>hd_rooms := filter (\<lambda>(roomId, info). \<not> sint (now - hi_UpdateAt info) > 10 * 60 * 1000) (hd_rooms h)\<rparr>"

definition getRoomInfo :: "HotDetector \<Rightarrow> int64 \<Rightarrow> RoomHotInfo option" where
  "getRoomInfo h roomId = map_of (hd_rooms h) roomId"

definition new_hot_info :: "int64 \<Rightarrow> int64 \<Rightarrow> RoomHotInfo" where
  "new_hot_info now roomId =
    \<lparr>hi_RoomId = roomId, hi_MsgCount = 0, hi_WindowStart = now, hi_Level = HotLevelNormal, hi_SampleRate = 100,
     hi_UpdateAt = now\<rparr>"

definition getOrCreate :: "int64 \<Rightarrow> HotDetector \<Rightarrow> int64 \<Rightarrow> RoomHotInfo \<times> HotDetector" where
  "getOrCreate now h roomId =
    (case map_of (hd_rooms h) roomId of
       Some info \<Rightarrow> (info, h)
     | None \<Rightarrow>
       let info = new_hot_info now roomId
       in (info, h\<lparr>hd_rooms := AList.update roomId info (hd_rooms h)\<rparr>))"

definition set_info :: "int64 \<Rightarrow> RoomHotInfo \<Rightarrow> HotDetector \<Rightarrow> HotDetector" where
  "set_info roomId info h = h\<lparr>hd_rooms := AList.update roomId info (hd_rooms h)\<rparr>"

definition RecordMessages :: "int64 \<Rightarrow> int64 \<Rightarrow> int64 \<Rightarrow> HotDetector \<Rightarrow> HotDetector" where
  "RecordMessages now roomId count h =
    (case getOrCreate now h roomId of
       (info, h) \<Rightarrow> set_info roomId (info\<lparr>hi_MsgCount := hi_MsgCount info + count, hi_UpdateAt := now\<rparr>) h)"

definition RecordMessage :: "int64 \<Rightarrow> int64 \<Rightarrow> HotDetector \<Rightarrow> HotDetector" where
  "RecordMessage now roomId h =
    (case getOrCreate now h roomId of
       (info, h) \<Rightarrow> set_info roomId (info\<lparr>hi_MsgCount := hi_MsgCount info + 1, hi_UpdateAt := now\<rparr>) h)"

definition updateLevel :: "int64 \<Rightarrow> HotDetector \<Rightarrow> RoomHotInfo \<Rightarrow> RoomHotInfo" where
  "updateLevel now h info =
    (let windowMs = sint (now - hi_WindowStart info)
     in if windowMs \<ge> 1000 then
          let msgPerSec = sint (hi_MsgCount info) * 1000 div windowMs;
              (level, rate) =
                (if msgPerSec \<ge> sint (superThreshold h) then (HotLevelSuper, SamplerRateHotLevelSuper)
                 else if msgPerSec \<ge> sint (hotThreshold h) then (HotLevelHot, SamplerRateHotLevelHot)
                 else if msgPerSec \<ge> sint (warmThreshold h) then (HotLevelWarm, SamplerRateHotLevelWarm)
                 else (HotLevelNormal, SamplerRateNormal))
          in info\<lparr>hi_Level := level, hi_SampleRate := rate, hi_MsgCount := 0, hi_WindowStart := now\<rparr>
        else info)"

definition GetHotLevel :: "int64 \<Rightarrow> int64 \<Rightarrow> HotDetector \<Rightarrow> HotLevel \<times> HotDetector" where
  "GetHotLevel now roomId h =
    (case getRoomInfo h roomId of
       None \<Rightarrow> (HotLevelNormal, h)
     | Some info \<Rightarrow>
       let info = updateLevel now h info in (hi_Level info, set_info roomId info h))"

definition GetSampleRate :: "int64 \<Rightarrow> int64 \<Rightarrow> HotDetector \<Rightarrow> int \<times> HotDetector" where
  "GetSampleRate now roomId h =
    (case getRoomInfo h roomId of
       None \<Rightarrow> (100, h)
     | Some info \<Rightarrow>
       let info = updateLevel now h info in (hi_SampleRate info, set_info roomId info h))"

text \<open>The draw of \<open>ShouldSample\<close> is the clock in nanoseconds modulo 100.\<close>

definition ShouldSample :: "int64 \<Rightarrow> int64 \<Rightarrow> int64 \<Rightarrow> HotDetector \<Rightarrow> bool \<times> HotDetector" where
  "ShouldSample now nano roomId h =
    (case GetHotLevel now roomId h of
       (level, h) \<Rightarrow>
         if level = HotLevelNormal then (False, h)
         else (draw_drops (go_rem (sint nano) 100) (hc_SampleRate (GetHotConfig (word_of_int (level_int level)))), h))"

definition hot_GetStats :: "HotDetector \<Rightarrow> nat \<times> nat \<times> nat" where
  "hot_GetStats h =
    foldl (\<lambda>(hot, warm, normal) (roomId, info).
        case hi_Level info of
          HotLevelSuper \<Rightarrow> (Suc hot, warm, normal)
        | HotLevelHot \<Rightarrow> (Suc hot, warm, normal)
        | HotLevelWarm \<Rightarrow> (hot, Suc warm, normal)
        | HotLevelNormal \<Rightarrow> (hot, warm, Suc normal))
      (0, 0, 0) (hd_rooms h)"

section \<open>The sampler\<close>

record RoomSampler =
  rs_RoomId :: int64
  rs_SampleRate :: int
  rs_Level :: HotLevel
  rs_DropCount :: int64
  rs_PassCount :: int64

record Sampler =
  sm_rooms :: "(int64 \<times> RoomSampler) list"
  defaultRate :: int

definition NewSampler :: Sampler where
  "NewSampler = \<lparr>sm_rooms = [], defaultRate = 100\<rparr>"

definition UpdateRoom :: "int64 \<Rightarrow> HotLevel \<Rightarrow> Sampler \<Rightarrow> Sampler" where
  "UpdateRoom roomId level s =
    (let cfg = GetHotConfig (word_of_int (level_int level))
     in case map_of (sm_rooms s) roomId of
          None \<Rightarrow>
            s\<lparr>sm_rooms := AList.update roomId
                \<lparr>rs_RoomId = roomId, rs_SampleRate = hc_SampleRate cfg, rs_Level = level,
                 rs_DropCount = 0, rs_PassCount = 0\<rparr> (sm_rooms s)\<rparr>
        | Some room \<Rightarrow>
            s\<lparr>sm_rooms := AList.update roomId
                (room\<lparr>rs_SampleRate := hc_SampleRate cfg, rs_Level := level\<rparr>) (sm_rooms s)\<rparr>)"

text \<open>A copy of the table, field by field.\<close>

definition GetAllStats :: "Sampler \<Rightarrow> (int64 \<times> RoomSampler) list" where
  "GetAllStats s =
    map (\<lambda>(id, room).
      (id, \<lparr>rs_RoomId = rs_RoomId room, rs_SampleRate = rs_SampleRate room, rs_Level = rs_Level room,
            rs_DropCount = rs_DropCount room, rs_PassCount = rs_PassCount room\<rparr>)) (sm_rooms s)"

definition count_draw :: "bool \<Rightarrow> RoomSampler \<Rightarrow> RoomSampler" where
  "count_draw dropped room =
    (if dropped then room\<lparr>rs_DropCount := rs_DropCount room + 1\<rparr> else room\<lparr>rs_PassCount := rs_PassCount room + 1\<rparr>)"

text \<open>\<open>draw\<close> is the answer of \<open>rand.Intn(100)\<close>.\<close>

definition ShouldDrop :: "int \<Rightarrow> int64 \<Rightarrow> Sampler \<Rightarrow> bool \<times> Sampler" where
  "ShouldDrop draw roomId s =
    (case map_of (sm_rooms s) roomId of
       None \<Rightarrow> (False, s)
     | Some room \<Rightarrow>
       if rs_Level room = HotLevelNormal then (False, s)
       else let dropped = draw_drops draw (rs_SampleRate room)
            in (dropped, s\<lparr>sm_rooms := AList.update roomId (count_draw dropped room) (sm_rooms s)\<rparr>))"

definition ShouldDropWithLevel :: "int \<Rightarrow> int64 \<Rightarrow> HotLevel \<Rightarrow> Sampler \<Rightarrow> bool \<times> Sampler" where
  "ShouldDropWithLevel draw roomId level s =
    (if level = HotLevelNormal then (False, s)
     else let cfg = GetHotConfigByLevel level;
              dropped = draw_drops draw (hc_SampleRate cfg)
          in case map_of (sm_rooms s) roomId of
               None \<Rightarrow> (dropped, s)
             | Some room \<Rightarrow> (dropped, s\<lparr>sm_rooms := AList.update roomId (count_draw dropped room) (sm_rooms s)\<rparr>))"

definition sampler_GetStats :: "int64 \<Rightarrow> Sampler \<Rightarrow> int64 \<times> int64 \<times> HotLevel" where
  "sampler_GetStats roomId s =
    (case map_of (sm_rooms s) roomId of
       None \<Rightarrow> (0, 0, HotLevelNormal)
     | Some room \<Rightarrow> (rs_PassCount room, rs_DropCount room, rs_Level room))"

text \<open>The quotient of \<open>GetDropRate\<close>, as its numerator and denominator.\<close>

definition GetDropRate :: "int64 \<Rightarrow> Sampler \<Rightarrow> int \<times> int" where
  "GetDropRate roomId s =
    (case map_of (sm_rooms s) roomId of
       None \<Rightarrow> (0, 1)
     | Some room \<Rightarrow>
       let total = sint (rs_PassCount room + rs_DropCount room)
       in if total > 0 then (sint (rs_DropCount room), total) else (0, 1))"

definition RemoveRoom :: "int64 \<Rightarrow> Sampler \<Rightarrow> Sampler" where
  "RemoveRoom roomId s = s\<lparr>sm_rooms := AList.delete roomId (sm_rooms s)\<rparr>"

section \<open>The measured rate\<close>

definition level_of_rate :: "int \<Rightarrow> HotLevel" where
  "level_of_rate msgPerSec =
    (if msgPerSec \<ge> 2000 then HotLevelSuper else if msgPerSec \<ge> 500 then HotLevelHot
     else if msgPerSec \<ge> 100 then HotLevelWarm else HotLevelNormal)"

definition default_thresholds :: "HotDetector \<Rightarrow> bool" where
  "default_thresholds h \<longleftrightarrow> hotThreshold h = 500 \<and> warmThreshold h = 100 \<and> superThreshold h = 2000"

lemma getRoomInfo_set [simp]:
  "getRoomInfo (set_info roomId info h) rid = (if rid = roomId then Some info else getRoomInfo h rid)"
  by (simp add: getRoomInfo_def set_info_def)

lemma thresholds_set [simp]: "default_thresholds (set_info roomId info h) = default_thresholds h"
  by (simp add: default_thresholds_def set_info_def)

lemma getOrCreate_facts:
  "getOrCreate now h roomId =
    (case getRoomInfo h roomId of
       Some info \<Rightarrow> (info, h)
     | None \<Rightarrow> (new_hot_info now roomId, set_info roomId (new_hot_info now roomId) h))"
  by (simp add: getOrCreate_def getRoomInfo_def set_info_def Let_def split: option.split)

lemma RecordMessage_info:
  "getRoomInfo (RecordMessage now roomId h) rid =
    (if rid = roomId then
       Some (let info = (case getRoomInfo h roomId of Some i \<Rightarrow> i | None \<Rightarrow> new_hot_info now roomId)
             in info\<lparr>hi_MsgCount := hi_MsgCount info + 1, hi_UpdateAt := now\<rparr>)
     else getRoomInfo h rid)"
  "default_thresholds (RecordMessage now roomId h) = default_thresholds h"
  by (simp_all add: RecordMessage_def getOrCreate_facts Let_def split: option.split)

text \<open>Recording the messages of a list of moments and rooms.\<close>

definition record_all :: "(int64 \<times> int64) list \<Rightarrow> HotDetector \<Rightarrow> HotDetector" where
  "record_all ms h = foldl (\<lambda>h (now, roomId). RecordMessage now roomId h) h ms"

lemma record_all_info:
  assumes "getRoomInfo h rid = Some info"
  shows "\<exists>info'. getRoomInfo (record_all ms h) rid = Some info' \<and> hi_WindowStart info' = hi_WindowStart info \<and>
    hi_MsgCount info' = hi_MsgCount info + of_nat (length (filter (\<lambda>(now, r). r = rid) ms)) \<and>
    default_thresholds (record_all ms h) = default_thresholds h"
  using assms
proof (induction ms rule: rev_induct)
  case Nil
  then show ?case by (simp add: record_all_def)
next
  case (snoc m ms)
  obtain now r where m: "m = (now, r)" by (cases m)
  have step: "record_all (ms @ [m]) h = RecordMessage now r (record_all ms h)"
    by (simp add: record_all_def m)
  show ?case
    using snoc.IH [OF snoc.prems] unfolding step by (auto simp: RecordMessage_info m)
qed

lemma updateLevel_rate:
  assumes "default_thresholds h" and "sint (now - hi_WindowStart info) \<ge> 1000"
  shows "hi_Level (updateLevel now h info) =
    level_of_rate (sint (hi_MsgCount info) * 1000 div sint (now - hi_WindowStart info))"
  using assms by (simp add: updateLevel_def default_thresholds_def level_of_rate_def Let_def)

lemma updateLevel_consistent:
  assumes "hi_SampleRate info = hc_SampleRate (GetHotConfigByLevel (hi_Level info))"
  shows "hi_SampleRate (updateLevel now h info) = hc_SampleRate (GetHotConfigByLevel (hi_Level (updateLevel now h info)))"
  using assms by (simp add: updateLevel_def GetHotConfigByLevel_rate rate_defs Let_def)

lemma hot_GetStats_total:
  "hot_GetStats h = (a, b, c) \<Longrightarrow> a + b + c = length (hd_rooms h)"
proof -
  have "foldl (\<lambda>(hot, warm, normal) (roomId :: int64, info).
        case hi_Level info of
          HotLevelSuper \<Rightarrow> (Suc hot, warm, normal)
        | HotLevelHot \<Rightarrow> (Suc hot, warm, normal)
        | HotLevelWarm \<Rightarrow> (hot, Suc warm, normal)
        | HotLevelNormal \<Rightarrow> (hot, warm, Suc normal)) (x, y, z) rs = (a, b, c) \<Longrightarrow>
      a + b + c = x + y + z + length rs" for rs x y z
    by (induction rs arbitrary: x y z) (auto split: HotLevel.splits)
  from this [of 0 0 0 "hd_rooms h"] show "hot_GetStats h = (a, b, c) \<Longrightarrow> a + b + c = length (hd_rooms h)"
    by (simp add: hot_GetStats_def)
qed

section \<open>What the sampler drops\<close>

text \<open>
  \<open>UpdateRoom\<close> looks the level up among the connection counts, where every level number is below the
  first threshold: the rate of every room is that of a normal one.
\<close>

lemma level_as_count: "GetHotConfig (word_of_int (level_int level)) = GetHotConfigByLevel HotLevelNormal"
  by (cases level) (simp_all add: GetHotConfig_def GetHotConfigByLevel_def HotConfigs_def threshold_defs)

definition all_pass :: "Sampler \<Rightarrow> bool" where
  "all_pass s \<longleftrightarrow> (\<forall>rid room. map_of (sm_rooms s) rid = Some room \<longrightarrow> rs_SampleRate room = 100)"

datatype sampler_op = Update int64 HotLevel | Draw int int64 | Remove int64

fun sampler_step :: "sampler_op \<Rightarrow> Sampler \<Rightarrow> bool list \<times> Sampler" where
  "sampler_step (Update rid level) s = ([], UpdateRoom rid level s)"
| "sampler_step (Draw draw rid) s = (case ShouldDrop draw rid s of (dropped, s') \<Rightarrow> ([dropped], s'))"
| "sampler_step (Remove rid) s = ([], RemoveRoom rid s)"

fun sampler_run :: "sampler_op list \<Rightarrow> Sampler \<Rightarrow> bool list \<times> Sampler" where
  "sampler_run [] s = ([], s)"
| "sampler_run (op # ops) s =
    (case sampler_step op s of (ds, s') \<Rightarrow> (case sampler_run ops s' of (ds', s'') \<Rightarrow> (ds @ ds', s'')))"

fun fair_draw :: "sampler_op \<Rightarrow> bool" where
  "fair_draw (Draw draw rid) \<longleftrightarrow> 0 \<le> draw \<and> draw < 100"
| "fair_draw op \<longleftrightarrow> True"

lemma all_pass_step:
  assumes "all_pass s" and "fair_draw op" and "sampler_step op s = (ds, s')"
  shows "all_pass s' \<and> True \<notin> set ds"
proof (cases op)
  case (Update rid level)
  then show ?thesis
    using assms by (auto simp: all_pass_def UpdateRoom_def level_as_count GetHotConfigByLevel_rate Let_def split: option.splits if_splits)
next
  case (Draw draw rid)
  then show ?thesis
    using assms
    by (auto simp: all_pass_def ShouldDrop_def draw_drops_def count_draw_def Let_def split: option.splits if_splits)
next
  case (Remove rid)
  then show ?thesis using assms by (auto simp: all_pass_def RemoveRoom_def split: if_splits)
qed

section \<open>Properties\<close>

text \<open>
  The sampler never drops anything. From a new sampler, whatever levels rooms are given, in any order
  with draws and removals, every draw of the random numbers 0 to 99 lets its message pass, in super-hot
  rooms too.
\<close>

theorem sampler_never_drops:
  assumes "\<forall>op \<in> set ops. fair_draw op"
  shows "True \<notin> set (fst (sampler_run ops NewSampler))"
proof -
  have "True \<notin> set (fst (sampler_run ops s))" if "all_pass s" "\<forall>op \<in> set ops. fair_draw op" for ops s
    using that
  proof (induction ops arbitrary: s)
    case (Cons op ops)
    obtain ds s' where s: "sampler_step op s = (ds, s')" by fastforce
    from all_pass_step [OF Cons.prems(1) _ s] Cons.prems(2) have "all_pass s'" "True \<notin> set ds" by auto
    then show ?case using Cons.IH [of s'] Cons.prems(2) s by (auto split: prod.splits)
  qed simp
  then show ?thesis using assms by (simp add: all_pass_def NewSampler_def)
qed

theorem sampler_never_drops_witness:
  "True \<notin> set (fst (sampler_run [Update 7 HotLevelSuper, Draw 99 7, Draw 50 7] NewSampler))"
  using sampler_never_drops [of "[Update 7 HotLevelSuper, Draw 99 7, Draw 50 7]"] by simp

text \<open>
  The detector measures rates. Start from a room's record whose window opened at some moment with no
  message counted yet, record any messages of any rooms, and ask for the room's level at least a
  second after the window opened: the answer is the level of the room's own messages per second, whatever the
  other rooms did, as long as the messages counted fit in 63 bits.
\<close>

theorem hot_level_measures_rate:
  assumes "default_thresholds h" and "getRoomInfo h rid = Some info" and "hi_MsgCount info = 0"
    and "sint (now - hi_WindowStart info) \<ge> 1000" and "length ms < 2 ^ 63"
  shows "fst (GetHotLevel now rid (record_all ms h)) =
    level_of_rate (int (length (filter (\<lambda>(t, r). r = rid) ms)) * 1000 div sint (now - hi_WindowStart info))"
proof -
  obtain info' where i: "getRoomInfo (record_all ms h) rid = Some info'" "hi_WindowStart info' = hi_WindowStart info"
    "hi_MsgCount info' = of_nat (length (filter (\<lambda>(t, r). r = rid) ms))" "default_thresholds (record_all ms h)"
    using record_all_info [OF assms(2), of ms] assms(1,3) by auto
  have "length (filter (\<lambda>(t, r). r = rid) ms) < 2 ^ 63"
    using assms(5) length_filter_le le_less_trans by blast
  then have "sint (hi_MsgCount info') = int (length (filter (\<lambda>(t, r). r = rid) ms))"
    unfolding i(3) by (intro sint_of_nat_small) simp
  then show ?thesis
    using updateLevel_rate [OF i(4), of now info'] assms(4) i(1,2) by (simp add: GetHotLevel_def Let_def)
qed

theorem hot_level_measures_rate_witness:
  "fst (GetHotLevel 3000 7 (record_all (replicate 240 (1500, 7)) (set_info 7 (new_hot_info 1000 7) NewHotDetector)))
   = HotLevelWarm"
proof -
  let ?h = "set_info 7 (new_hot_info 1000 7) NewHotDetector"
  have "default_thresholds ?h" by (simp add: default_thresholds_def NewHotDetector_def set_info_def)
  from hot_level_measures_rate [OF this, where rid = 7 and info = "new_hot_info 1000 7" and now = 3000
      and ms = "replicate 240 (1500, 7)"]
  show ?thesis by (simp add: new_hot_info_def level_of_rate_def)
qed

end
