(* ===== verification/Gateway_Server.thy ===== *)
theory Gateway_Server
  imports Gateway_Router Gateway_Hot Text_Filter Wire_Messages
begin

text \<open>
  \<open>_deprecated/gateway/danmaku.go\<close>, \<open>producer.go\<close> and \<open>server.go\<close>: the HTTP gateway that checks a danmaku and
  writes it to Kafka.

  The JSON decoder is a parameter, one function per request body; a Kafka write is recorded with the
  answer the writer library gives. The codec has the further messages of the gateway.
\<close>

section \<open>Messages and texts\<close>

record BroadcastMsg =
  bm_RoomId :: int64
  bm_UserId :: int64
  bm_Body :: bytes
  bm_Timestamp :: int64

record gateway_codec = codec +
  Marshal_ChatMsg :: "ChatMsg \<Rightarrow> bytes \<times> string option"
  Marshal_BroadcastMsg :: "BroadcastMsg \<Rightarrow> bytes \<times> string option"
  Marshal_VideoTS :: "VideoTSUpdate \<Rightarrow> bytes \<times> string option"

definition utf8_bytes :: "nat list \<Rightarrow> string" where
  "utf8_bytes bs = map char_of bs"

definition reason_nil :: string where
  "reason_nil =
    utf8_bytes [230, 182, 136, 230, 129, 175, 228, 184, 186, 231, 169, 186]"

definition reason_empty :: string where
  "reason_empty =
    utf8_bytes [229, 134, 133, 229, 174, 185, 228, 184, 186, 231, 169, 186]"

definition reason_long :: string where
  "reason_long =
    utf8_bytes [229, 134, 133, 229, 174, 185, 232, 191, 135, 233, 149, 191]"

definition reason_sensitive :: string where
  "reason_sensitive =
    utf8_bytes [229, 140, 133, 229, 144, 171, 230, 149, 143, 230, 132, 159, 232, 175, 141]"

definition reason_marshal :: string where
  "reason_marshal =
    utf8_bytes [229, 186, 143, 229, 136, 151, 229, 140, 150, 229, 164, 177, 232, 180, 165]"

definition err_request_nil :: string where
  "err_request_nil =
    utf8_bytes [232, 175, 183, 230, 177, 130, 228, 184, 186, 231, 169, 186]"

definition err_room_id :: string where
  "err_room_id =
    utf8_bytes [230, 136, 191, 233, 151, 180, 73, 68, 230, 151, 160, 230, 149, 136]"

definition err_user_id :: string where
  "err_user_id =
    utf8_bytes [231, 148, 168, 230, 136, 183, 73, 68, 230, 151, 160, 230, 149, 136]"

definition err_producer :: string where
  "err_producer =
    utf8_bytes [112, 114, 111, 100, 117, 99, 101, 114, 230, 156, 170, 229, 136, 157, 229, 167, 139,
      229, 140, 150]"

definition err_envelope :: string where
  "err_envelope =
    utf8_bytes [101, 110, 118, 101, 108, 111, 112, 101, 228, 184, 186, 231, 169, 186]"

definition err_update :: string where
  "err_update =
    utf8_bytes [117, 112, 100, 97, 116, 101, 228, 184, 186, 231, 169, 186]"

section \<open>The danmaku checks\<close>

type_synonym filter_check = "string \<Rightarrow> Result"

record ProcessResult =
  pr_Valid :: bool
  pr_Reason :: string
  pr_Payload :: bytes

text \<open>The error type of the package; its text is its message.\<close>

record DanmakuProcError =
  pe_Code :: int32
  pe_Message :: string

definition DanmakuProcError_Error :: "DanmakuProcError \<Rightarrow> string" where
  "DanmakuProcError_Error e = pe_Message e"

definition NewProcError :: "int32 \<Rightarrow> string \<Rightarrow> DanmakuProcError" where
  "NewProcError code msg = \<lparr>pe_Code = code, pe_Message = msg\<rparr>"

definition refuse :: "string \<Rightarrow> ProcessResult" where
  "refuse reason = \<lparr>pr_Valid = False, pr_Reason = reason, pr_Payload = []\<rparr>"

definition Process ::
  "int64 \<Rightarrow> gateway_codec \<Rightarrow> filter_check option \<Rightarrow> ChatMsg option \<Rightarrow> int64 \<Rightarrow> int64 \<Rightarrow> ProcessResult" where
  "Process now_ms cdc flt msg userId roomId =
    (case msg of
       None \<Rightarrow> refuse reason_nil
     | Some m \<Rightarrow>
       let content = chat_Content m
       in if content = '''' then refuse reason_empty
          else if length content > 200 then refuse reason_long
          else if (case flt of None \<Rightarrow> False | Some check \<Rightarrow> Hit (check content)) then refuse reason_sensitive
          else
            let broadcastMsg = \<lparr>bm_RoomId = roomId, bm_UserId = userId, bm_Body = bytes_of_string content,
                                bm_Timestamp = now_ms\<rparr>
            in case Marshal_BroadcastMsg cdc broadcastMsg of
                 (payload, Some err) \<Rightarrow> refuse reason_marshal
               | (payload, None) \<Rightarrow> \<lparr>pr_Valid = True, pr_Reason = '''', pr_Payload = payload\<rparr>)"

definition ValidateJoinRoom :: "JoinRoomReq option \<Rightarrow> string option" where
  "ValidateJoinRoom req =
    (case req of
       None \<Rightarrow> Some err_request_nil
     | Some r \<Rightarrow>
       if sint (join_RoomId r) \<le> 0 then Some err_room_id
       else if sint (join_UserId r) \<le> 0 then Some err_user_id
       else None)"

section \<open>The producer\<close>

text \<open>
  A message is its key and value. \<open>ready\<close> says whether the producer and its writer exist; the result is the
  error with the messages of the write, if one was made.
\<close>

type_synonym kafka_message = "bytes \<times> bytes"

definition room_key :: "int64 \<Rightarrow> bytes" where
  "room_key roomId = bytes_of_string (FormatInt (sint roomId))"

definition PublishDanmaku ::
  "gateway_codec \<Rightarrow> string option \<Rightarrow> bool \<Rightarrow> BroadcastEnvelope option \<Rightarrow> string option \<times> kafka_message list" where
  "PublishDanmaku cdc answer ready envelope =
    (if \<not> ready then (Some err_producer, [])
     else case envelope of
       None \<Rightarrow> (Some err_envelope, [])
     | Some e \<Rightarrow>
       (case Marshal_Envelope cdc e of
          (data, Some err) \<Rightarrow> (Some err, [])
        | (data, None) \<Rightarrow> (answer, [(room_key (e_RoomId e), data)])))"

definition PublishVideoTS ::
  "gateway_codec \<Rightarrow> string option \<Rightarrow> bool \<Rightarrow> VideoTSUpdate option \<Rightarrow> string option \<times> kafka_message list" where
  "PublishVideoTS cdc answer ready update =
    (if \<not> ready then (Some err_producer, [])
     else case update of
       None \<Rightarrow> (Some err_update, [])
     | Some u \<Rightarrow>
       (case Marshal_VideoTS cdc u of
          (data, Some err) \<Rightarrow> (Some err, [])
        | (data, None) \<Rightarrow> (answer, [(room_key (vts_RoomId u), data)])))"

fun batch_messages :: "gateway_codec \<Rightarrow> BroadcastEnvelope list \<Rightarrow> kafka_message list" where
  "batch_messages cdc [] = []"
| "batch_messages cdc (env # envelopes) =
    (case Marshal_Envelope cdc env of
       (data, Some err) \<Rightarrow> batch_messages cdc envelopes
     | (data, None) \<Rightarrow> (room_key (e_RoomId env), data) # batch_messages cdc envelopes)"

definition PublishBatch ::
  "gateway_codec \<Rightarrow> string option \<Rightarrow> bool \<Rightarrow> BroadcastEnvelope list \<Rightarrow> string option \<times> kafka_message list" where
  "PublishBatch cdc answer ready envelopes =
    (if \<not> ready then (Some err_producer, [])
     else let messages = batch_messages cdc envelopes
          in if length messages = 0 then (None, []) else (answer, messages))"

section \<open>The gateway\<close>

record Gateway =
  gw_router :: RoomRouter
  gw_hot :: HotDetector
  gw_sampler :: Sampler
  gw_filter :: filter_check
  gw_ready :: bool

definition gateway_words :: "string list" where
  "gateway_words = [utf8_bytes [229, 130, 187, 233, 128, 188],
    utf8_bytes [229, 158, 131, 229, 156, 190]]"

text \<open>
  \<open>NewGateway\<close>. A reloadable filter is made for a configured path, and neither loaded nor set to reload:
  it checks its fallback words.
\<close>

definition NewGateway :: "string \<Rightarrow> Gateway" where
  "NewGateway filterPath =
    \<lparr>gw_router = NewRoomRouter, gw_hot = NewHotDetector, gw_sampler = NewSampler,
     gw_filter = (if filterPath \<noteq> '''' then reloadable_Check (Some (NewReloadableFilter filterPath gateway_words))
                  else simple_Check (Some (NewSimpleFilter []))),
     gw_ready = True\<rparr>"

record http_response =
  status :: nat
  http_body :: string

definition ok :: "string \<Rightarrow> http_response" where
  "ok b = \<lparr>status = 200, http_body = b\<rparr>"

text \<open>\<open>http.Error\<close> adds a newline.\<close>

definition http_error :: "string \<Rightarrow> nat \<Rightarrow> http_response" where
  "http_error msg code = \<lparr>status = code, http_body = msg @ [newline]\<rparr>"

definition quoted :: "string \<Rightarrow> string" where
  "quoted s = [CHR 0x22] @ s @ [CHR 0x22]"

definition success_body :: string where
  "success_body = ''{'' @ quoted ''success'' @ '':true}''"

definition dropped_body :: string where
  "dropped_body = ''{'' @ quoted ''success'' @ '':true,'' @ quoted ''dropped'' @ '':true}''"

definition handleStats :: "Gateway \<Rightarrow> http_response" where
  "handleStats g =
    (case hot_GetStats (gw_hot g) of
       (hot, warm, normal) \<Rightarrow>
         ok (''{'' @ quoted ''hot_rooms'' @ '':'' @ FormatInt (int hot) @ '','' @ quoted ''warm_rooms'' @ '':'' @
             FormatInt (int warm) @ '','' @ quoted ''normal_rooms'' @ '':'' @ FormatInt (int normal) @ ''}'' @ [newline]))"

record PublishDanmakuRequest =
  req_RoomId :: int64
  req_UserId :: int64
  req_ConnId :: string
  req_Content :: string
  req_VideoTS :: int64
  req_IsPremium :: bool

record VideoTSRequest =
  vreq_RoomId :: int64
  vreq_VideoTS :: int64
  vreq_SentAt :: int64

record json =
  decode_register :: "string \<Rightarrow> (string \<times> string) option"
  decode_unregister :: "string \<Rightarrow> string option"
  decode_publish :: "string \<Rightarrow> PublishDanmakuRequest option"
  decode_video :: "string \<Rightarrow> VideoTSRequest option"

definition bad_request :: http_response where
  "bad_request = http_error ''Invalid request'' 400"

definition handleEdgeRegister :: "json \<Rightarrow> string \<Rightarrow> Gateway \<Rightarrow> http_response \<times> Gateway" where
  "handleEdgeRegister js rbody g =
    (case decode_register js rbody of
       None \<Rightarrow> (bad_request, g)
     | Some (nodeId, addr) \<Rightarrow> (ok ''OK'', g\<lparr>gw_router := RegisterEdge nodeId addr (gw_router g)\<rparr>))"

definition handleEdgeUnregister :: "json \<Rightarrow> string \<Rightarrow> Gateway \<Rightarrow> http_response \<times> Gateway" where
  "handleEdgeUnregister js rbody g =
    (case decode_unregister js rbody of
       None \<Rightarrow> (bad_request, g)
     | Some nodeId \<Rightarrow> (ok ''OK'', g\<lparr>gw_router := UnregisterEdge nodeId (gw_router g)\<rparr>))"

text \<open>What a request asks of the world: the clock, the random draw of the sampler and Kafka's answer.\<close>

record gw_env =
  gw_now :: int64
  gw_draw :: int
  gw_answer :: "string option"

definition request_envelope :: "int64 \<Rightarrow> PublishDanmakuRequest \<Rightarrow> bytes \<Rightarrow> BroadcastEnvelope" where
  "request_envelope now req chatData =
    empty_envelope\<lparr>e_RoomId := req_RoomId req, e_UserId := req_UserId req, e_SenderConnId := req_ConnId req,
      e_IsPremium := req_IsPremium req, e_Payload := chatData, e_Timestamp := now, e_VideoTs := req_VideoTS req\<rparr>"

definition handlePublishDanmaku ::
  "gateway_codec \<Rightarrow> json \<Rightarrow> gw_env \<Rightarrow> string \<Rightarrow> Gateway \<Rightarrow> http_response \<times> kafka_message list \<times> Gateway" where
  "handlePublishDanmaku cdc js ev rbody g =
    (case decode_publish js rbody of
       None \<Rightarrow> (bad_request, [], g)
     | Some req \<Rightarrow>
       if sint (req_RoomId req) \<le> 0 then (http_error ''Invalid room_id'' 400, [], g)
       else if sint (req_UserId req) \<le> 0 then (http_error ''Invalid user_id'' 400, [], g)
       else if req_Content req = '''' then (http_error ''Content empty'' 400, [], g)
       else if Hit (gw_filter g (req_Content req)) then (http_error ''Content filtered'' 403, [], g)
       else
         let g = g\<lparr>gw_hot := RecordMessage (gw_now ev) (req_RoomId req) (gw_hot g)\<rparr>;
             (dropped, smp) = ShouldDrop (gw_draw ev) (req_RoomId req) (gw_sampler g);
             g = g\<lparr>gw_sampler := smp\<rparr>
         in if dropped then (ok dropped_body, [], g)
            else case Marshal_ChatMsg cdc \<lparr>chat_Content = req_Content req\<rparr> of
              (chatData, Some err) \<Rightarrow> (http_error ''Marshal error'' 500, [], g)
            | (chatData, None) \<Rightarrow>
              (case PublishDanmaku cdc (gw_answer ev) (gw_ready g) (Some (request_envelope (gw_now ev) req chatData)) of
                 (Some err, msgs) \<Rightarrow> (http_error ''Publish error'' 500, msgs, g)
               | (None, msgs) \<Rightarrow> (ok success_body, msgs, g)))"

definition handleVideoTS :: "json \<Rightarrow> string \<Rightarrow> http_response" where
  "handleVideoTS js rbody =
    (case decode_video js rbody of
       None \<Rightarrow> bad_request
     | Some req \<Rightarrow>
       if sint (vreq_RoomId req) \<le> 0 then http_error ''Invalid room_id'' 400 else ok success_body)"

definition TrimSuffix_slash :: "string \<Rightarrow> string" where
  "TrimSuffix_slash p = (if p \<noteq> [] \<and> last p = CHR ''/'' then butlast p else p)"

record http_request =
  http_path :: string
  http_method :: string
  req_body :: string

definition serveHTTP ::
  "gateway_codec \<Rightarrow> json \<Rightarrow> gw_env \<Rightarrow> http_request \<Rightarrow> Gateway \<Rightarrow> http_response \<times> kafka_message list \<times> Gateway" where
  "serveHTTP cdc js ev r g =
    (let path = TrimSuffix_slash (http_path r)
     in if path = ''/health'' \<and> http_method r = ''GET'' then (ok ''OK'', [], g)
        else if path = ''/stats'' \<and> http_method r = ''GET'' then (handleStats g, [], g)
        else if path = ''/edge/register'' \<and> http_method r = ''POST'' then
          (case handleEdgeRegister js (req_body r) g of (resp, g') \<Rightarrow> (resp, [], g'))
        else if path = ''/edge/unregister'' \<and> http_method r = ''POST'' then
          (case handleEdgeUnregister js (req_body r) g of (resp, g') \<Rightarrow> (resp, [], g'))
        else if path = ''/api/danmaku/publish'' \<and> http_method r = ''POST'' then
          handlePublishDanmaku cdc js ev (req_body r) g
        else if path = ''/api/video/ts'' \<and> http_method r = ''POST'' then (handleVideoTS js (req_body r), [], g)
        else (http_error ''404 page not found'' 404, [], g))"

text \<open>Requests served one after the other, each with its surroundings; the messages written, in order.\<close>

fun serve_all ::
  "gateway_codec \<Rightarrow> json \<Rightarrow> (gw_env \<times> http_request) list \<Rightarrow> Gateway \<Rightarrow> kafka_message list \<times> Gateway" where
  "serve_all cdc js [] g = ([], g)"
| "serve_all cdc js ((ev, r) # rs) g =
    (case serveHTTP cdc js ev r g of
       (resp, msgs, g') \<Rightarrow> (case serve_all cdc js rs g' of (msgs', g'') \<Rightarrow> (msgs @ msgs', g'')))"

section \<open>What is published\<close>

definition is_publish :: "http_request \<Rightarrow> bool" where
  "is_publish r \<longleftrightarrow> TrimSuffix_slash (http_path r) = ''/api/danmaku/publish'' \<and> http_method r = ''POST''"

text \<open>The request a well-formed publish carries, if its content passes the filter.\<close>

definition accepted :: "json \<Rightarrow> filter_check \<Rightarrow> http_request \<Rightarrow> PublishDanmakuRequest option" where
  "accepted js check r =
    (if \<not> is_publish r then None
     else case decode_publish js (req_body r) of
       None \<Rightarrow> None
     | Some req \<Rightarrow>
       if 0 < sint (req_RoomId req) \<and> 0 < sint (req_UserId req) \<and> req_Content req \<noteq> '''' \<and>
          \<not> Hit (check (req_Content req))
       then Some req else None)"

text \<open>Its message: the marshalled envelope around the marshalled chat, under the key of its room.\<close>

definition message_of :: "gateway_codec \<Rightarrow> int64 \<Rightarrow> PublishDanmakuRequest \<Rightarrow> kafka_message" where
  "message_of cdc now req =
    (room_key (req_RoomId req),
     fst (Marshal_Envelope cdc (request_envelope now req (fst (Marshal_ChatMsg cdc \<lparr>chat_Content = req_Content req\<rparr>)))))"

definition quiet :: "filter_check \<Rightarrow> Gateway \<Rightarrow> bool" where
  "quiet check g \<longleftrightarrow> sm_rooms (gw_sampler g) = [] \<and> gw_ready g \<and> gw_filter g = check"

definition marshals :: "gateway_codec \<Rightarrow> bool" where
  "marshals cdc \<longleftrightarrow> (\<forall>m. snd (Marshal_ChatMsg cdc m) = None) \<and> (\<forall>e. snd (Marshal_Envelope cdc e) = None)"

lemma marshals_pairs:
  assumes "marshals cdc"
  shows "Marshal_ChatMsg cdc m = (fst (Marshal_ChatMsg cdc m), None)"
    and "Marshal_Envelope cdc e = (fst (Marshal_Envelope cdc e), None)"
  using assms by (simp_all add: marshals_def prod_eq_iff)

lemma PublishDanmaku_message:
  assumes "marshals cdc"
  shows "PublishDanmaku cdc a True
      (Some (request_envelope now req (fst (Marshal_ChatMsg cdc \<lparr>chat_Content = req_Content req\<rparr>)))) =
    (a, [message_of cdc now req])"
proof -
  let ?e = "request_envelope now req (fst (Marshal_ChatMsg cdc \<lparr>chat_Content = req_Content req\<rparr>))"
  obtain data where d: "Marshal_Envelope cdc ?e = (data, None)"
    using marshals_pairs(2) [OF assms] by metis
  then have "message_of cdc now req = (room_key (req_RoomId req), data)" by (simp add: message_of_def)
  with d show ?thesis by (simp add: PublishDanmaku_def request_envelope_def)
qed

lemma handlePublishDanmaku_quiet:
  assumes "marshals cdc" and "quiet check g" and "is_publish r"
    and "handlePublishDanmaku cdc js ev (req_body r) g = (resp, msgs, g')"
  shows "quiet check g' \<and>
    msgs = (case accepted js check r of None \<Rightarrow> [] | Some req \<Rightarrow> [message_of cdc (gw_now ev) req])"
proof (cases "decode_publish js (req_body r)")
  case None
  then show ?thesis using assms by (auto simp: handlePublishDanmaku_def accepted_def)
next
  case (Some req)
  have q: "sm_rooms (gw_sampler g) = []" "gw_ready g" "gw_filter g = check" using assms(2) by (simp_all add: quiet_def)
  have nodrop: "ShouldDrop d rid (gw_sampler g) = (False, gw_sampler g)" for d rid by (simp add: ShouldDrop_def q)
  obtain cd where cd: "Marshal_ChatMsg cdc \<lparr>chat_Content = req_Content req\<rparr> = (cd, None)"
    using marshals_pairs(1) [OF assms(1)] by metis
  have pub: "PublishDanmaku cdc a True (Some (request_envelope now req cd)) = (a, [message_of cdc now req])" for a now
    using PublishDanmaku_message [OF assms(1), of a now req] by (simp add: cd)
  let ?h = "handlePublishDanmaku cdc js ev (req_body r) g"
  have "quiet check (snd (snd ?h)) \<and>
    fst (snd ?h) = (case accepted js check r of None \<Rightarrow> [] | Some req \<Rightarrow> [message_of cdc (gw_now ev) req])"
    using assms(3)
    by (auto simp: handlePublishDanmaku_def accepted_def Some q nodrop cd pub quiet_def Let_def split: option.split)
  then show ?thesis by (simp add: assms(4))
qed

lemma serveHTTP_quiet:
  assumes "marshals cdc" and "quiet check g" and "serveHTTP cdc js ev r g = (resp, msgs, g')"
  shows "quiet check g' \<and>
    msgs = (case accepted js check r of None \<Rightarrow> [] | Some req \<Rightarrow> [message_of cdc (gw_now ev) req])"
proof (cases "is_publish r")
  case True
  then have "handlePublishDanmaku cdc js ev (req_body r) g = (resp, msgs, g')"
    using assms(3) by (simp add: serveHTTP_def is_publish_def)
  then show ?thesis using handlePublishDanmaku_quiet [OF assms(1,2) True] by blast
next
  case False
  have "quiet check (snd (handleEdgeRegister js b g))" "quiet check (snd (handleEdgeUnregister js b g))" for b
    using assms(2) by (auto simp: quiet_def handleEdgeRegister_def handleEdgeUnregister_def split: option.splits)
  moreover have "accepted js check r = None" using False by (simp add: accepted_def)
  ultimately show ?thesis
    using assms(2,3) False
    by (auto simp: serveHTTP_def is_publish_def Let_def split: if_splits prod.splits) (metis snd_conv)+
qed

lemma serve_all_messages:
  assumes "marshals cdc" and "quiet check g"
  shows "fst (serve_all cdc js rs g) =
    concat (map (\<lambda>(ev, r). case accepted js check r of None \<Rightarrow> [] | Some req \<Rightarrow> [message_of cdc (gw_now ev) req]) rs)"
  using assms(2)
proof (induction rs arbitrary: g)
  case (Cons e rs)
  obtain ev r where e: "e = (ev, r)" by (cases e)
  obtain resp msgs g' where s: "serveHTTP cdc js ev r g = (resp, msgs, g')" by (cases "serveHTTP cdc js ev r g") auto
  from serveHTTP_quiet [OF assms(1) Cons.prems s] Cons.IH [of g'] show ?case
    by (simp add: e s case_prod_beta cong: option.case_cong)
qed simp

lemma quiet_New: "quiet (gw_filter (NewGateway path)) (NewGateway path)"
  by (simp add: quiet_def NewGateway_def NewSampler_def)

section \<open>Properties\<close>


definition sample_gateway_codec :: gateway_codec where
  "sample_gateway_codec =
    codec.extend (null_codec\<lparr>Marshal_Envelope := \<lambda>e. (e_Payload e, None)\<rparr>)
      (gateway_codec.fields (\<lambda>m. (bytes_of_string (chat_Content m), None)) (\<lambda>m. ([], None)) (\<lambda>u. ([], None)))"

definition sample_json :: json where
  "sample_json =
    \<lparr>decode_register = (\<lambda>b. None), decode_unregister = (\<lambda>b. None),
     decode_publish = (\<lambda>b. Some \<lparr>req_RoomId = 5, req_UserId = 7, req_ConnId = '''', req_Content = b,
                                 req_VideoTS = 0, req_IsPremium = False\<rparr>),
     decode_video = (\<lambda>b. None)\<rparr>"


end
