(* ===== verification/Wire_Getters.thy ===== *)
theory Wire_Getters
  imports Gateway_Server
begin

text \<open>
  The accessors of \<open>pb/barrage.pb.go\<close>. A message is read through a pointer: a nil pointer is \<open>None\<close> and reads as the zero
  value of the field, so that an accessor never panics. \<open>Reset\<close> makes a message the zero message (what it stores
  for the reflection of the library is not modelled).
\<close>

definition SystemMsg_Reset :: "SystemMsg \<Rightarrow> SystemMsg" where
  "SystemMsg_Reset x = \<lparr>sys_Content = '''', sys_Type = 0\<rparr>"

definition SystemMsg_GetContent :: "SystemMsg option \<Rightarrow> string" where
  "SystemMsg_GetContent x = (case x of Some m \<Rightarrow> sys_Content m | None \<Rightarrow> '''')"

definition SystemMsg_GetType :: "SystemMsg option \<Rightarrow> int32" where
  "SystemMsg_GetType x = (case x of Some m \<Rightarrow> sys_Type m | None \<Rightarrow> 0)"

definition ErrorMsg_Reset :: "ErrorMsg \<Rightarrow> ErrorMsg" where
  "ErrorMsg_Reset x = \<lparr>err_Code = 0, err_Message = ''''\<rparr>"

definition ErrorMsg_GetCode :: "ErrorMsg option \<Rightarrow> int32" where
  "ErrorMsg_GetCode x = (case x of Some m \<Rightarrow> err_Code m | None \<Rightarrow> 0)"

definition ErrorMsg_GetMessage :: "ErrorMsg option \<Rightarrow> string" where
  "ErrorMsg_GetMessage x = (case x of Some m \<Rightarrow> err_Message m | None \<Rightarrow> '''')"

definition Frame_Reset :: "Frame \<Rightarrow> Frame" where
  "Frame_Reset x = \<lparr>f_Op = OpType_OP_UNKNOWN, f_RoomId = 0, f_UserId = 0, f_Payload = [], f_Timestamp = 0\<rparr>"

definition Frame_GetOp :: "Frame option \<Rightarrow> OpType" where
  "Frame_GetOp x = (case x of Some m \<Rightarrow> f_Op m | None \<Rightarrow> OpType_OP_UNKNOWN)"

definition Frame_GetRoomId :: "Frame option \<Rightarrow> int64" where
  "Frame_GetRoomId x = (case x of Some m \<Rightarrow> f_RoomId m | None \<Rightarrow> 0)"

definition Frame_GetUserId :: "Frame option \<Rightarrow> int64" where
  "Frame_GetUserId x = (case x of Some m \<Rightarrow> f_UserId m | None \<Rightarrow> 0)"

definition Frame_GetPayload :: "Frame option \<Rightarrow> bytes" where
  "Frame_GetPayload x = (case x of Some m \<Rightarrow> f_Payload m | None \<Rightarrow> [])"

definition Frame_GetTimestamp :: "Frame option \<Rightarrow> int64" where
  "Frame_GetTimestamp x = (case x of Some m \<Rightarrow> f_Timestamp m | None \<Rightarrow> 0)"

definition JoinRoomReq_Reset :: "JoinRoomReq \<Rightarrow> JoinRoomReq" where
  "JoinRoomReq_Reset x = \<lparr>join_RoomId = 0, join_UserId = 0, join_IsPremium = False, join_Token = ''''\<rparr>"

definition JoinRoomReq_GetRoomId :: "JoinRoomReq option \<Rightarrow> int64" where
  "JoinRoomReq_GetRoomId x = (case x of Some m \<Rightarrow> join_RoomId m | None \<Rightarrow> 0)"

definition JoinRoomReq_GetUserId :: "JoinRoomReq option \<Rightarrow> int64" where
  "JoinRoomReq_GetUserId x = (case x of Some m \<Rightarrow> join_UserId m | None \<Rightarrow> 0)"

definition JoinRoomReq_GetIsPremium :: "JoinRoomReq option \<Rightarrow> bool" where
  "JoinRoomReq_GetIsPremium x = (case x of Some m \<Rightarrow> join_IsPremium m | None \<Rightarrow> False)"

definition JoinRoomReq_GetToken :: "JoinRoomReq option \<Rightarrow> string" where
  "JoinRoomReq_GetToken x = (case x of Some m \<Rightarrow> join_Token m | None \<Rightarrow> '''')"

definition ChatMsg_Reset :: "ChatMsg \<Rightarrow> ChatMsg" where
  "ChatMsg_Reset x = \<lparr>chat_Content = ''''\<rparr>"

definition ChatMsg_GetContent :: "ChatMsg option \<Rightarrow> string" where
  "ChatMsg_GetContent x = (case x of Some m \<Rightarrow> chat_Content m | None \<Rightarrow> '''')"

definition BroadcastMsg_Reset :: "BroadcastMsg \<Rightarrow> BroadcastMsg" where
  "BroadcastMsg_Reset x = \<lparr>bm_RoomId = 0, bm_UserId = 0, bm_Body = [], bm_Timestamp = 0\<rparr>"

definition BroadcastMsg_GetRoomId :: "BroadcastMsg option \<Rightarrow> int64" where
  "BroadcastMsg_GetRoomId x = (case x of Some m \<Rightarrow> bm_RoomId m | None \<Rightarrow> 0)"

definition BroadcastMsg_GetUserId :: "BroadcastMsg option \<Rightarrow> int64" where
  "BroadcastMsg_GetUserId x = (case x of Some m \<Rightarrow> bm_UserId m | None \<Rightarrow> 0)"

definition BroadcastMsg_GetBody :: "BroadcastMsg option \<Rightarrow> bytes" where
  "BroadcastMsg_GetBody x = (case x of Some m \<Rightarrow> bm_Body m | None \<Rightarrow> [])"

definition BroadcastMsg_GetTimestamp :: "BroadcastMsg option \<Rightarrow> int64" where
  "BroadcastMsg_GetTimestamp x = (case x of Some m \<Rightarrow> bm_Timestamp m | None \<Rightarrow> 0)"

definition BroadcastEnvelope_Reset :: "BroadcastEnvelope \<Rightarrow> BroadcastEnvelope" where
  "BroadcastEnvelope_Reset x = \<lparr>e_MsgType = 0, e_IdempotencyKey = '''', e_RoomId = 0, e_UserId = 0, e_SenderConnId = '''', e_IsPremium = False, e_Payload = [], e_Timestamp = 0, e_VideoTs = 0\<rparr>"

definition BroadcastEnvelope_GetMsgType :: "BroadcastEnvelope option \<Rightarrow> int32" where
  "BroadcastEnvelope_GetMsgType x = (case x of Some m \<Rightarrow> e_MsgType m | None \<Rightarrow> 0)"

definition BroadcastEnvelope_GetIdempotencyKey :: "BroadcastEnvelope option \<Rightarrow> string" where
  "BroadcastEnvelope_GetIdempotencyKey x = (case x of Some m \<Rightarrow> e_IdempotencyKey m | None \<Rightarrow> '''')"

definition BroadcastEnvelope_GetRoomId :: "BroadcastEnvelope option \<Rightarrow> int64" where
  "BroadcastEnvelope_GetRoomId x = (case x of Some m \<Rightarrow> e_RoomId m | None \<Rightarrow> 0)"

definition BroadcastEnvelope_GetUserId :: "BroadcastEnvelope option \<Rightarrow> int64" where
  "BroadcastEnvelope_GetUserId x = (case x of Some m \<Rightarrow> e_UserId m | None \<Rightarrow> 0)"

definition BroadcastEnvelope_GetSenderConnId :: "BroadcastEnvelope option \<Rightarrow> string" where
  "BroadcastEnvelope_GetSenderConnId x = (case x of Some m \<Rightarrow> e_SenderConnId m | None \<Rightarrow> '''')"

definition BroadcastEnvelope_GetIsPremium :: "BroadcastEnvelope option \<Rightarrow> bool" where
  "BroadcastEnvelope_GetIsPremium x = (case x of Some m \<Rightarrow> e_IsPremium m | None \<Rightarrow> False)"

definition BroadcastEnvelope_GetPayload :: "BroadcastEnvelope option \<Rightarrow> bytes" where
  "BroadcastEnvelope_GetPayload x = (case x of Some m \<Rightarrow> e_Payload m | None \<Rightarrow> [])"

definition BroadcastEnvelope_GetTimestamp :: "BroadcastEnvelope option \<Rightarrow> int64" where
  "BroadcastEnvelope_GetTimestamp x = (case x of Some m \<Rightarrow> e_Timestamp m | None \<Rightarrow> 0)"

definition BroadcastEnvelope_GetVideoTs :: "BroadcastEnvelope option \<Rightarrow> int64" where
  "BroadcastEnvelope_GetVideoTs x = (case x of Some m \<Rightarrow> e_VideoTs m | None \<Rightarrow> 0)"

definition VideoTSUpdate_Reset :: "VideoTSUpdate \<Rightarrow> VideoTSUpdate" where
  "VideoTSUpdate_Reset x = \<lparr>vts_RoomId = 0, vts_VideoTs = 0, vts_SentAt = 0\<rparr>"

definition VideoTSUpdate_GetRoomId :: "VideoTSUpdate option \<Rightarrow> int64" where
  "VideoTSUpdate_GetRoomId x = (case x of Some m \<Rightarrow> vts_RoomId m | None \<Rightarrow> 0)"

definition VideoTSUpdate_GetVideoTs :: "VideoTSUpdate option \<Rightarrow> int64" where
  "VideoTSUpdate_GetVideoTs x = (case x of Some m \<Rightarrow> vts_VideoTs m | None \<Rightarrow> 0)"

definition VideoTSUpdate_GetSentAt :: "VideoTSUpdate option \<Rightarrow> int64" where
  "VideoTSUpdate_GetSentAt x = (case x of Some m \<Rightarrow> vts_SentAt m | None \<Rightarrow> 0)"

definition Heartbeat_Reset :: "Heartbeat \<Rightarrow> Heartbeat" where
  "Heartbeat_Reset x = \<lparr>hb_ClientTs = 0\<rparr>"

definition Heartbeat_GetClientTs :: "Heartbeat option \<Rightarrow> int64" where
  "Heartbeat_GetClientTs x = (case x of Some m \<Rightarrow> hb_ClientTs m | None \<Rightarrow> 0)"

text \<open>A nil message and a message that was reset read alike, in every field.\<close>

lemma SystemMsg_nil_reads_zero:
  shows "SystemMsg_GetContent (Some (SystemMsg_Reset x)) = SystemMsg_GetContent None" and "SystemMsg_GetType (Some (SystemMsg_Reset x)) = SystemMsg_GetType None"
  by (simp_all add: SystemMsg_Reset_def SystemMsg_GetContent_def SystemMsg_GetType_def)

lemma ErrorMsg_nil_reads_zero:
  shows "ErrorMsg_GetCode (Some (ErrorMsg_Reset x)) = ErrorMsg_GetCode None" and "ErrorMsg_GetMessage (Some (ErrorMsg_Reset x)) = ErrorMsg_GetMessage None"
  by (simp_all add: ErrorMsg_Reset_def ErrorMsg_GetCode_def ErrorMsg_GetMessage_def)

lemma Frame_nil_reads_zero:
  shows "Frame_GetOp (Some (Frame_Reset x)) = Frame_GetOp None" and "Frame_GetRoomId (Some (Frame_Reset x)) = Frame_GetRoomId None" and "Frame_GetUserId (Some (Frame_Reset x)) = Frame_GetUserId None" and "Frame_GetPayload (Some (Frame_Reset x)) = Frame_GetPayload None" and "Frame_GetTimestamp (Some (Frame_Reset x)) = Frame_GetTimestamp None"
  by (simp_all add: Frame_Reset_def Frame_GetOp_def Frame_GetRoomId_def Frame_GetUserId_def Frame_GetPayload_def Frame_GetTimestamp_def)

lemma JoinRoomReq_nil_reads_zero:
  shows "JoinRoomReq_GetRoomId (Some (JoinRoomReq_Reset x)) = JoinRoomReq_GetRoomId None" and "JoinRoomReq_GetUserId (Some (JoinRoomReq_Reset x)) = JoinRoomReq_GetUserId None" and "JoinRoomReq_GetIsPremium (Some (JoinRoomReq_Reset x)) = JoinRoomReq_GetIsPremium None" and "JoinRoomReq_GetToken (Some (JoinRoomReq_Reset x)) = JoinRoomReq_GetToken None"
  by (simp_all add: JoinRoomReq_Reset_def JoinRoomReq_GetRoomId_def JoinRoomReq_GetUserId_def JoinRoomReq_GetIsPremium_def JoinRoomReq_GetToken_def)

lemma ChatMsg_nil_reads_zero:
  shows "ChatMsg_GetContent (Some (ChatMsg_Reset x)) = ChatMsg_GetContent None"
  by (simp_all add: ChatMsg_Reset_def ChatMsg_GetContent_def)

lemma BroadcastMsg_nil_reads_zero:
  shows "BroadcastMsg_GetRoomId (Some (BroadcastMsg_Reset x)) = BroadcastMsg_GetRoomId None" and "BroadcastMsg_GetUserId (Some (BroadcastMsg_Reset x)) = BroadcastMsg_GetUserId None" and "BroadcastMsg_GetBody (Some (BroadcastMsg_Reset x)) = BroadcastMsg_GetBody None" and "BroadcastMsg_GetTimestamp (Some (BroadcastMsg_Reset x)) = BroadcastMsg_GetTimestamp None"
  by (simp_all add: BroadcastMsg_Reset_def BroadcastMsg_GetRoomId_def BroadcastMsg_GetUserId_def BroadcastMsg_GetBody_def BroadcastMsg_GetTimestamp_def)

lemma BroadcastEnvelope_nil_reads_zero:
  shows "BroadcastEnvelope_GetMsgType (Some (BroadcastEnvelope_Reset x)) = BroadcastEnvelope_GetMsgType None" and "BroadcastEnvelope_GetIdempotencyKey (Some (BroadcastEnvelope_Reset x)) = BroadcastEnvelope_GetIdempotencyKey None" and "BroadcastEnvelope_GetRoomId (Some (BroadcastEnvelope_Reset x)) = BroadcastEnvelope_GetRoomId None" and "BroadcastEnvelope_GetUserId (Some (BroadcastEnvelope_Reset x)) = BroadcastEnvelope_GetUserId None" and "BroadcastEnvelope_GetSenderConnId (Some (BroadcastEnvelope_Reset x)) = BroadcastEnvelope_GetSenderConnId None" and "BroadcastEnvelope_GetIsPremium (Some (BroadcastEnvelope_Reset x)) = BroadcastEnvelope_GetIsPremium None" and "BroadcastEnvelope_GetPayload (Some (BroadcastEnvelope_Reset x)) = BroadcastEnvelope_GetPayload None" and "BroadcastEnvelope_GetTimestamp (Some (BroadcastEnvelope_Reset x)) = BroadcastEnvelope_GetTimestamp None" and "BroadcastEnvelope_GetVideoTs (Some (BroadcastEnvelope_Reset x)) = BroadcastEnvelope_GetVideoTs None"
  by (simp_all add: BroadcastEnvelope_Reset_def BroadcastEnvelope_GetMsgType_def BroadcastEnvelope_GetIdempotencyKey_def BroadcastEnvelope_GetRoomId_def BroadcastEnvelope_GetUserId_def BroadcastEnvelope_GetSenderConnId_def BroadcastEnvelope_GetIsPremium_def BroadcastEnvelope_GetPayload_def BroadcastEnvelope_GetTimestamp_def BroadcastEnvelope_GetVideoTs_def)

lemma VideoTSUpdate_nil_reads_zero:
  shows "VideoTSUpdate_GetRoomId (Some (VideoTSUpdate_Reset x)) = VideoTSUpdate_GetRoomId None" and "VideoTSUpdate_GetVideoTs (Some (VideoTSUpdate_Reset x)) = VideoTSUpdate_GetVideoTs None" and "VideoTSUpdate_GetSentAt (Some (VideoTSUpdate_Reset x)) = VideoTSUpdate_GetSentAt None"
  by (simp_all add: VideoTSUpdate_Reset_def VideoTSUpdate_GetRoomId_def VideoTSUpdate_GetVideoTs_def VideoTSUpdate_GetSentAt_def)

lemma Heartbeat_nil_reads_zero:
  shows "Heartbeat_GetClientTs (Some (Heartbeat_Reset x)) = Heartbeat_GetClientTs None"
  by (simp_all add: Heartbeat_Reset_def Heartbeat_GetClientTs_def)

end
