(* ===== verification/Edge_Session.thy ===== *)
theory Edge_Session
  imports Hot_Levels Wire_Messages "HOL-Library.Multiset"
begin

text \<open>
  The sessions of an edge node: \<open>Danmaku\<close> and \<open>UserSession\<close> of \<open>internal/common/types.go\<close>, the session manager
  of \<open>_deprecated/edge/session.go\<close> and the room map of \<open>_deprecated/edge/room_map.go\<close>.

  A session is shared by pointer between the tables, so the sessions ever made are a store, a list, and the
  tables hold places in it. A room is held by its map alone.
\<close>

section \<open>A session and its buffer\<close>

record Danmaku =
  d_RoomId :: int64
  d_UserId :: int64
  d_SenderConnId :: string
  d_VideoTS :: int64
  d_SendTS :: int64
  d_Payload :: bytes
  d_IsPremium :: bool

definition NewDanmaku :: "int64 \<Rightarrow> int64 \<Rightarrow> int64 \<Rightarrow> string \<Rightarrow> int64 \<Rightarrow> bytes \<Rightarrow> bool \<Rightarrow> Danmaku" where
  "NewDanmaku now roomId userId senderConnId videoTS payload isPremium =
    \<lparr>d_RoomId = roomId, d_UserId = userId, d_SenderConnId = senderConnId, d_VideoTS = videoTS, d_SendTS = now,
     d_Payload = payload, d_IsPremium = isPremium\<rparr>"

record UserSession =
  us_UserId :: int64
  us_RoomId :: int64
  us_ConnId :: string
  us_LoopIdx :: int
  us_IsPremium :: bool
  us_VideoTS :: int64
  us_DelayDelta :: int64
  us_JoinedAt :: int64
  buffer :: "Danmaku list"

definition NewUserSession :: "int64 \<Rightarrow> int64 \<Rightarrow> int64 \<Rightarrow> string \<Rightarrow> int \<Rightarrow> bool \<Rightarrow> UserSession" where
  "NewUserSession now userId roomId connId loopIdx isPremium =
    \<lparr>us_UserId = userId, us_RoomId = roomId, us_ConnId = connId, us_LoopIdx = loopIdx, us_IsPremium = isPremium,
     us_VideoTS = 0, us_DelayDelta = 0, us_JoinedAt = now, buffer = []\<rparr>"

definition OnDanmaku :: "Danmaku \<Rightarrow> UserSession \<Rightarrow> UserSession" where
  "OnDanmaku d s = s\<lparr>buffer := buffer s @ [d]\<rparr>"

text \<open>The loop of \<open>FlushDueDanmaku\<close>: the due and the remaining danmaku, in buffer order.\<close>

fun split_due :: "int64 \<Rightarrow> Danmaku list \<Rightarrow> Danmaku list \<Rightarrow> Danmaku list \<Rightarrow> Danmaku list \<times> Danmaku list" where
  "split_due visibleTS due remaining [] = (due, remaining)"
| "split_due visibleTS due remaining (d # ds) =
    (if sint (d_VideoTS d) \<le> sint visibleTS then split_due visibleTS (due @ [d]) remaining ds
     else split_due visibleTS due (remaining @ [d]) ds)"

definition FlushDueDanmaku :: "int64 \<Rightarrow> UserSession \<Rightarrow> Danmaku list \<times> UserSession" where
  "FlushDueDanmaku visibleTS s =
    (if length (buffer s) = 0 then ([], s)
     else case split_due visibleTS [] [] (buffer s) of
            (due, remaining) \<Rightarrow> (due, s\<lparr>buffer := remaining\<rparr>))"

definition BufferLen :: "UserSession \<Rightarrow> nat" where
  "BufferLen s = length (buffer s)"

definition DropOverflow :: "nat \<Rightarrow> UserSession \<Rightarrow> nat \<times> UserSession" where
  "DropOverflow maxSize s =
    (if length (buffer s) \<le> maxSize then (0, s)
     else let dropCount = length (buffer s) - maxSize in (dropCount, s\<lparr>buffer := drop dropCount (buffer s)\<rparr>))"

lemma split_due_filter:
  "split_due v due remaining ds =
    (due @ filter (\<lambda>d. sint (d_VideoTS d) \<le> sint v) ds, remaining @ filter (\<lambda>d. \<not> sint (d_VideoTS d) \<le> sint v) ds)"
  by (induction ds arbitrary: due remaining) auto

lemma FlushDueDanmaku_eq:
  "FlushDueDanmaku v s =
    (filter (\<lambda>d. sint (d_VideoTS d) \<le> sint v) (buffer s),
     s\<lparr>buffer := filter (\<lambda>d. \<not> sint (d_VideoTS d) \<le> sint v) (buffer s)\<rparr>)"
  by (simp add: FlushDueDanmaku_def split_due_filter)

section \<open>The session manager\<close>

type_synonym store = "UserSession list"

record SessionManager =
  sessions :: "(int64 \<times> nat) list"
  roomSessions :: "int64 \<rightharpoonup> nat list"
  totalSessions :: int64
  activeCount :: int64

definition NewSessionManager :: SessionManager where
  "NewSessionManager = \<lparr>sessions = [], roomSessions = Map.empty, totalSessions = 0, activeCount = 0\<rparr>"

definition room_list :: "SessionManager \<Rightarrow> int64 \<Rightarrow> nat list" where
  "room_list m roomId = (case roomSessions m roomId of None \<Rightarrow> [] | Some rs \<Rightarrow> rs)"

definition CreateSession ::
  "int64 \<Rightarrow> int64 \<Rightarrow> int64 \<Rightarrow> string \<Rightarrow> int \<Rightarrow> bool \<Rightarrow> store \<Rightarrow> SessionManager \<Rightarrow>
   nat \<times> store \<times> SessionManager" where
  "CreateSession now userId roomId connId loopIdx isPremium st m =
    (case map_of (sessions m) userId of
       Some existing \<Rightarrow> (existing, st, m)
     | None \<Rightarrow>
       let session = length st
       in (session, st @ [NewUserSession now userId roomId connId loopIdx isPremium],
           m\<lparr>sessions := AList.update userId session (sessions m),
             roomSessions := (roomSessions m)(roomId \<mapsto> room_list m roomId @ [session]),
             totalSessions := totalSessions m + 1, activeCount := activeCount m + 1\<rparr>))"

definition GetSession :: "SessionManager \<Rightarrow> int64 \<Rightarrow> nat option" where
  "GetSession m userId = map_of (sessions m) userId"

definition RemoveSession :: "int64 \<Rightarrow> store \<Rightarrow> SessionManager \<Rightarrow> SessionManager" where
  "RemoveSession userId st m =
    (case map_of (sessions m) userId of
       None \<Rightarrow> m
     | Some session \<Rightarrow>
       let roomId = us_RoomId (st ! session);
           m = m\<lparr>sessions := AList.delete userId (sessions m)\<rparr>;
           m = (case roomSessions m roomId of
                  None \<Rightarrow> m
                | Some rs \<Rightarrow>
                  let newSessions = filter (\<lambda>s. us_UserId (st ! s) \<noteq> userId) rs
                  in if length newSessions = 0 then m\<lparr>roomSessions := (roomSessions m)(roomId := None)\<rparr>
                     else m\<lparr>roomSessions := (roomSessions m)(roomId \<mapsto> newSessions)\<rparr>)
       in m\<lparr>activeCount := activeCount m - 1\<rparr>)"

definition GetRoomSessions :: "SessionManager \<Rightarrow> int64 \<Rightarrow> nat list" where
  "GetRoomSessions m roomId = room_list m roomId"

definition GetRoomSessionCount :: "SessionManager \<Rightarrow> int64 \<Rightarrow> nat" where
  "GetRoomSessionCount m roomId = length (room_list m roomId)"

definition GetTotalSessionCount :: "SessionManager \<Rightarrow> int64" where
  "GetTotalSessionCount m = totalSessions m"

definition GetActiveSessionCount :: "SessionManager \<Rightarrow> int64" where
  "GetActiveSessionCount m = activeCount m"

definition session_UpdateVideoTS :: "int64 \<Rightarrow> int64 \<Rightarrow> SessionManager \<Rightarrow> store \<Rightarrow> store" where
  "session_UpdateVideoTS userId videoTS m st =
    (case GetSession m userId of
       None \<Rightarrow> st
     | Some session \<Rightarrow> st[session := (st ! session)\<lparr>us_VideoTS := videoTS\<rparr>])"

definition GetAllSessions :: "SessionManager \<Rightarrow> nat list" where
  "GetAllSessions m = map snd (sessions m)"

section \<open>The room map\<close>

record RoomInfo =
  ri_RoomId :: int64
  ri_CurrentVideoTS :: int64
  ri_LastUpdateAt :: int64
  ri_connCount :: int32
  ri_sessions :: "(int64 \<times> nat) list"

record RoomMap =
  rooms :: "(int64 \<times> RoomInfo) list"
  totalRooms :: int64
  totalConns :: int64

definition NewRoomMap :: RoomMap where
  "NewRoomMap = \<lparr>rooms = [], totalRooms = 0, totalConns = 0\<rparr>"

definition rm_GetOrCreate :: "int64 \<Rightarrow> RoomMap \<Rightarrow> RoomInfo \<times> RoomMap" where
  "rm_GetOrCreate roomId m =
    (case map_of (rooms m) roomId of
       Some room \<Rightarrow> (room, m)
     | None \<Rightarrow>
       let room = \<lparr>ri_RoomId = roomId, ri_CurrentVideoTS = 0, ri_LastUpdateAt = 0, ri_connCount = 0, ri_sessions = []\<rparr>
       in (room, m\<lparr>rooms := AList.update roomId room (rooms m), totalRooms := totalRooms m + 1\<rparr>))"

definition rm_AddSession :: "int64 \<Rightarrow> nat \<Rightarrow> store \<Rightarrow> RoomMap \<Rightarrow> RoomMap" where
  "rm_AddSession roomId session st m =
    (case rm_GetOrCreate roomId m of
       (room, m) \<Rightarrow>
         let s = st ! session;
             room = room\<lparr>ri_sessions := AList.update (us_UserId s) session (ri_sessions room),
                         ri_LastUpdateAt := us_JoinedAt s, ri_connCount := ri_connCount room + 1\<rparr>
         in m\<lparr>rooms := AList.update roomId room (rooms m), totalConns := totalConns m + 1\<rparr>)"

definition rm_RemoveSession :: "int64 \<Rightarrow> int64 \<Rightarrow> RoomMap \<Rightarrow> RoomMap" where
  "rm_RemoveSession roomId userId m =
    (case map_of (rooms m) roomId of
       None \<Rightarrow> m
     | Some room \<Rightarrow>
       if map_of (ri_sessions room) userId \<noteq> None then
         let room = room\<lparr>ri_sessions := AList.delete userId (ri_sessions room), ri_connCount := ri_connCount room - 1\<rparr>
         in m\<lparr>rooms := AList.update roomId room (rooms m), totalConns := totalConns m - 1\<rparr>
       else m)"

definition rm_GetSessions :: "RoomMap \<Rightarrow> int64 \<Rightarrow> nat list" where
  "rm_GetSessions m roomId =
    (case map_of (rooms m) roomId of None \<Rightarrow> [] | Some room \<Rightarrow> map snd (ri_sessions room))"

definition GetConnCount :: "RoomMap \<Rightarrow> int64 \<Rightarrow> int32" where
  "GetConnCount m roomId = (case map_of (rooms m) roomId of None \<Rightarrow> 0 | Some room \<Rightarrow> ri_connCount room)"

definition rm_GetHotLevel :: "RoomMap \<Rightarrow> int64 \<Rightarrow> HotLevel" where
  "rm_GetHotLevel m roomId = HotLevelFromCount (GetConnCount m roomId)"

definition rm_UpdateVideoTS :: "int64 \<Rightarrow> int64 \<Rightarrow> int64 \<Rightarrow> RoomMap \<Rightarrow> RoomMap" where
  "rm_UpdateVideoTS now roomId videoTS m =
    (case map_of (rooms m) roomId of
       None \<Rightarrow> m
     | Some room \<Rightarrow>
       m\<lparr>rooms := AList.update roomId (room\<lparr>ri_CurrentVideoTS := videoTS, ri_LastUpdateAt := now\<rparr>) (rooms m)\<rparr>)"

definition GetVideoTS :: "RoomMap \<Rightarrow> int64 \<Rightarrow> int64" where
  "GetVideoTS m roomId = (case map_of (rooms m) roomId of None \<Rightarrow> 0 | Some room \<Rightarrow> ri_CurrentVideoTS room)"

definition GetTotalRooms :: "RoomMap \<Rightarrow> int64" where
  "GetTotalRooms m = totalRooms m"

definition GetTotalConns :: "RoomMap \<Rightarrow> int64" where
  "GetTotalConns m = totalConns m"

definition GetAllRooms :: "RoomMap \<Rightarrow> RoomInfo list" where
  "GetAllRooms m = map snd (rooms m)"

section \<open>The tables of the session manager agree\<close>

definition sm_ok :: "store \<Rightarrow> SessionManager \<Rightarrow> bool" where
  "sm_ok st m \<longleftrightarrow>
     keys_distinct (sessions m) \<and>
     (\<forall>u r. map_of (sessions m) u = Some r \<longrightarrow>
        r < length st \<and> us_UserId (st ! r) = u \<and> r \<in> set (room_list m (us_RoomId (st ! r)))) \<and>
     (\<forall>\<rho>. distinct (room_list m \<rho>) \<and> roomSessions m \<rho> \<noteq> Some [] \<and>
        (\<forall>r \<in> set (room_list m \<rho>). r < length st \<and> us_RoomId (st ! r) = \<rho> \<and>
           map_of (sessions m) (us_UserId (st ! r)) = Some r)) \<and>
     activeCount m = of_nat (length (sessions m)) \<and> totalSessions m = of_nat (length st)"

lemma sm_okD:
  assumes "sm_ok st m"
  shows "keys_distinct (sessions m)"
    and "map_of (sessions m) u = Some r \<Longrightarrow> r < length st \<and> us_UserId (st ! r) = u \<and> r \<in> set (room_list m (us_RoomId (st ! r)))"
    and "distinct (room_list m \<rho>)" and "roomSessions m \<rho> \<noteq> Some []"
    and "r \<in> set (room_list m \<rho>) \<Longrightarrow> r < length st \<and> us_RoomId (st ! r) = \<rho> \<and> map_of (sessions m) (us_UserId (st ! r)) = Some r"
    and "activeCount m = of_nat (length (sessions m))" and "totalSessions m = of_nat (length st)"
  using assms unfolding sm_ok_def by blast+

lemma sm_okI:
  assumes "keys_distinct (sessions m)"
    and "\<And>u r. map_of (sessions m) u = Some r \<Longrightarrow> r < length st \<and> us_UserId (st ! r) = u \<and> r \<in> set (room_list m (us_RoomId (st ! r)))"
    and "\<And>\<rho>. distinct (room_list m \<rho>)" and "\<And>\<rho>. roomSessions m \<rho> \<noteq> Some []"
    and "\<And>r \<rho>. r \<in> set (room_list m \<rho>) \<Longrightarrow> r < length st \<and> us_RoomId (st ! r) = \<rho> \<and> map_of (sessions m) (us_UserId (st ! r)) = Some r"
    and "activeCount m = of_nat (length (sessions m))" and "totalSessions m = of_nat (length st)"
  shows "sm_ok st m"
  using assms unfolding sm_ok_def by blast

lemma sm_ok_New: "sm_ok [] NewSessionManager"
  by (simp add: sm_ok_def NewSessionManager_def room_list_def)

text \<open>The tables only read the user and the room of a session, which never change.\<close>

definition same_owners :: "store \<Rightarrow> store \<Rightarrow> bool" where
  "same_owners st st' \<longleftrightarrow> length st' = length st \<and>
     (\<forall>r < length st. us_UserId (st' ! r) = us_UserId (st ! r) \<and> us_RoomId (st' ! r) = us_RoomId (st ! r))"

lemma sm_ok_same_owners:
  assumes "sm_ok st m" and "same_owners st st'"
  shows "sm_ok st' m"
proof -
  note m = sm_okD [OF assms(1)]
  have s: "length st' = length st" "r < length st \<Longrightarrow> us_UserId (st' ! r) = us_UserId (st ! r)"
    "r < length st \<Longrightarrow> us_RoomId (st' ! r) = us_RoomId (st ! r)" for r
    using assms(2) by (auto simp: same_owners_def)
  show ?thesis
    unfolding sm_ok_def using m s by (metis (no_types, lifting))
qed

lemma room_list_Create:
  assumes "map_of (sessions m) u = None"
  shows "room_list (snd (snd (CreateSession now u \<rho> cid l pr st m))) \<rho>' =
    (if \<rho>' = \<rho> then room_list m \<rho> @ [length st] else room_list m \<rho>')"
  using assms by (simp add: CreateSession_def room_list_def Let_def)

lemma sm_ok_Create:
  assumes ok: "sm_ok st m" and c: "CreateSession now u \<rho> cid l pr st m = (r, st', m')"
  shows "sm_ok st' m' \<and> map_of (sessions m') u = Some r \<and> us_UserId (st' ! r) = u"
proof (cases "map_of (sessions m) u")
  case (Some existing)
  then show ?thesis using ok c sm_okD(2) [OF ok Some] by (simp add: CreateSession_def)
next
  case None
  note m = sm_okD [OF ok]
  let ?new = "NewUserSession now u \<rho> cid l pr"
  have st': "st' = st @ [?new]" "r = length st"
    and ses: "map_of (sessions m') = (map_of (sessions m))(u \<mapsto> length st)"
    and len: "length (sessions m') = Suc (length (sessions m))"
    and keys: "keys_distinct (sessions m')"
    and cnt: "activeCount m' = activeCount m + 1" "totalSessions m' = totalSessions m + 1"
    using c None m(1) by (auto simp: CreateSession_def Let_def length_alist_update distinct_update)
  have rl: "room_list m' \<rho>' = (if \<rho>' = \<rho> then room_list m \<rho> @ [length st] else room_list m \<rho>')" for \<rho>'
    using room_list_Create [OF None, of now \<rho> cid l pr st \<rho>'] c by simp
  have ne: "roomSessions m' \<rho>' \<noteq> Some []" for \<rho>'
    using c None m(4) [of \<rho>'] by (auto simp: CreateSession_def Let_def split: if_splits)
  have new: "us_UserId ?new = u" "us_RoomId ?new = \<rho>" by (simp_all add: NewUserSession_def)
  have old: "us_UserId (st' ! i) = us_UserId (st ! i)" "us_RoomId (st' ! i) = us_RoomId (st ! i)"
    if "i < length st" for i using that by (simp_all add: st' nth_append)
  have last: "st' ! length st = ?new" by (simp add: st')
  have notu: "us_UserId (st ! i) \<noteq> u" if "i \<in> set (room_list m \<rho>')" for i \<rho>'
    using m(5) [OF that] None by auto
  have fresh: "length st \<notin> set (room_list m \<rho>')" for \<rho>' using m(5) by blast
  have A: "i < length st' \<and> us_UserId (st' ! i) = v \<and> i \<in> set (room_list m' (us_RoomId (st' ! i)))"
    if "map_of (sessions m') v = Some i" for v i
  proof (cases "v = u")
    case True
    then have i: "i = length st" using that by (simp add: ses)
    have "length st \<in> set (room_list m' \<rho>)" by (simp add: rl)
    then show ?thesis unfolding i last new using True by (simp add: st'(1))
  next
    case False
    then have "map_of (sessions m) v = Some i" using that by (simp add: ses)
    from m(2) [OF this] show ?thesis by (auto simp: old rl) (simp add: st')+
  qed
  have B: "i < length st' \<and> us_RoomId (st' ! i) = \<rho>' \<and> map_of (sessions m') (us_UserId (st' ! i)) = Some i"
    if "i \<in> set (room_list m' \<rho>')" for i \<rho>'
  proof (cases "i = length st")
    case True
    then show ?thesis using that fresh [of \<rho>'] by (auto simp: rl last new ses st' split: if_splits)
  next
    case False
    then have i: "i \<in> set (room_list m \<rho>')" using that by (auto simp: rl split: if_splits)
    from m(5) [OF i] notu [OF i] show ?thesis by (auto simp: old ses) (simp add: st')
  qed
  have "distinct (room_list m' \<rho>')" for \<rho>' using m(3) fresh by (simp add: rl)
  then have "sm_ok st' m'"
    using A B keys ne by (simp add: sm_ok_def cnt len m(6,7) st'(1))
  then show ?thesis by (simp add: ses st' new)
qed

lemma room_list_Remove:
  assumes ok: "sm_ok st m"
  shows "room_list (RemoveSession u st m) \<rho> = filter (\<lambda>s. us_UserId (st ! s) \<noteq> u) (room_list m \<rho>)"
proof (cases "map_of (sessions m) u")
  case None
  then have "\<forall>s \<in> set (room_list m \<rho>). us_UserId (st ! s) \<noteq> u" using sm_okD(5) [OF ok] by fastforce
  then show ?thesis by (simp add: RemoveSession_def None)
next
  case (Some r)
  note m = sm_okD [OF ok]
  from m(2) [OF Some] have r: "us_UserId (st ! r) = u" "r \<in> set (room_list m (us_RoomId (st ! r)))" by auto
  show ?thesis
  proof (cases "\<rho> = us_RoomId (st ! r)")
    case True
    then show ?thesis using Some r(2) by (simp add: RemoveSession_def room_list_def Let_def split: option.splits)
  next
    case False
    have "us_UserId (st ! s) \<noteq> u" if "s \<in> set (room_list m \<rho>)" for s
      using m(5) [OF that] Some False by auto
    then have "filter (\<lambda>s. us_UserId (st ! s) \<noteq> u) (room_list m \<rho>) = room_list m \<rho>" by simp
    then show ?thesis using Some False by (simp add: RemoveSession_def room_list_def Let_def split: option.splits)
  qed
qed

lemma sm_ok_Remove:
  assumes ok: "sm_ok st m"
  shows "sm_ok st (RemoveSession u st m)"
proof (cases "map_of (sessions m) u")
  case None
  then show ?thesis using ok by (simp add: RemoveSession_def)
next
  case (Some r)
  note m = sm_okD [OF ok]
  let ?m = "RemoveSession u st m"
  have ses: "sessions ?m = AList.delete u (sessions m)" "totalSessions ?m = totalSessions m"
    "activeCount ?m = activeCount m - 1"
    using Some by (auto simp: RemoveSession_def Let_def split: option.splits)
  have pos: "0 < length (sessions m)" using map_of_Some_length [OF Some] .
  have len: "length (sessions ?m) = length (sessions m) - 1"
    using Some m(1) by (simp add: ses length_alist_delete)
  have act: "activeCount ?m = of_nat (length (sessions ?m))"
    using pos by (cases "sessions m") (simp_all add: ses(3) m(6) len)
  have keys: "keys_distinct (sessions ?m)" using m(1) by (simp add: ses distinct_delete)
  have ne: "roomSessions ?m \<rho> \<noteq> Some []" for \<rho>
    using Some m(4) [of \<rho>] by (auto simp: RemoveSession_def Let_def split: option.splits if_splits)
  have A: "i < length st \<and> us_UserId (st ! i) = v \<and> i \<in> set (room_list ?m (us_RoomId (st ! i)))"
    if "map_of (sessions ?m) v = Some i" for v i
    using that m(2) [of v i] by (auto simp: ses room_list_Remove [OF ok] split: if_splits)
  have B: "i < length st \<and> us_RoomId (st ! i) = \<rho> \<and> map_of (sessions ?m) (us_UserId (st ! i)) = Some i"
    if "i \<in> set (room_list ?m \<rho>)" for i \<rho>
    using that m(5) [of i \<rho>] by (auto simp: ses room_list_Remove [OF ok])
  show ?thesis
    by (rule sm_okI [OF keys A _ ne B act]) (simp_all add: ses(2) m(3,7) room_list_Remove [OF ok])
qed

lemma same_owners_UpdateVideoTS: "same_owners st (session_UpdateVideoTS u ts m st)"
proof (cases "GetSession m u")
  case None
  then show ?thesis by (simp add: same_owners_def session_UpdateVideoTS_def)
next
  case (Some s)
  have "us_UserId (st[s := (st ! s)\<lparr>us_VideoTS := ts\<rparr>] ! r) = us_UserId (st ! r) \<and>
        us_RoomId (st[s := (st ! s)\<lparr>us_VideoTS := ts\<rparr>] ! r) = us_RoomId (st ! r)" if "r < length st" for r
    using that by (cases "r = s") simp_all
  then show ?thesis using Some by (simp add: same_owners_def session_UpdateVideoTS_def)
qed

datatype session_op =
    Create int64 int64 int64 string int bool
  | Remove int64
  | SetVideo int64 int64

fun session_step :: "session_op \<Rightarrow> store \<times> SessionManager \<Rightarrow> store \<times> SessionManager" where
  "session_step (Create now u \<rho> cid l pr) (st, m) = snd (CreateSession now u \<rho> cid l pr st m)"
| "session_step (Remove u) (st, m) = (st, RemoveSession u st m)"
| "session_step (SetVideo u ts) (st, m) = (session_UpdateVideoTS u ts m st, m)"

definition session_run :: "session_op list \<Rightarrow> store \<times> SessionManager" where
  "session_run ops = foldl (\<lambda>s op. session_step op s) ([], NewSessionManager) ops"

lemma sm_ok_run: "session_run ops = (st, m) \<Longrightarrow> sm_ok st m"
proof -
  have "case session_run ops of (st, m) \<Rightarrow> sm_ok st m"
    unfolding session_run_def
  proof (rule foldl_invariant)
    show "case ([], NewSessionManager) of (st, m) \<Rightarrow> sm_ok st m" by (simp add: sm_ok_New)
    fix s op assume s: "case s of (st, m) \<Rightarrow> sm_ok st m"
    obtain st m where sm: "s = (st, m)" by (cases s)
    with s have ok: "sm_ok st m" by simp
    show "case session_step op s of (st, m) \<Rightarrow> sm_ok st m"
    proof (cases op)
      case (Create now u \<rho> cid l pr)
      then show ?thesis using sm_ok_Create [OF ok, of now u \<rho> cid l pr] by (auto simp: sm split: prod.splits) (metis prod.collapse)
    next
      case (Remove u)
      then show ?thesis using sm_ok_Remove [OF ok] by (simp add: sm)
    next
      case (SetVideo u ts)
      then show ?thesis using sm_ok_same_owners [OF ok same_owners_UpdateVideoTS] by (simp add: sm)
    qed
  qed
  then show "session_run ops = (st, m) \<Longrightarrow> sm_ok st m" by simp
qed

section \<open>Properties\<close>

text \<open>
  C27: the tables of the session manager agree. After any sequence of creations, removals and video
  updates, the sessions listed for a room are, without repetition, exactly the current sessions of
  users whose session is of that room, every user's session is the user's own, and the active
  count is the number of current sessions.
\<close>

theorem session_tables_agree:
  assumes "session_run ops = (st, m)"
  shows "distinct (GetRoomSessions m \<rho>) \<and>
    set (GetRoomSessions m \<rho>) = {r. \<exists>u. GetSession m u = Some r \<and> us_UserId (st ! r) = u \<and> us_RoomId (st ! r) = \<rho>} \<and>
    (\<forall>u r. GetSession m u = Some r \<longrightarrow> us_UserId (st ! r) = u) \<and>
    GetActiveSessionCount m = of_nat (card (set (GetAllSessions m)))"
proof -
  note m = sm_okD [OF sm_ok_run [OF assms]]
  have own: "GetSession m u = Some r \<Longrightarrow> us_UserId (st ! r) = u" for u r
    using m(2) by (simp add: GetSession_def)
  have "inj_on snd (set (sessions m))"
  proof (rule inj_onI)
    fix x y assume xy: "x \<in> set (sessions m)" "y \<in> set (sessions m)" "snd x = snd y"
    obtain u r v where "x = (u, r)" "y = (v, r)" using xy(3) by (cases x; cases y) auto
    moreover from this xy have "map_of (sessions m) u = Some r" "map_of (sessions m) v = Some r"
      using m(1) by auto
    ultimately show "x = y" using m(2) by blast
  qed
  then have "card (set (GetAllSessions m)) = length (sessions m)"
    using m(1) by (simp add: GetAllSessions_def card_image distinct_card distinct_map)
  moreover have "set (GetRoomSessions m \<rho>) = {r. \<exists>u. GetSession m u = Some r \<and> us_UserId (st ! r) = u \<and> us_RoomId (st ! r) = \<rho>}"
    using m(2,5) by (fastforce simp: GetRoomSessions_def GetSession_def)
  ultimately show ?thesis
    using m(3,6) own by (simp add: GetRoomSessions_def GetActiveSessionCount_def)
qed

theorem session_tables_agree_witness:
  "GetRoomSessions (snd (session_run [Create 1 7 5 ''a'' 0 False, Create 2 8 5 ''b'' 0 True, Remove 7])) 5 = [1] \<and>
   distinct (GetRoomSessions (snd (session_run [Create 1 7 5 ''a'' 0 False, Create 2 8 5 ''b'' 0 True, Remove 7])) 5)"
proof -
  let ?ops = "[Create 1 7 5 ''a'' 0 False, Create 2 8 5 ''b'' 0 True, Remove 7]"
  have "session_run ?ops = (fst (session_run ?ops), snd (session_run ?ops))" by simp
  from session_tables_agree [OF this, of 5]
  have "distinct (GetRoomSessions (snd (session_run ?ops)) 5)" by blast
  then show ?thesis
    by (simp add: session_run_def CreateSession_def RemoveSession_def NewSessionManager_def NewUserSession_def
        GetRoomSessions_def room_list_def Let_def)
qed

end
