(* ===== verification/Edge_Sync.thy ===== *)
theory Edge_Sync
  imports Edge_Session Gateway_Server
begin

text \<open>
  \<open>_deprecated/edge/video_sync.go\<close> and \<open>consumer.go\<close>: danmaku that arrive from Kafka are put into the buffer of
  every session of their room, and a ticker takes out of each buffer what the room's video has reached.

  The two goroutines share the sessions, the session manager and the room map: they are one record, and
  a run is a sequence of messages and ticks in any order.
\<close>

section \<open>The engine\<close>

record VideoSyncEngine =
  videoDelayMs :: int64
  syncIntervalMs :: int64
  maxBufferSize :: nat

definition NewVideoSyncEngine :: VideoSyncEngine where
  "NewVideoSyncEngine =
    \<lparr>videoDelayMs = DefaultVideoDelayMs, syncIntervalMs = VideoSyncIntervalMs, maxBufferSize = MaxBufferPerSession\<rparr>"

record edge_tables =
  e_store :: store
  e_sessions :: SessionManager
  e_rooms :: RoomMap
  e_engine :: VideoSyncEngine

text \<open>What a tick does outside the tables: the calls of \<open>onDueDanmakus\<close> and the drops that are logged.\<close>

datatype sync_event = DueDanmakus nat "Danmaku list" | Dropped nat nat

definition dropOverflow :: "VideoSyncEngine \<Rightarrow> nat \<Rightarrow> UserSession \<Rightarrow> sync_event list \<times> UserSession" where
  "dropOverflow e i s =
    (case DropOverflow (maxBufferSize e) s of
       (dropped, s') \<Rightarrow> (if dropped > 0 then [Dropped i dropped] else [], s'))"

definition sync_session :: "VideoSyncEngine \<Rightarrow> int64 \<Rightarrow> nat \<Rightarrow> store \<Rightarrow> sync_event list \<times> store" where
  "sync_session e roomVideoTS i st =
    (let s = st ! i;
         userVisibleTS = roomVideoTS - videoDelayMs e + us_DelayDelta s
     in case FlushDueDanmaku userVisibleTS s of
          (dueDanmakus, s) \<Rightarrow>
            let due = (if length dueDanmakus > 0 then [DueDanmakus i dueDanmakus] else [])
            in case (if BufferLen s > maxBufferSize e then dropOverflow e i s else ([], s)) of
                 (over, s) \<Rightarrow> (due @ over, st[i := s]))"

fun sync_sessions :: "VideoSyncEngine \<Rightarrow> int64 \<Rightarrow> nat list \<Rightarrow> store \<Rightarrow> sync_event list \<times> store" where
  "sync_sessions e ts [] st = ([], st)"
| "sync_sessions e ts (i # is) st =
    (case sync_session e ts i st of
       (es, st) \<Rightarrow> (case sync_sessions e ts is st of (es', st) \<Rightarrow> (es @ es', st)))"

fun sync_rooms :: "VideoSyncEngine \<Rightarrow> RoomMap \<Rightarrow> RoomInfo list \<Rightarrow> store \<Rightarrow> sync_event list \<times> store" where
  "sync_rooms e m [] st = ([], st)"
| "sync_rooms e m (room # rs) st =
    (let roomVideoTS = ri_CurrentVideoTS room
     in if sint roomVideoTS \<le> 0 then sync_rooms e m rs st
        else case sync_sessions e roomVideoTS (rm_GetSessions m (ri_RoomId room)) st of
               (es, st) \<Rightarrow> (case sync_rooms e m rs st of (es', st) \<Rightarrow> (es @ es', st)))"

definition sync_tick :: "edge_tables \<Rightarrow> sync_event list \<times> edge_tables" where
  "sync_tick t =
    (case sync_rooms (e_engine t) (e_rooms t) (GetAllRooms (e_rooms t)) (e_store t) of
       (es, st) \<Rightarrow> (es, t\<lparr>e_store := st\<rparr>))"

definition engine_UpdateVideoTS :: "int64 \<Rightarrow> int64 \<Rightarrow> int64 \<Rightarrow> edge_tables \<Rightarrow> edge_tables" where
  "engine_UpdateVideoTS now roomId videoTS t = t\<lparr>e_rooms := rm_UpdateVideoTS now roomId videoTS (e_rooms t)\<rparr>"

definition SetVideoDelay :: "int64 \<Rightarrow> VideoSyncEngine \<Rightarrow> VideoSyncEngine" where
  "SetVideoDelay delayMs e =
    (if sint delayMs > 0 \<and> sint delayMs \<le> sint MaxVideoDelayMs then e\<lparr>videoDelayMs := delayMs\<rparr> else e)"

definition SetUserDelayDelta :: "int64 \<Rightarrow> int64 \<Rightarrow> edge_tables \<Rightarrow> edge_tables" where
  "SetUserDelayDelta userId deltaMs t =
    (case GetSession (e_sessions t) userId of
       None \<Rightarrow> t
     | Some i \<Rightarrow> t\<lparr>e_store := (e_store t)[i := (e_store t ! i)\<lparr>us_DelayDelta := deltaMs\<rparr>]\<rparr>)"

section \<open>The consumer\<close>

record edge_codec = gateway_codec +
  Unmarshal_VideoTS :: "bytes \<Rightarrow> VideoTSUpdate option"

definition danmaku_of :: "BroadcastEnvelope \<Rightarrow> Danmaku" where
  "danmaku_of envelope =
    \<lparr>d_RoomId = e_RoomId envelope, d_UserId = e_UserId envelope, d_SenderConnId = e_SenderConnId envelope,
     d_VideoTS = e_VideoTs envelope, d_SendTS = e_Timestamp envelope, d_Payload = e_Payload envelope,
     d_IsPremium = e_IsPremium envelope\<rparr>"

definition handleDanmaku :: "BroadcastEnvelope \<Rightarrow> edge_tables \<Rightarrow> edge_tables" where
  "handleDanmaku envelope t =
    (let roomSessions = GetRoomSessions (e_sessions t) (e_RoomId envelope)
     in if length roomSessions = 0 then t
        else let danmaku = danmaku_of envelope
             in t\<lparr>e_store := foldl (\<lambda>st i. st[i := OnDanmaku danmaku (st ! i)]) (e_store t) roomSessions\<rparr>)"

definition edge_handleVideoTS :: "int64 \<Rightarrow> VideoTSUpdate \<Rightarrow> edge_tables \<Rightarrow> edge_tables" where
  "edge_handleVideoTS now update t = engine_UpdateVideoTS now (vts_RoomId update) (vts_VideoTs update) t"

definition handleMessage :: "int64 \<Rightarrow> edge_codec \<Rightarrow> bytes \<Rightarrow> edge_tables \<Rightarrow> edge_tables" where
  "handleMessage now cdc data t =
    (case Unmarshal_Envelope cdc data of
       Some envelope \<Rightarrow> handleDanmaku envelope t
     | None \<Rightarrow>
       (case Unmarshal_VideoTS cdc data of
          Some videoTS \<Rightarrow> edge_handleVideoTS now videoTS t
        | None \<Rightarrow> t))"

definition NewConsumer_groupId :: "string \<Rightarrow> string" where
  "NewConsumer_groupId nodeId = ''edge-'' @ nodeId"

text \<open>
  One round of the loop: \<open>fetched\<close> is what the Kafka reader gives, \<open>ctx_done\<close> whether the context is done. An
  error, also one of \<open>handleMessage\<close> (which gives none), is logged; every message fetched is committed.
\<close>

datatype consumed = LoopReturns | LoopGoesOn edge_tables "bytes option"

definition consume_round :: "int64 \<Rightarrow> edge_codec \<Rightarrow> bool \<Rightarrow> bytes option \<Rightarrow> bool \<Rightarrow> edge_tables \<Rightarrow> consumed" where
  "consume_round now cdc done_before fetched done_after t =
    (if done_before then LoopReturns
     else case fetched of
            None \<Rightarrow> if done_after then LoopReturns else LoopGoesOn t None
          | Some msg \<Rightarrow> LoopGoesOn (handleMessage now cdc msg t) (Some msg))"

section \<open>Runs of the two goroutines\<close>

datatype edge_event = Fetched int64 bytes | Tick

fun edge_step :: "edge_codec \<Rightarrow> edge_event \<Rightarrow> edge_tables \<Rightarrow> sync_event list \<times> edge_tables" where
  "edge_step cdc (Fetched now data) t = ([], handleMessage now cdc data t)"
| "edge_step cdc Tick t = sync_tick t"

fun edge_run :: "edge_codec \<Rightarrow> edge_event list \<Rightarrow> edge_tables \<Rightarrow> sync_event list \<times> edge_tables" where
  "edge_run cdc [] t = ([], t)"
| "edge_run cdc (ev # evs) t =
    (case edge_step cdc ev t of (es, t) \<Rightarrow> (case edge_run cdc evs t of (es', t) \<Rightarrow> (es @ es', t)))"

text \<open>What one session got handed and lost, and what arrived for it.\<close>

fun handed :: "nat \<Rightarrow> sync_event list \<Rightarrow> Danmaku list" where
  "handed r [] = []"
| "handed r (DueDanmakus i ds # es) = (if i = r then ds @ handed r es else handed r es)"
| "handed r (Dropped i n # es) = handed r es"

fun dropped :: "nat \<Rightarrow> sync_event list \<Rightarrow> nat" where
  "dropped r [] = 0"
| "dropped r (DueDanmakus i ds # es) = dropped r es"
| "dropped r (Dropped i n # es) = (if i = r then n + dropped r es else dropped r es)"

fun arrivals :: "edge_codec \<Rightarrow> SessionManager \<Rightarrow> nat \<Rightarrow> edge_event list \<Rightarrow> Danmaku list" where
  "arrivals cdc m r [] = []"
| "arrivals cdc m r (Tick # evs) = arrivals cdc m r evs"
| "arrivals cdc m r (Fetched now data # evs) =
    (case Unmarshal_Envelope cdc data of
       None \<Rightarrow> []
     | Some e \<Rightarrow> if r \<in> set (GetRoomSessions m (e_RoomId e)) then [danmaku_of e] else []) @ arrivals cdc m r evs"

lemma handed_append [simp]: "handed r (es @ es') = handed r es @ handed r es'"
  by (induction r es rule: handed.induct) auto

lemma dropped_append [simp]: "dropped r (es @ es') = dropped r es + dropped r es'"
  by (induction r es rule: dropped.induct) auto

section \<open>One session in one tick\<close>

definition due_at :: "VideoSyncEngine \<Rightarrow> int64 \<Rightarrow> UserSession \<Rightarrow> Danmaku \<Rightarrow> bool" where
  "due_at e ts s d \<longleftrightarrow> sint (d_VideoTS d) \<le> sint (ts - videoDelayMs e + us_DelayDelta s)"

definition newest :: "nat \<Rightarrow> 'a list \<Rightarrow> 'a list" where
  "newest n xs = drop (length xs - n) xs"

lemma newest_short [simp]: "length xs \<le> n \<Longrightarrow> newest n xs = xs"
  by (simp add: newest_def)

lemma newest_split: "mset xs = mset (take (length xs - n) xs) + mset (newest n xs)"
  by (simp add: newest_def flip: mset_append)

lemma sync_session_own:
  assumes "sync_session e ts i st = (es, st')" and "i < length st"
  shows "handed i es = filter (due_at e ts (st ! i)) (buffer (st ! i))"
    and "dropped i es = length (filter (\<lambda>d. \<not> due_at e ts (st ! i) d) (buffer (st ! i))) - maxBufferSize e"
    and "st' ! i = (st ! i)\<lparr>buffer := newest (maxBufferSize e) (filter (\<lambda>d. \<not> due_at e ts (st ! i) d) (buffer (st ! i)))\<rparr>"
  using assms
  by (auto simp: sync_session_def FlushDueDanmaku_eq due_at_def [abs_def] BufferLen_def dropOverflow_def DropOverflow_def
      newest_def Let_def split: if_splits prod.splits)

lemma sync_session_other:
  assumes "sync_session e ts i st = (es, st')" and "r \<noteq> i"
  shows "handed r es = []" and "dropped r es = 0" and "st' ! r = st ! r"
  using assms
  by (auto simp: sync_session_def dropOverflow_def Let_def split: if_splits prod.splits)

lemma sync_session_length [simp]: "sync_session e ts i st = (es, st') \<Longrightarrow> length st' = length st"
  by (auto simp: sync_session_def Let_def split: prod.splits)

lemma sync_sessions_other:
  assumes "sync_sessions e ts is st = (es, st')" and "r \<notin> set is"
  shows "handed r es = [] \<and> dropped r es = 0 \<and> st' ! r = st ! r"
  using assms
  by (induction e ts "is" st arbitrary: es st' rule: sync_sessions.induct)
    (auto simp: sync_session_other split: prod.splits)

lemma sync_sessions_length [simp]: "sync_sessions e ts is st = (es, st') \<Longrightarrow> length st' = length st"
  by (induction e ts "is" st arbitrary: es st' rule: sync_sessions.induct) (auto split: prod.splits)

lemma sync_sessions_own:
  assumes "sync_sessions e ts is st = (es, st')" and "r \<in> set is" and "distinct is" and "r < length st"
  shows "handed r es = filter (due_at e ts (st ! r)) (buffer (st ! r)) \<and>
    st' ! r = (st ! r)\<lparr>buffer := newest (maxBufferSize e) (filter (\<lambda>d. \<not> due_at e ts (st ! r) d) (buffer (st ! r)))\<rparr>"
  using assms
proof (induction "is" arbitrary: st es)
  case (Cons i "is")
  obtain es1 st1 where 1: "sync_session e ts i st = (es1, st1)" by (cases "sync_session e ts i st")
  obtain es2 where 2: "sync_sessions e ts is st1 = (es2, st')" and es: "es = es1 @ es2"
    using Cons.prems(1) 1 by (auto split: prod.splits)
  show ?case
  proof (cases "r = i")
    case True
    then have "handed r es2 = []" "st' ! r = st1 ! r" using sync_sessions_other [OF 2] Cons.prems(3) by auto
    then show ?thesis using sync_session_own [OF 1] True Cons.prems(4) by (simp add: es)
  next
    case False
    then have "r \<in> set is" "distinct is" "r < length st1" using Cons.prems 1 by auto
    from Cons.IH [OF 2 this] sync_session_other [OF 1 False] show ?thesis by (simp add: es)
  qed
qed simp

section \<open>A tick over the rooms\<close>

text \<open>The rooms are filed under their own ids, and their sessions are those of the store.\<close>

definition room_ok :: "store \<Rightarrow> int64 \<Rightarrow> RoomInfo \<Rightarrow> bool" where
  "room_ok st \<rho> room \<longleftrightarrow> ri_RoomId room = \<rho> \<and> keys_distinct (ri_sessions room) \<and>
     (\<forall>(u, i) \<in> set (ri_sessions room). i < length st \<and> us_UserId (st ! i) = u)"

definition rm_ok :: "store \<Rightarrow> RoomMap \<Rightarrow> bool" where
  "rm_ok st m \<longleftrightarrow> keys_distinct (rooms m) \<and> (\<forall>(\<rho>, room) \<in> set (rooms m). room_ok st \<rho> room)"

lemma rm_ok_update:
  assumes "rm_ok st m" and "room_ok st \<rho> room" and "rooms m' = AList.update \<rho> room (rooms m)"
  shows "rm_ok st m'"
  using assms(1,2) set_alist_update [of \<rho> room "rooms m"]
  by (fastforce simp: rm_ok_def assms(3) distinct_update)

lemma rm_okD:
  assumes "rm_ok st m" and "map_of (rooms m) \<rho> = Some room"
  shows "ri_RoomId room = \<rho>" and "keys_distinct (ri_sessions room)"
    and "(u, i) \<in> set (ri_sessions room) \<Longrightarrow> i < length st \<and> us_UserId (st ! i) = u"
  using assms map_of_SomeD [OF assms(2)] by (auto simp: rm_ok_def room_ok_def)

lemma rm_ok_same_owners: "rm_ok st m \<Longrightarrow> same_owners st st' \<Longrightarrow> rm_ok st' m"
  by (fastforce simp: rm_ok_def room_ok_def same_owners_def)

lemma rm_GetSessions_valid: "rm_ok st m \<Longrightarrow> i \<in> set (rm_GetSessions m \<rho>) \<Longrightarrow> i < length st"
  by (force simp: rm_GetSessions_def split: option.splits dest: rm_okD(3))

lemma rm_GetSessions_distinct: "rm_ok st m \<Longrightarrow> distinct (rm_GetSessions m \<rho>)"
proof (cases "map_of (rooms m) \<rho>")
  case (Some room)
  assume ok: "rm_ok st m"
  have "inj_on snd (set (ri_sessions room))"
    by (rule inj_onI) (use rm_okD(3) [OF ok Some] in \<open>auto simp: prod_eq_iff; metis\<close>)
  moreover have "distinct (ri_sessions room)" using rm_okD(2) [OF ok Some] by (simp add: distinct_map)
  ultimately show ?thesis by (simp add: rm_GetSessions_def Some distinct_map)
qed (simp add: rm_GetSessions_def)

lemma sync_rooms_length [simp]: "sync_rooms e m rs st = (es, st') \<Longrightarrow> length st' = length st"
  by (induction e m rs st arbitrary: es st' rule: sync_rooms.induct) (auto simp: Let_def split: if_splits prod.splits)

lemma sync_rooms_other:
  assumes "sync_rooms e m rs st = (es, st')"
    and "\<forall>room \<in> set rs. 0 < sint (ri_CurrentVideoTS room) \<longrightarrow> r \<notin> set (rm_GetSessions m (ri_RoomId room))"
  shows "handed r es = [] \<and> dropped r es = 0 \<and> st' ! r = st ! r"
  using assms
proof (induction rs arbitrary: st es)
  case (Cons room rs)
  then show ?case
    by (auto simp: Let_def split: if_splits prod.splits)
      (metis append_Nil sync_sessions_other add_0 not_le)+
qed simp

lemma sync_rooms_append:
  "sync_rooms e m (rs @ rs') st =
    (case sync_rooms e m rs st of (es, st) \<Rightarrow> (case sync_rooms e m rs' st of (es', st) \<Rightarrow> (es @ es', st)))"
  by (induction rs arbitrary: st) (auto simp: Let_def split: prod.splits)

text \<open>
  Every change of a tick is accounted for: what is in a buffer before is handed on, dropped or still there.
\<close>

definition accounted :: "nat \<Rightarrow> Danmaku multiset \<Rightarrow> sync_event list \<Rightarrow> store \<Rightarrow> store \<Rightarrow> bool" where
  "accounted r new es st st' \<longleftrightarrow> same_owners st st' \<and>
     (\<exists>lost. mset (buffer (st ! r)) + new = mset (handed r es) + lost + mset (buffer (st' ! r)) \<and>
        size lost = dropped r es)"

lemma accounted_refl [simp]: "accounted r {#} [] st st"
  by (simp add: accounted_def same_owners_def)

lemma accounted_trans:
  assumes a1: "accounted r a es st st1" and a2: "accounted r b es' st1 st2" and len: "length st1 = length st"
  shows "accounted r (a + b) (es @ es') st st2"
proof -
  obtain l1 l2 where 1: "mset (buffer (st ! r)) + a = mset (handed r es) + l1 + mset (buffer (st1 ! r))" "size l1 = dropped r es"
    and 2: "mset (buffer (st1 ! r)) + b = mset (handed r es') + l2 + mset (buffer (st2 ! r))" "size l2 = dropped r es'"
    using a1 a2 by (auto simp: accounted_def)
  have "mset (buffer (st ! r)) + (a + b) = (mset (buffer (st ! r)) + a) + b" by (simp only: add.assoc)
  also have "\<dots> = mset (handed r es) + l1 + (mset (buffer (st1 ! r)) + b)" by (simp only: 1(1) add.assoc)
  also have "\<dots> = mset (handed r es) + l1 + (mset (handed r es') + l2 + mset (buffer (st2 ! r)))" by (simp only: 2(1))
  also have "\<dots> = mset (handed r (es @ es')) + (l1 + l2) + mset (buffer (st2 ! r))"
    by (simp only: handed_append mset_append ac_simps)
  finally have "mset (buffer (st ! r)) + (a + b) = mset (handed r (es @ es')) + (l1 + l2) + mset (buffer (st2 ! r))" .
  moreover have "size (l1 + l2) = dropped r (es @ es')" using 1(2) 2(2) by simp
  moreover have "same_owners st st2" using a1 a2 len by (simp add: accounted_def same_owners_def)
  ultimately show ?thesis unfolding accounted_def by blast
qed

lemma accounted_session:
  assumes "sync_session e ts i st = (es, st')" and "i < length st"
  shows "accounted r {#} es st st'"
proof -
  note own = sync_session_own [OF assms] and other = sync_session_other [OF assms(1)]
  have "us_UserId (st' ! k) = us_UserId (st ! k) \<and> us_RoomId (st' ! k) = us_RoomId (st ! k)" for k
    by (cases "k = i") (simp_all add: own(3) other(3))
  then have "same_owners st st'" using assms(1) by (simp add: same_owners_def)
  moreover have "\<exists>lost. mset (buffer (st ! r)) = mset (handed r es) + lost + mset (buffer (st' ! r)) \<and> size lost = dropped r es"
  proof (cases "r = i")
    case True
    let ?rem = "filter (\<lambda>d. \<not> due_at e ts (st ! i) d) (buffer (st ! i))"
    let ?lost = "take (length ?rem - maxBufferSize e) ?rem"
    have "mset (buffer (st ! i)) = mset (handed i es) + mset ?rem" by (simp add: own(1))
    also have "mset ?rem = mset ?lost + mset (newest (maxBufferSize e) ?rem)" by (rule newest_split)
    also have "newest (maxBufferSize e) ?rem = buffer (st' ! i)" by (simp add: own(3))
    finally have "mset (buffer (st ! i)) = mset (handed i es) + mset ?lost + mset (buffer (st' ! i))"
      by (simp only: add.assoc)
    moreover have "size (mset ?lost) = dropped i es" by (simp add: own(2))
    ultimately show ?thesis unfolding True by blast
  next
    case False
    then show ?thesis by (simp add: other)
  qed
  ultimately show ?thesis by (simp add: accounted_def)
qed

lemma accounted_sessions:
  assumes "sync_sessions e ts is st = (es, st')" and "\<forall>i \<in> set is. i < length st"
  shows "accounted r {#} es st st'"
  using assms
proof (induction "is" arbitrary: st es)
  case (Cons i "is")
  obtain es1 st1 where 1: "sync_session e ts i st = (es1, st1)" by (cases "sync_session e ts i st")
  obtain es2 where 2: "sync_sessions e ts is st1 = (es2, st')" "es = es1 @ es2"
    using Cons.prems(1) 1 by (auto split: prod.splits)
  have len: "length st1 = length st" using 1 by simp
  from accounted_trans [OF accounted_session [OF 1] Cons.IH [OF 2(1)] len] Cons.prems(2)
  show ?case by (simp add: 2(2) len)
qed simp

lemma accounted_rooms:
  assumes "sync_rooms e m rs st = (es, st')" and "rm_ok st m"
  shows "accounted r {#} es st st'"
  using assms
proof (induction rs arbitrary: st es)
  case (Cons room rs)
  show ?case
  proof (cases "sint (ri_CurrentVideoTS room) \<le> 0")
    case True
    then show ?thesis using Cons by simp
  next
    case False
    obtain es1 st1 where 1: "sync_sessions e (ri_CurrentVideoTS room) (rm_GetSessions m (ri_RoomId room)) st = (es1, st1)"
      by (cases "sync_sessions e (ri_CurrentVideoTS room) (rm_GetSessions m (ri_RoomId room)) st")
    obtain es2 where 2: "sync_rooms e m rs st1 = (es2, st')" "es = es1 @ es2"
      using Cons.prems(1) 1 False by (auto simp: Let_def split: prod.splits)
    have a: "accounted r {#} es1 st st1"
      using rm_GetSessions_valid [OF Cons.prems(2)] by (intro accounted_sessions [OF 1]) blast
    have len: "length st1 = length st" using 1 by simp
    have "rm_ok st1 m" using rm_ok_same_owners [OF Cons.prems(2)] a by (simp add: accounted_def)
    from accounted_trans [OF a Cons.IH [OF 2(1) this] len] show ?thesis by (simp add: 2(2))
  qed
qed simp

lemma sync_tick_parts:
  assumes "sync_tick t = (es, t')"
  shows "sync_rooms (e_engine t) (e_rooms t) (map snd (rooms (e_rooms t))) (e_store t) = (es, e_store t')"
    and "e_sessions t' = e_sessions t" and "e_rooms t' = e_rooms t" and "e_engine t' = e_engine t"
  using assms by (auto simp: sync_tick_def GetAllRooms_def split: prod.splits)

section \<open>A message\<close>

lemma push_all_nth:
  assumes "\<forall>i \<in> set is. i < length st" and "distinct is"
  shows "length (foldl (\<lambda>st i. st[i := OnDanmaku d (st ! i)]) st is) = length st \<and>
    foldl (\<lambda>st i. st[i := OnDanmaku d (st ! i)]) st is ! r =
      (if r \<in> set is then OnDanmaku d (st ! r) else st ! r)"
  using assms
proof (induction "is" arbitrary: st)
  case (Cons i "is")
  then show ?case by (cases "r = i") auto
qed simp

lemma handleDanmaku_store:
  assumes "sm_ok (e_store t) (e_sessions t)"
  shows "length (e_store (handleDanmaku e t)) = length (e_store t)"
    and "e_store (handleDanmaku e t) ! r =
      (if r \<in> set (GetRoomSessions (e_sessions t) (e_RoomId e)) then OnDanmaku (danmaku_of e) (e_store t ! r)
       else e_store t ! r)"
proof -
  have v: "\<forall>i \<in> set (GetRoomSessions (e_sessions t) (e_RoomId e)). i < length (e_store t)"
    "distinct (GetRoomSessions (e_sessions t) (e_RoomId e))"
    using sm_okD(3,5) [OF assms] by (auto simp: GetRoomSessions_def)
  from push_all_nth [OF v]
  show "length (e_store (handleDanmaku e t)) = length (e_store t)"
    and "e_store (handleDanmaku e t) ! r =
      (if r \<in> set (GetRoomSessions (e_sessions t) (e_RoomId e)) then OnDanmaku (danmaku_of e) (e_store t ! r)
       else e_store t ! r)"
    by (auto simp: handleDanmaku_def Let_def)
qed

lemma handleDanmaku_keeps [simp]:
  "e_sessions (handleDanmaku e t) = e_sessions t" "e_rooms (handleDanmaku e t) = e_rooms t"
  "e_engine (handleDanmaku e t) = e_engine t"
  by (simp_all add: handleDanmaku_def Let_def)

lemma same_owners_handleDanmaku:
  assumes "sm_ok (e_store t) (e_sessions t)"
  shows "same_owners (e_store t) (e_store (handleDanmaku e t))"
  by (simp add: same_owners_def handleDanmaku_store [OF assms] OnDanmaku_def)

lemma accounted_message:
  assumes "sm_ok (e_store t) (e_sessions t)"
  shows "accounted r (mset (arrivals cdc (e_sessions t) r [Fetched now data])) [] (e_store t)
    (e_store (handleMessage now cdc data t))"
  using same_owners_handleDanmaku [OF assms]
  by (auto simp: accounted_def handleMessage_def handleDanmaku_store(2) [OF assms] OnDanmaku_def edge_handleVideoTS_def
      engine_UpdateVideoTS_def same_owners_def split: option.splits)

section \<open>The invariant of a run\<close>

definition edge_ok :: "edge_tables \<Rightarrow> bool" where
  "edge_ok t \<longleftrightarrow> sm_ok (e_store t) (e_sessions t) \<and> rm_ok (e_store t) (e_rooms t)"

lemma rm_ok_UpdateVideoTS:
  assumes "rm_ok st m"
  shows "rm_ok st (rm_UpdateVideoTS now \<rho> ts m)"
proof (cases "map_of (rooms m) \<rho>")
  case None
  then show ?thesis using assms by (simp add: rm_UpdateVideoTS_def)
next
  case (Some room)
  have "room_ok st \<rho> (room\<lparr>ri_CurrentVideoTS := ts, ri_LastUpdateAt := now\<rparr>)"
    using rm_okD [OF assms Some] by (auto simp: room_ok_def)
  from rm_ok_update [OF assms this] show ?thesis by (simp add: rm_UpdateVideoTS_def Some)
qed

lemma edge_ok_step:
  assumes "edge_step cdc ev t = (es, t')" and "edge_ok t"
  shows "edge_ok t' \<and> e_sessions t' = e_sessions t \<and> e_engine t' = e_engine t \<and>
    accounted r (mset (arrivals cdc (e_sessions t) r [ev])) es (e_store t) (e_store t')"
proof (cases ev)
  case (Fetched now data)
  have ok: "sm_ok (e_store t) (e_sessions t)" "rm_ok (e_store t) (e_rooms t)" using assms(2) by (auto simp: edge_ok_def)
  have a: "accounted r (mset (arrivals cdc (e_sessions t) r [ev])) es (e_store t) (e_store t')"
    using accounted_message [OF ok(1)] assms(1) Fetched by auto
  then have o: "same_owners (e_store t) (e_store t')" by (simp add: accounted_def)
  have k: "e_sessions t' = e_sessions t" "e_engine t' = e_engine t" "rm_ok (e_store t) (e_rooms t')"
    using assms(1) ok(2) Fetched
    by (auto simp: handleMessage_def edge_handleVideoTS_def engine_UpdateVideoTS_def rm_ok_UpdateVideoTS split: option.splits)
  then show ?thesis
    using a sm_ok_same_owners [OF ok(1) o] rm_ok_same_owners [OF k(3) o] by (simp add: edge_ok_def)
next
  case Tick
  then have "sync_tick t = (es, t')" using assms(1) by simp
  note p = sync_tick_parts [OF this]
  have ok: "sm_ok (e_store t) (e_sessions t)" "rm_ok (e_store t) (e_rooms t)" using assms(2) by (auto simp: edge_ok_def)
  have a: "accounted r {#} es (e_store t) (e_store t')" by (rule accounted_rooms [OF p(1) ok(2)])
  then have o: "same_owners (e_store t) (e_store t')" by (simp add: accounted_def)
  then show ?thesis
    using a p(2-4) sm_ok_same_owners [OF ok(1) o] rm_ok_same_owners [OF ok(2) o] Tick by (simp add: edge_ok_def)
qed

lemma arrivals_Cons: "arrivals cdc m r (ev # evs) = arrivals cdc m r [ev] @ arrivals cdc m r evs"
  by (cases ev) (auto split: option.splits)

lemma accounted_run:
  assumes "edge_run cdc evs t = (es, t')" and "edge_ok t"
  shows "accounted r (mset (arrivals cdc (e_sessions t) r evs)) es (e_store t) (e_store t')"
  using assms
proof (induction evs arbitrary: t es)
  case (Cons ev evs)
  obtain es1 t1 where 1: "edge_step cdc ev t = (es1, t1)" by (cases "edge_step cdc ev t")
  obtain es2 where 2: "edge_run cdc evs t1 = (es2, t')" "es = es1 @ es2"
    using Cons.prems(1) 1 by (auto split: prod.splits)
  note st = edge_ok_step [OF 1 Cons.prems(2)]
  have "length (e_store t1) = length (e_store t)" using st by (simp add: accounted_def same_owners_def)
  from accounted_trans [OF _ Cons.IH [OF 2(1)] this] st
  show ?case by (simp add: 2(2) arrivals_Cons [of cdc _ r ev evs])
qed simp

section \<open>Properties\<close>

text \<open>
  C22: no danmaku of a session gets lost unnoticed. Over any interleaving of messages and sync ticks, what a
  session had buffered and what arrived for its room is, as a multiset, what was handed on for it, what
  was dropped (as many as the log says) and what it still buffers.
\<close>

theorem edge_danmaku_accounted:
  assumes "edge_ok t" and "edge_run cdc evs t = (es, t')"
  shows "\<exists>lost. mset (buffer (e_store t ! r)) + mset (arrivals cdc (e_sessions t) r evs) =
      mset (handed r es) + lost + mset (buffer (e_store t' ! r)) \<and> size lost = dropped r es"
  using accounted_run [OF assms(2,1)] by (simp add: accounted_def)

text \<open>A node with one session in one room whose video is at 9 s.\<close>

definition edge_sample :: edge_tables where
  "edge_sample =
    (case CreateSession 1 7 5 ''a'' 0 False [] NewSessionManager of
       (i, st, m) \<Rightarrow>
         \<lparr>e_store = st, e_sessions = m, e_rooms = rm_UpdateVideoTS 2 5 9000 (rm_AddSession 5 i st NewRoomMap),
          e_engine = NewVideoSyncEngine\<rparr>)"

lemma edge_sample_eq:
  "edge_sample =
    \<lparr>e_store = [NewUserSession 1 7 5 ''a'' 0 False],
     e_sessions = \<lparr>sessions = [(7, 0)], roomSessions = [5 \<mapsto> [0]], totalSessions = 1, activeCount = 1\<rparr>,
     e_rooms = \<lparr>rooms = [(5, \<lparr>ri_RoomId = 5, ri_CurrentVideoTS = 9000, ri_LastUpdateAt = 2, ri_connCount = 1,
                             ri_sessions = [(7, 0)]\<rparr>)], totalRooms = 1, totalConns = 1\<rparr>,
     e_engine = NewVideoSyncEngine\<rparr>"
  by (simp add: edge_sample_def CreateSession_def NewSessionManager_def room_list_def rm_UpdateVideoTS_def rm_AddSession_def
      rm_GetOrCreate_def NewRoomMap_def NewUserSession_def Let_def)

lemma edge_ok_sample: "edge_ok edge_sample"
  by (auto simp: edge_ok_def sm_ok_def rm_ok_def room_ok_def edge_sample_eq room_list_def NewUserSession_def split: if_splits)

definition edge_sample_codec :: edge_codec where
  "edge_sample_codec =
    gateway_codec.extend
      (codec.extend (null_codec\<lparr>Marshal_Envelope := \<lambda>e. (90 # e_Payload e, None), Unmarshal_Envelope := \<lambda>b. case b of
          [] \<Rightarrow> None
        | x # q \<Rightarrow> Some (empty_envelope\<lparr>e_RoomId := 5, e_VideoTs := of_nat (unat x * 100), e_Payload := q\<rparr>)\<rparr>)
        (gateway_codec.fields (\<lambda>m. ([], None)) (\<lambda>m. ([], None)) (\<lambda>u. ([1, 2], None))))
      (edge_codec.fields (\<lambda>b. Some \<lparr>vts_RoomId = 5, vts_VideoTs = 9100, vts_SentAt = 0\<rparr>))"

lemma edge_sample_codec_envelope [simp]:
  "Unmarshal_Envelope edge_sample_codec b = (case b of [] \<Rightarrow> None
     | x # q \<Rightarrow> Some (empty_envelope\<lparr>e_RoomId := 5, e_VideoTs := of_nat (unat x * 100), e_Payload := q\<rparr>))"
  "Marshal_Envelope edge_sample_codec e = (90 # e_Payload e, None)" "Marshal_VideoTS edge_sample_codec u = ([1, 2], None)"
  by (simp_all add: edge_sample_codec_def gateway_codec.defs codec.defs edge_codec.defs)

theorem edge_danmaku_accounted_witness:
  "case edge_run edge_sample_codec [Fetched 3 [60, 1], Fetched 4 [61, 2], Tick] edge_sample of
     (es, t') \<Rightarrow> (\<exists>lost :: Danmaku multiset. size lost = dropped 0 es \<and>
       mset (map d_VideoTS (handed 0 es)) + image_mset d_VideoTS lost + mset (map d_VideoTS (buffer (e_store t' ! 0))) =
       {#6000, 6100#})"
proof -
  let ?evs = "[Fetched 3 [60, 1], Fetched 4 [61, 2], Tick]"
  obtain es t' where r: "edge_run edge_sample_codec ?evs edge_sample = (es, t')" by fastforce
  from edge_danmaku_accounted [OF edge_ok_sample r, of 0] obtain lost where
    l: "mset (buffer (e_store edge_sample ! 0)) + mset (arrivals edge_sample_codec (e_sessions edge_sample) 0 ?evs) =
        mset (handed 0 es) + lost + mset (buffer (e_store t' ! 0))" "size lost = dropped 0 es" by blast
  have "mset (map d_VideoTS (handed 0 es)) + image_mset d_VideoTS lost + mset (map d_VideoTS (buffer (e_store t' ! 0))) =
      image_mset d_VideoTS (mset (buffer (e_store edge_sample ! 0)) + mset (arrivals edge_sample_codec (e_sessions edge_sample) 0 ?evs))"
    unfolding l(1) by simp
  also have "\<dots> = {#6000, 6100#}"
    by (simp add: edge_sample_eq NewUserSession_def GetRoomSessions_def room_list_def danmaku_of_def)
  finally have "mset (map d_VideoTS (handed 0 es)) + image_mset d_VideoTS lost +
      mset (map d_VideoTS (buffer (e_store t' ! 0))) = {#6000, 6100#}" .
  with l(2) show ?thesis unfolding r prod.case by (intro exI [of _ lost] conjI)
qed

text \<open>A session listed in one room only is in none of the rooms before and after it.\<close>

lemma only_in_room:
  assumes ok: "rm_ok st m" and split: "rooms m = pre @ (\<rho>, room) # post"
    and only: "\<forall>\<rho>'. r \<in> set (rm_GetSessions m \<rho>') \<longrightarrow> \<rho>' = \<rho>" and ps: "set ps \<subseteq> set pre \<union> set post"
  shows "\<forall>q \<in> set (map snd ps). 0 < sint (ri_CurrentVideoTS q) \<longrightarrow> r \<notin> set (rm_GetSessions m (ri_RoomId q))"
proof (intro ballI impI notI)
  fix q assume q: "q \<in> set (map snd ps)" and r: "r \<in> set (rm_GetSessions m (ri_RoomId q))"
  from q obtain \<rho>' where "(\<rho>', q) \<in> set ps" by auto
  then have mem: "(\<rho>', q) \<in> set pre \<union> set post" using ps by blast
  moreover have "ri_RoomId q = \<rho>" using r only by blast
  moreover have "(\<rho>', q) \<in> set (rooms m)" using mem by (auto simp: split)
  then have "ri_RoomId q = \<rho>'" using ok by (auto simp: rm_ok_def room_ok_def)
  moreover have "\<rho> \<notin> fst ` (set pre \<union> set post)" using ok unfolding rm_ok_def split by auto
  ultimately show False by (metis fst_conv image_eqI)
qed

text \<open>
  C26: a tick hands a session exactly what is due. If the video of its one room runs, a session gets, in the
  order of arrival, the buffered danmaku whose video time has come for the user's delay, and keeps the
  newest 200 (the configured number) of the others; a session of no running room is untouched.
\<close>

theorem tick_hands_what_is_due:
  assumes "edge_ok t" and "sync_tick t = (es, t')"
    and "\<forall>\<rho>'. r \<in> set (rm_GetSessions (e_rooms t) \<rho>') \<longrightarrow> \<rho>' = \<rho>"
  shows "if r \<in> set (rm_GetSessions (e_rooms t) \<rho>) \<and> 0 < sint (GetVideoTS (e_rooms t) \<rho>) then
      (let s = e_store t ! r;
           due = (\<lambda>d. sint (d_VideoTS d) \<le> sint (GetVideoTS (e_rooms t) \<rho> - videoDelayMs (e_engine t) + us_DelayDelta s))
       in handed r es = filter due (buffer s) \<and>
          e_store t' ! r = s\<lparr>buffer := newest (maxBufferSize (e_engine t)) (filter (\<lambda>d. \<not> due d) (buffer s))\<rparr>)
    else handed r es = [] \<and> e_store t' ! r = e_store t ! r"
proof -
  let ?m = "e_rooms t" and ?e = "e_engine t"
  note p = sync_tick_parts(1) [OF assms(2)]
  have ok: "rm_ok (e_store t) ?m" using assms(1) by (simp add: edge_ok_def)
  have id: "ri_RoomId room = \<rho>'" if "(\<rho>', room) \<in> set (rooms ?m)" for \<rho>' room
    using ok that by (auto simp: rm_ok_def room_ok_def)
  show ?thesis
  proof (cases "r \<in> set (rm_GetSessions ?m \<rho>) \<and> 0 < sint (GetVideoTS ?m \<rho>)")
    case False
    have "r \<notin> set (rm_GetSessions ?m (ri_RoomId room))"
      if "room \<in> set (map snd (rooms ?m))" "0 < sint (ri_CurrentVideoTS room)" for room
    proof
      assume r: "r \<in> set (rm_GetSessions ?m (ri_RoomId room))"
      with assms(3) have \<rho>: "ri_RoomId room = \<rho>" by blast
      from that(1) id \<rho> ok have "map_of (rooms ?m) \<rho> = Some room" by (auto simp: rm_ok_def)
      with False r \<rho> that(2) show False by (simp add: GetVideoTS_def)
    qed
    then have "handed r es = [] \<and> dropped r es = 0 \<and> e_store t' ! r = e_store t ! r"
      by (intro sync_rooms_other [OF p]) blast
    with False show ?thesis by auto
  next
    case True
    then obtain room where room: "map_of (rooms ?m) \<rho> = Some room"
      by (cases "map_of (rooms ?m) \<rho>") (auto simp: rm_GetSessions_def)
    then have "(\<rho>, room) \<in> set (rooms ?m)" by (rule map_of_SomeD)
    then obtain pre post where split: "rooms ?m = pre @ (\<rho>, room) # post" by (meson split_list)
    have ts: "GetVideoTS ?m \<rho> = ri_CurrentVideoTS room" "ri_RoomId room = \<rho>"
      using room rm_okD(1) [OF ok room] by (simp_all add: GetVideoTS_def)
    note away = only_in_room [OF ok split assms(3)]
    obtain es1 st1 where 1: "sync_rooms ?e ?m (map snd pre) (e_store t) = (es1, st1)" by fastforce
    obtain es2 st2 where 2: "sync_sessions ?e (ri_CurrentVideoTS room) (rm_GetSessions ?m \<rho>) st1 = (es2, st2)" by fastforce
    obtain es3 st3 where 3: "sync_rooms ?e ?m (map snd post) st2 = (es3, st3)" by fastforce
    have "sync_rooms ?e ?m (map snd pre @ room # map snd post) (e_store t) = (es, e_store t')"
      using p by (simp only: split map_append list.map snd_conv)
    moreover have "\<not> sint (ri_CurrentVideoTS room) \<le> 0" using True ts(1) by simp
    ultimately have all: "es = es1 @ es2 @ es3" "e_store t' = st3"
      using 1 2 3 by (simp_all add: sync_rooms_append Let_def ts(2))
    have "handed r es1 = [] \<and> dropped r es1 = 0 \<and> st1 ! r = e_store t ! r" by (rule sync_rooms_other [OF 1 away]) simp
    moreover have "handed r es3 = [] \<and> dropped r es3 = 0 \<and> st3 ! r = st2 ! r" by (rule sync_rooms_other [OF 3 away]) simp
    moreover have "r < length st1" using rm_GetSessions_valid [OF ok] True 1 by auto
    then have "handed r es2 = filter (due_at ?e (ri_CurrentVideoTS room) (st1 ! r)) (buffer (st1 ! r)) \<and>
      st2 ! r = (st1 ! r)\<lparr>buffer := newest (maxBufferSize ?e) (filter (\<lambda>d. \<not> due_at ?e (ri_CurrentVideoTS room) (st1 ! r) d) (buffer (st1 ! r)))\<rparr>"
      using True by (intro sync_sessions_own [OF 2 _ rm_GetSessions_distinct [OF ok]]) auto
    ultimately show ?thesis using True by (simp add: all ts due_at_def [abs_def] Let_def)
  qed
qed

theorem tick_hands_what_is_due_witness:
  "handed 0 (fst (sync_tick (handleDanmaku (empty_envelope\<lparr>e_RoomId := 5, e_VideoTs := 6000\<rparr>) edge_sample))) =
    [danmaku_of (empty_envelope\<lparr>e_RoomId := 5, e_VideoTs := 6000\<rparr>)]"
proof -
  let ?t = "handleDanmaku (empty_envelope\<lparr>e_RoomId := 5, e_VideoTs := 6000\<rparr>) edge_sample"
  have ok: "edge_ok ?t"
    using edge_ok_step [of edge_sample_codec "Fetched 0 [60]" edge_sample] edge_ok_sample
    by (simp add: handleMessage_def empty_envelope_def)
  have only: "\<forall>\<rho>'. 0 \<in> set (rm_GetSessions (e_rooms ?t) \<rho>') \<longrightarrow> \<rho>' = 5"
    by (simp add: edge_sample_eq rm_GetSessions_def)
  have "sync_tick ?t = (fst (sync_tick ?t), snd (sync_tick ?t))" by simp
  note h = tick_hands_what_is_due [OF ok this only]
  have r: "0 \<in> set (rm_GetSessions (e_rooms ?t) 5)" "GetVideoTS (e_rooms ?t) 5 = 9000" "videoDelayMs (e_engine ?t) = 3000"
    by (simp_all add: edge_sample_eq rm_GetSessions_def GetVideoTS_def NewVideoSyncEngine_def DefaultVideoDelayMs_def)
  have s: "us_DelayDelta (e_store ?t ! 0) = 0"
    "buffer (e_store ?t ! 0) = [danmaku_of (empty_envelope\<lparr>e_RoomId := 5, e_VideoTs := 6000\<rparr>)]"
    by (simp_all add: edge_sample_eq handleDanmaku_def GetRoomSessions_def room_list_def NewUserSession_def OnDanmaku_def)
  show ?thesis using h unfolding Let_def s r(2,3) using r(1) by (simp add: danmaku_of_def split: if_splits)
qed

definition written_by_gateway :: "edge_codec \<Rightarrow> bytes \<Rightarrow> bool" where
  "written_by_gateway cdc data \<longleftrightarrow>
     (\<exists>e. Marshal_Envelope cdc e = (data, None)) \<or> (\<exists>u. Marshal_VideoTS cdc u = (data, None))"

lemma fetched_step:
  assumes "edge_ok t" and "Unmarshal_Envelope cdc data \<noteq> None"
  shows "e_rooms (handleMessage now cdc data t) = e_rooms t \<and>
    buffer (e_store (handleMessage now cdc data t) ! r) =
      buffer (e_store t ! r) @ arrivals cdc (e_sessions t) r [Fetched now data]"
  using assms handleDanmaku_store(2) [of t _ r] by (auto simp: handleMessage_def edge_ok_def OnDanmaku_def)

text \<open>Messages alone: the buffers grow by what arrives.\<close>

lemma fetched_run:
  assumes "\<forall>v \<in> set vs. Unmarshal_Envelope cdc v \<noteq> None" and "edge_ok t"
    and "edge_run cdc (map (Fetched now) vs) t = (es, t')"
  shows "buffer (e_store t' ! r) = buffer (e_store t ! r) @ arrivals cdc (e_sessions t) r (map (Fetched now) vs)"
  using assms
proof (induction vs arbitrary: t es)
  case (Cons v vs)
  let ?t = "handleMessage now cdc v t"
  obtain es2 where 2: "edge_run cdc (map (Fetched now) vs) ?t = (es2, t')"
    using Cons.prems(3) by (auto split: prod.splits)
  have ok: "edge_ok ?t" "e_sessions ?t = e_sessions t"
    using edge_ok_step [of cdc "Fetched now v" t "[]" ?t] Cons.prems(2) by auto
  have "buffer (e_store ?t ! r) = buffer (e_store t ! r) @ arrivals cdc (e_sessions t) r [Fetched now v]"
    using fetched_step [OF Cons.prems(2)] Cons.prems(1) by auto
  moreover have "buffer (e_store t' ! r) = buffer (e_store ?t ! r) @ arrivals cdc (e_sessions t) r (map (Fetched now) vs)"
    using Cons.IH [OF _ ok(1) 2] Cons.prems(1) unfolding ok(2) by simp
  ultimately show ?case
    unfolding list.map arrivals_Cons [of cdc _ r "Fetched now v" "map (Fetched now) vs"] by (simp only: append_assoc)
qed simp

lemma no_video_step:
  assumes "edge_step cdc ev t = (es, t')"
    and "\<And>now data. ev = Fetched now data \<Longrightarrow> Unmarshal_Envelope cdc data \<noteq> None"
    and "\<forall>room \<in> set (GetAllRooms (e_rooms t)). sint (ri_CurrentVideoTS room) \<le> 0"
    and "edge_ok t" and "r < length (e_store t)"
  shows "es = [] \<and> e_rooms t' = e_rooms t \<and>
    buffer (e_store t' ! r) = buffer (e_store t ! r) @ arrivals cdc (e_sessions t) r [ev]"
proof (cases ev)
  case (Fetched now data)
  then show ?thesis using assms(1) fetched_step [OF assms(4) assms(2) [OF Fetched]] by auto
next
  case Tick
  have "sync_rooms e m rs st = ([], st)" if "\<forall>room \<in> set rs. sint (ri_CurrentVideoTS room) \<le> 0" for e m rs st
    using that by (induction rs) auto
  then show ?thesis using assms(1,3) Tick by (simp add: sync_tick_def)
qed

text \<open>
  C36: the videos of an edge node never advance. A video update encodes a message that also decodes as a danmaku
  envelope: its first two fields have the types of the envelope's, and a field of another wire type is
  an unknown field to the library. The consumer tries the envelope first, so it never sees an
  update, and a node whose rooms start without a video time, as they do, hands nothing on and drops nothing,
  whatever it reads: every buffer only grows.
\<close>

theorem edge_videos_never_advance:
  assumes "\<And>data. written_by_gateway cdc data \<Longrightarrow> Unmarshal_Envelope cdc data \<noteq> None"
    and "\<And>now data. Fetched now data \<in> set evs \<Longrightarrow> written_by_gateway cdc data"
    and "\<forall>room \<in> set (GetAllRooms (e_rooms t)). sint (ri_CurrentVideoTS room) \<le> 0"
    and "edge_ok t" and "edge_run cdc evs t = (es, t')" and "r < length (e_store t)"
  shows "es = [] \<and> e_rooms t' = e_rooms t \<and>
    buffer (e_store t' ! r) = buffer (e_store t ! r) @ arrivals cdc (e_sessions t) r evs"
  using assms(2-)
proof (induction evs arbitrary: t es)
  case (Cons ev evs)
  obtain es1 t1 where 1: "edge_step cdc ev t = (es1, t1)" by (cases "edge_step cdc ev t")
  obtain es2 where 2: "edge_run cdc evs t1 = (es2, t')" "es = es1 @ es2"
    using Cons.prems(4) 1 by (auto split: prod.splits)
  have s: "es1 = [] \<and> e_rooms t1 = e_rooms t \<and>
      buffer (e_store t1 ! r) = buffer (e_store t ! r) @ arrivals cdc (e_sessions t) r [ev]"
    using no_video_step [OF 1 _ Cons.prems(2,3,5)] Cons.prems(1) assms(1) by auto
  have ok: "edge_ok t1" "e_sessions t1 = e_sessions t" "length (e_store t1) = length (e_store t)"
    using edge_ok_step [OF 1 Cons.prems(3)] by (auto simp: accounted_def same_owners_def)
  have "es2 = [] \<and> e_rooms t' = e_rooms t1 \<and>
      buffer (e_store t' ! r) = buffer (e_store t1 ! r) @ arrivals cdc (e_sessions t1) r evs"
    using Cons.prems(1,2,5) s ok by (intro Cons.IH [OF _ _ _ 2(1)]) auto
  with s ok(2) show ?case by (simp add: 2(2) arrivals_Cons [of cdc _ r ev evs])
qed simp

theorem edge_videos_never_advance_witness:
  "\<exists>t es t'. edge_run edge_sample_codec [Fetched 3 [90, 1], Fetched 4 [1, 2], Tick] t = (es, t') \<and>
     es = [] \<and> length (buffer (e_store t' ! 0)) = 2"
proof -
  let ?t = "edge_sample\<lparr>e_rooms := rm_UpdateVideoTS 2 5 0 (e_rooms edge_sample)\<rparr>"
  let ?evs = "[Fetched 3 [90, 1], Fetched 4 [1, 2], Tick]"
  have c: "written_by_gateway edge_sample_codec data \<Longrightarrow> Unmarshal_Envelope edge_sample_codec data \<noteq> None" for data
    by (auto simp: written_by_gateway_def)
  have m: "Fetched now data \<in> set ?evs \<Longrightarrow> written_by_gateway edge_sample_codec data" for now data
    by (auto simp: written_by_gateway_def intro: exI [of _ "empty_envelope\<lparr>e_Payload := [1]\<rparr>"])
  have v: "\<forall>room \<in> set (GetAllRooms (e_rooms ?t)). sint (ri_CurrentVideoTS room) \<le> 0"
    by (simp add: edge_sample_eq GetAllRooms_def rm_UpdateVideoTS_def)
  have ok: "edge_ok ?t" using edge_ok_sample by (simp add: edge_ok_def rm_ok_UpdateVideoTS)
  obtain es t' where r: "edge_run edge_sample_codec ?evs ?t = (es, t')" by fastforce
  have "0 < length (e_store ?t)" by (simp add: edge_sample_eq)
  from edge_videos_never_advance [OF c m v ok r this]
  have "es = []" "length (buffer (e_store t' ! 0)) = 2"
    by (simp_all add: edge_sample_eq NewUserSession_def GetRoomSessions_def room_list_def)
  with r show ?thesis by blast
qed

end
