(* ===== verification/Edge_Broadcast.thy ===== *)
theory Edge_Broadcast
  imports Edge_Sync Ws_Frame
begin

text \<open>
  \<open>_deprecated/edge/broadcaster.go\<close>: danmaku wait in 64 shards, by room, until the batch ticker flushes them.

  The write to the connection is not there yet in the source: it stands in a comment. What a flush prepares for
  each session, the frame of the commented write or nothing, is the result of the operations here.
\<close>

section \<open>The broadcaster\<close>

record EdgeBroadcaster =
  batchInterval :: int
  maxPendingPerRoom :: int
  shards :: "(int64 \<times> Danmaku list) list list"

definition shardCount :: nat where "shardCount = 64"

definition NewEdgeBroadcaster :: "int \<Rightarrow> int \<Rightarrow> EdgeBroadcaster" where
  "NewEdgeBroadcaster interval maxPending =
    \<lparr>batchInterval = interval, maxPendingPerRoom = (if maxPending \<le> 0 then MaxPendingPerRoom else maxPending),
     shards = replicate shardCount []\<rparr>"

text \<open>The guard against echoes.\<close>

definition own_message :: "string \<Rightarrow> Danmaku \<Rightarrow> bool" where
  "own_message connId d \<longleftrightarrow> d_SenderConnId d \<noteq> '''' \<and> d_SenderConnId d = connId"

text \<open>The sessions at which \<open>broadcastNow\<close> reaches the place of the write.\<close>

definition broadcastNow :: "Danmaku \<Rightarrow> store \<Rightarrow> SessionManager \<Rightarrow> nat list" where
  "broadcastNow danmaku st m =
    filter (\<lambda>i. \<not> own_message (us_ConnId (st ! i)) danmaku) (GetRoomSessions m (d_RoomId danmaku))"

text \<open>
  \<open>danmaku.RoomId % shardCount\<close> is negative for a negative room, and indexing the array with it panics: the
  result is \<open>None\<close>.
\<close>

definition shard_of :: "int64 \<Rightarrow> int" where
  "shard_of roomId = go_rem (sint roomId) (int shardCount)"

definition bound_pending :: "int \<Rightarrow> Danmaku list \<Rightarrow> Danmaku list \<times> nat" where
  "bound_pending maxPending q =
    (if int (length q) > maxPending then
       (let overflow = nat (int (length q) - maxPending) in (drop overflow q, overflow))
     else (q, 0))"

definition edge_BroadcastLocal ::
  "Danmaku option \<Rightarrow> EdgeBroadcaster \<Rightarrow> metrics \<Rightarrow> (EdgeBroadcaster \<times> metrics) option" where
  "edge_BroadcastLocal danmaku b mt =
    (case danmaku of
       None \<Rightarrow> Some (b, mt)
     | Some d \<Rightarrow>
       if batchInterval b \<le> 0 then Some (b, mt)
       else
         let shardIdx = shard_of (d_RoomId d)
         in if shardIdx < 0 \<or> shardIdx \<ge> int (length (shards b)) then None
            else
              let pending = shards b ! nat shardIdx;
                  waiting = (case map_of pending (d_RoomId d) of None \<Rightarrow> [] | Some q \<Rightarrow> q);
                  (q, overflow) = bound_pending (maxPendingPerRoom b) (waiting @ [d])
              in Some (b\<lparr>shards := (shards b)[nat shardIdx := AList.update (d_RoomId d) q pending]\<rparr>,
                       mt\<lparr>SlowConnSkipCount := SlowConnSkipCount mt + of_nat overflow\<rparr>))"

definition sendToSession :: "UserSession \<Rightarrow> Danmaku list \<Rightarrow> bytes \<Rightarrow> bytes option" where
  "sendToSession session danmakus megaFrame =
    (let hasEcho = (\<exists>d \<in> set danmakus. own_message (us_ConnId session) d)
     in if \<not> hasEcho then Some megaFrame
        else
          let personalFrame = concat (map (\<lambda>d. BuildBinaryFrame (d_Payload d))
                (filter (\<lambda>d. \<not> own_message (us_ConnId session) d) danmakus))
          in if length personalFrame > 0 then Some personalFrame else None)"

definition broadcastBatch :: "int64 \<Rightarrow> Danmaku list \<Rightarrow> store \<Rightarrow> SessionManager \<Rightarrow> (nat \<times> bytes option) list" where
  "broadcastBatch roomId danmakus st m =
    (if length danmakus = 0 then []
     else let roomSessions = GetRoomSessions m roomId
          in if length roomSessions = 0 then []
             else let megaFrame = concat (map (\<lambda>d. BuildBinaryFrame (d_Payload d)) danmakus)
                  in map (\<lambda>i. (i, sendToSession (st ! i) danmakus megaFrame)) roomSessions)"

definition flushAll :: "store \<Rightarrow> SessionManager \<Rightarrow> EdgeBroadcaster \<Rightarrow> (nat \<times> bytes option) list \<times> EdgeBroadcaster" where
  "flushAll st m b =
    (concat (map (\<lambda>pending. concat (map (\<lambda>(roomId, danmakus). broadcastBatch roomId danmakus st m) pending)) (shards b)),
     b\<lparr>shards := map (\<lambda>_. []) (shards b)\<rparr>)"

text \<open>The batch goroutine: one flush per tick, and a last one when it is stopped.\<close>

datatype batch_event = BatchTick | BatchStop

definition batch_round ::
  "batch_event \<Rightarrow> store \<Rightarrow> SessionManager \<Rightarrow> EdgeBroadcaster \<Rightarrow> (nat \<times> bytes option) list \<times> EdgeBroadcaster \<times> bool" where
  "batch_round ev st m b = (case flushAll st m b of (out, b) \<Rightarrow> (out, b, ev \<noteq> BatchStop))"

section \<open>What waits for a room\<close>

text \<open>Every room waits in its own shard, and no queue exceeds the bound.\<close>

definition shards_ok :: "EdgeBroadcaster \<Rightarrow> bool" where
  "shards_ok b \<longleftrightarrow> length (shards b) = shardCount \<and> 0 < maxPendingPerRoom b \<and>
     (\<forall>k < shardCount. keys_distinct (shards b ! k) \<and> (\<forall>\<rho> \<in> fst ` set (shards b ! k). shard_of \<rho> = int k))"

definition waiting :: "EdgeBroadcaster \<Rightarrow> int64 \<Rightarrow> Danmaku list" where
  "waiting b \<rho> =
    (if shard_of \<rho> < 0 then []
     else case map_of (shards b ! nat (shard_of \<rho>)) \<rho> of None \<Rightarrow> [] | Some q \<Rightarrow> q)"

lemma shard_of_bounds: "shard_of \<rho> < int shardCount"
  by (auto simp: shard_of_def go_rem_def shardCount_def intro: le_less_trans [of _ 0])

lemma NewEdgeBroadcaster_fields [simp]:
  "batchInterval (NewEdgeBroadcaster iv mp) = iv"
  "maxPendingPerRoom (NewEdgeBroadcaster iv mp) = (if mp \<le> 0 then 1000 else mp)"
  by (simp_all add: NewEdgeBroadcaster_def MaxPendingPerRoom_def)

lemma shards_ok_New: "shards_ok (NewEdgeBroadcaster iv mp)"
  by (simp add: shards_ok_def NewEdgeBroadcaster_def shardCount_def MaxPendingPerRoom_def)

lemma waiting_New [simp]: "waiting (NewEdgeBroadcaster iv mp) \<rho> = []"
  using shard_of_bounds [of \<rho>] by (simp add: waiting_def NewEdgeBroadcaster_def nat_less_iff)

lemma bound_pending_eq:
  "0 < mp \<Longrightarrow> bound_pending mp q = (newest (nat mp) q, length q - nat mp)"
  by (auto simp: bound_pending_def newest_def Let_def nat_diff_distrib)

lemma post_cases:
  assumes "shards_ok b" and "0 < batchInterval b"
  shows "edge_BroadcastLocal (Some d) b mt = None \<longleftrightarrow> shard_of (d_RoomId d) < 0"
    and "edge_BroadcastLocal (Some d) b mt = Some (b', mt') \<Longrightarrow>
      shards_ok b' \<and> batchInterval b' = batchInterval b \<and> maxPendingPerRoom b' = maxPendingPerRoom b \<and>
      waiting b' \<rho> = (if \<rho> = d_RoomId d then newest (nat (maxPendingPerRoom b)) (waiting b \<rho> @ [d]) else waiting b \<rho>) \<and>
      mt' = mt\<lparr>SlowConnSkipCount := SlowConnSkipCount mt +
        of_nat (Suc (length (waiting b (d_RoomId d))) - nat (maxPendingPerRoom b))\<rparr>"
proof -
  let ?k = "shard_of (d_RoomId d)"
  have len: "length (shards b) = shardCount" using assms(1) by (simp add: shards_ok_def)
  then show "edge_BroadcastLocal (Some d) b mt = None \<longleftrightarrow> ?k < 0"
    using assms(2) shard_of_bounds [of "d_RoomId d"]
    by (auto simp: edge_BroadcastLocal_def Let_def split: prod.splits)
  assume post: "edge_BroadcastLocal (Some d) b mt = Some (b', mt')"
  then have k: "0 \<le> ?k" "nat ?k < shardCount"
    using assms(2) len by (auto simp: edge_BroadcastLocal_def Let_def split: if_splits)
  let ?p = "shards b ! nat ?k" and ?q = "waiting b (d_RoomId d) @ [d]"
  have q: "(case map_of ?p (d_RoomId d) of None \<Rightarrow> [] | Some q \<Rightarrow> q) = waiting b (d_RoomId d)"
    using k(1) by (simp add: waiting_def)
  have mp: "0 < maxPendingPerRoom b" using assms(1) by (simp add: shards_ok_def)
  have b': "b' = b\<lparr>shards := (shards b)[nat ?k := AList.update (d_RoomId d) (newest (nat (maxPendingPerRoom b)) ?q) ?p]\<rparr>"
    "mt' = mt\<lparr>SlowConnSkipCount := SlowConnSkipCount mt +
        of_nat (Suc (length (waiting b (d_RoomId d))) - nat (maxPendingPerRoom b))\<rparr>"
    using post assms(2) k len by (auto simp: edge_BroadcastLocal_def Let_def q bound_pending_eq [OF mp] split: if_splits)
  have w: "waiting b' \<rho> = (if \<rho> = d_RoomId d then newest (nat (maxPendingPerRoom b)) ?q else waiting b \<rho>)"
    using k len by (cases "shard_of \<rho> = ?k") (auto simp: b'(1) waiting_def nth_list_update_neq)
  have dom: "\<forall>\<rho> \<in> fst ` set (AList.update (d_RoomId d) x ?p). shard_of \<rho> = ?k" for x
    unfolding dom_update using assms(1) k by (auto simp: shards_ok_def)
  have "keys_distinct (shards b' ! j) \<and> (\<forall>\<rho> \<in> fst ` set (shards b' ! j). shard_of \<rho> = int j)" if j: "j < shardCount" for j
  proof (cases "j = nat ?k")
    case True
    have "keys_distinct ?p" using assms(1) k(2) by (simp add: shards_ok_def)
    then have kd: "keys_distinct (AList.update (d_RoomId d) x ?p)" for x by (rule distinct_update)
    have j: "int j = ?k" using True k(1) by simp
    have nth: "shards b' ! j = AList.update (d_RoomId d) (newest (nat (maxPendingPerRoom b)) ?q) ?p"
      using True k len by (simp add: b'(1))
    show ?thesis unfolding nth j by (intro conjI kd dom)
  next
    case False
    then show ?thesis using assms(1) j by (simp add: b'(1) shards_ok_def)
  qed
  then have ok: "shards_ok b'" using len mp by (simp add: shards_ok_def b'(1))
  have keep: "batchInterval b' = batchInterval b" "maxPendingPerRoom b' = maxPendingPerRoom b" by (simp_all add: b'(1))
  show "shards_ok b' \<and> batchInterval b' = batchInterval b \<and> maxPendingPerRoom b' = maxPendingPerRoom b \<and>
      waiting b' \<rho> = (if \<rho> = d_RoomId d then newest (nat (maxPendingPerRoom b)) (waiting b \<rho> @ [d]) else waiting b \<rho>) \<and>
      mt' = mt\<lparr>SlowConnSkipCount := SlowConnSkipCount mt +
        of_nat (Suc (length (waiting b (d_RoomId d))) - nat (maxPendingPerRoom b))\<rparr>"
    using w by (intro conjI ok keep b'(2)) auto
qed

fun post_all :: "Danmaku list \<Rightarrow> EdgeBroadcaster \<Rightarrow> metrics \<Rightarrow> (EdgeBroadcaster \<times> metrics) option" where
  "post_all [] b mt = Some (b, mt)"
| "post_all (d # ds) b mt =
    (case edge_BroadcastLocal (Some d) b mt of None \<Rightarrow> None | Some (b, mt) \<Rightarrow> post_all ds b mt)"

lemma newest_newest_append: "newest n (newest n xs @ ys) = newest n (xs @ ys)"
proof (cases "n \<le> length xs")
  case True
  then show ?thesis by (simp add: newest_def) (metis (no_types, opaque_lifting) Nat.add_diff_assoc2 diff_diff_cancel diff_is_0_eq le_add_diff_inverse2 nat_le_linear)
qed simp

lemma post_all_waiting:
  assumes "post_all ds b mt = Some (b', mt')" and "shards_ok b" and "0 < batchInterval b"
    and "length (waiting b \<rho>) \<le> nat (maxPendingPerRoom b)"
  shows "shards_ok b' \<and>
    waiting b' \<rho> = newest (nat (maxPendingPerRoom b)) (waiting b \<rho> @ filter (\<lambda>d. d_RoomId d = \<rho>) ds)"
  using assms
proof (induction ds arbitrary: b mt)
  case (Cons d ds)
  obtain b1 mt1 where 1: "edge_BroadcastLocal (Some d) b mt = Some (b1, mt1)" and 2: "post_all ds b1 mt1 = Some (b', mt')"
    using Cons.prems(1) by (auto split: option.splits)
  note p = post_cases(2) [OF Cons.prems(2,3) 1]
  have "shards_ok b'  \<and>
    waiting b' \<rho> = newest (nat (maxPendingPerRoom b1)) (waiting b1 \<rho> @ filter (\<lambda>d. d_RoomId d = \<rho>) ds)"
    using p [of \<rho>] Cons.prems(3,4) by (intro Cons.IH [OF 2]) (auto simp: newest_def)
  then show ?case using p [of \<rho>] by (auto simp: newest_newest_append)
qed simp

section \<open>What a flush prepares\<close>

definition prepared :: "nat \<Rightarrow> (nat \<times> bytes option) list \<Rightarrow> bytes" where
  "prepared i out = concat (map (\<lambda>(j, f). if j = i then (case f of None \<Rightarrow> [] | Some f \<Rightarrow> f) else []) out)"

definition others_frames :: "string \<Rightarrow> Danmaku list \<Rightarrow> bytes" where
  "others_frames connId ds =
    concat (map (\<lambda>d. BuildBinaryFrame (d_Payload d)) (filter (\<lambda>d. \<not> own_message connId d) ds))"

lemma prepared_concat: "prepared i (concat outs) = concat (map (prepared i) outs)"
  by (induction outs) (auto simp: prepared_def)

lemma concat_map_single:
  assumes "k < length xs" and "\<And>j. j < length xs \<Longrightarrow> j \<noteq> k \<Longrightarrow> f (xs ! j) = []"
  shows "concat (map f xs) = f (xs ! k)"
proof -
  have "concat (map f (take k xs)) = []" "concat (map f (drop (Suc k) xs)) = []"
    using assms by (auto simp: set_conv_nth)
  then have "concat (map f (take k xs @ xs ! k # drop (Suc k) xs)) = f (xs ! k)"
    by (simp only: map_append list.map concat_append concat.simps append_Nil append_Nil2)
  then show ?thesis using id_take_nth_drop [OF assms(1)] by simp
qed

lemma concat_map_of:
  "keys_distinct al \<Longrightarrow>
   concat (map (\<lambda>(\<rho>', q). if \<rho>' = \<rho> then f q else []) al) = (case map_of al \<rho> of None \<Rightarrow> [] | Some q \<Rightarrow> f q)"
proof (induction al)
  case (Cons e al)
  have "map_of al \<rho> = None" if "fst e = \<rho>" using Cons.prems that by (auto simp: map_of_eq_None_iff)
  then show ?case using Cons by (cases e) auto
qed simp

lemma prepared_sessions:
  "distinct is \<Longrightarrow> prepared i (map (\<lambda>j. (j, f j)) is) = (if i \<in> set is then (case f i of None \<Rightarrow> [] | Some x \<Rightarrow> x) else [])"
  by (induction "is") (auto simp: prepared_def split: option.splits)

lemma sendToSession_frames:
  "(case sendToSession s ds (concat (map (\<lambda>d. BuildBinaryFrame (d_Payload d)) ds)) of None \<Rightarrow> [] | Some x \<Rightarrow> x) =
    others_frames (us_ConnId s) ds"
proof (cases "\<exists>d \<in> set ds. own_message (us_ConnId s) d")
  case False
  then have "filter (\<lambda>d. \<not> own_message (us_ConnId s) d) ds = ds" by (auto simp: filter_id_conv)
  with False show ?thesis by (simp add: sendToSession_def others_frames_def)
qed (auto simp: sendToSession_def others_frames_def Let_def)

lemma prepared_batch:
  assumes "distinct (GetRoomSessions m \<rho>)"
  shows "prepared i (broadcastBatch \<rho> ds st m) =
    (if i \<in> set (GetRoomSessions m \<rho>) then others_frames (us_ConnId (st ! i)) ds else [])"
  using assms
  by (auto simp: broadcastBatch_def Let_def prepared_sessions sendToSession_frames) (auto simp: prepared_def others_frames_def)

lemma prepared_flush:
  assumes ok: "sm_ok st m" and b: "shards_ok b" and i: "i \<in> set (GetRoomSessions m \<rho>)"
  shows "prepared i (fst (flushAll st m b)) = others_frames (us_ConnId (st ! i)) (waiting b \<rho>)"
proof -
  let ?f = "others_frames (us_ConnId (st ! i))"
  let ?g = "\<lambda>al. case map_of al \<rho> of None \<Rightarrow> [] | Some q \<Rightarrow> ?f q"
  have room: "i \<in> set (GetRoomSessions m \<rho>') \<longleftrightarrow> \<rho>' = \<rho>" for \<rho>'
    using i sm_okD(5) [OF ok] by (auto simp: GetRoomSessions_def)
  have batch: "prepared i (broadcastBatch \<rho>' ds st m) = (if \<rho>' = \<rho> then ?f ds else [])" for \<rho>' ds
    using sm_okD(3) [OF ok] by (simp add: prepared_batch GetRoomSessions_def [symmetric] room)
  have len: "length (shards b) = shardCount" using b by (simp add: shards_ok_def)
  have "prepared i (concat (map (\<lambda>(\<rho>', ds). broadcastBatch \<rho>' ds st m) al)) = ?g al" if "keys_distinct al" for al
    using concat_map_of [OF that, of \<rho> ?f]
    by (simp add: prepared_concat comp_def case_prod_unfold batch)
  moreover have "keys_distinct al" if "al \<in> set (shards b)" for al
    using b that by (auto simp: shards_ok_def in_set_conv_nth)
  ultimately have "prepared i (fst (flushAll st m b)) = concat (map ?g (shards b))"
    by (auto simp: flushAll_def prepared_concat comp_def intro!: arg_cong [of _ _ concat])
  moreover have "?g (shards b ! j) = []" if "j < shardCount" "int j \<noteq> shard_of \<rho>" for j
    using b that by (auto simp: shards_ok_def map_of_eq_None_iff split: option.splits dest!: map_of_SomeD) force
  ultimately show ?thesis
  proof (cases "shard_of \<rho> < 0")
    case True
    have "\<forall>al \<in> set (shards b). ?g al = []"
      using \<open>\<And>j. j < shardCount \<Longrightarrow> int j \<noteq> shard_of \<rho> \<Longrightarrow> ?g (shards b ! j) = []\<close> True len
      by (auto simp: in_set_conv_nth)
    then have "concat (map ?g (shards b)) = []" by (simp only: concat_eq_Nil_conv) auto
    then show ?thesis using \<open>prepared i (fst (flushAll st m b)) = concat (map ?g (shards b))\<close> True
      by (simp add: waiting_def others_frames_def)
  next
    case False
    have "concat (map ?g (shards b)) = ?g (shards b ! nat (shard_of \<rho>))"
      using \<open>\<And>j. j < shardCount \<Longrightarrow> int j \<noteq> shard_of \<rho> \<Longrightarrow> ?g (shards b ! j) = []\<close> False len shard_of_bounds [of \<rho>]
      by (intro concat_map_single) auto
    then show ?thesis using \<open>prepared i (fst (flushAll st m b)) = concat (map ?g (shards b))\<close> False
      by (simp add: waiting_def others_frames_def split: option.splits)
  qed
qed

section \<open>Properties\<close>

lemma read_back_frames:
  assumes "\<forall>d \<in> set ds. length (d_Payload d) < 2 ^ 63"
  shows "read_server_frames (concat (map (\<lambda>d. BuildBinaryFrame (d_Payload d)) ds)) = map (\<lambda>d. (OpBinary, d_Payload d)) ds"
proof -
  have "read_server_frames (concat (map (\<lambda>(opcode, payload). buildServerFrame opcode payload) (map (\<lambda>d. (OpBinary, d_Payload d)) ds)))
      = map (\<lambda>d. (OpBinary, d_Payload d)) ds"
    using assms by (intro read_server_frames_build) (auto simp: opcode_defs word_less_nat_alt)
  then show ?thesis by (simp add: BuildBinaryFrame_def comp_def)
qed

text \<open>
  The batches of an edge node. After any danmaku were posted to a fresh batching broadcaster, a flush
  prepares for each session of a room bytes that a WebSocket client reads as the newest of the room's danmaku,
  as many as the bound allows, in order and without the client's own.
\<close>

theorem edge_batch_read_back:
  assumes "post_all ds (NewEdgeBroadcaster iv mp) mt = Some (b, mt')" and "0 < iv"
    and "sm_ok st m" and "i \<in> set (GetRoomSessions m \<rho>)"
    and "\<forall>d \<in> set ds. length (d_Payload d) < 2 ^ 63"
  shows "read_server_frames (prepared i (fst (flushAll st m b))) =
    map (\<lambda>d. (OpBinary, d_Payload d))
      (filter (\<lambda>d. \<not> own_message (us_ConnId (st ! i)) d)
        (newest (nat (if mp \<le> 0 then 1000 else mp)) (filter (\<lambda>d. d_RoomId d = \<rho>) ds)))"
proof -
  let ?q = "newest (nat (if mp \<le> 0 then 1000 else mp)) (filter (\<lambda>d. d_RoomId d = \<rho>) ds)"
  have "shards_ok b \<and> waiting b \<rho> = ?q"
    using post_all_waiting [OF assms(1) shards_ok_New, of \<rho>] assms(2)
    by simp
  then have "prepared i (fst (flushAll st m b)) = others_frames (us_ConnId (st ! i)) ?q"
    using prepared_flush [OF assms(3) _ assms(4), of b] by simp
  moreover have "set ?q \<subseteq> set ds" using set_drop_subset by (fastforce simp: newest_def)
  ultimately show ?thesis
    unfolding others_frames_def using assms(5) by (simp only:) (intro read_back_frames, auto)
qed

theorem edge_batch_read_back_witness:
  "\<exists>b mt'. post_all [NewDanmaku 1 5 7 ''a'' 0 [1] False, NewDanmaku 2 5 8 ''b'' 0 [2] False,
                    NewDanmaku 3 5 8 ''b'' 0 [3] False] (NewEdgeBroadcaster 50 2) no_metrics = Some (b, mt') \<and>
     read_server_frames (prepared 0 (fst (flushAll (e_store edge_sample) (e_sessions edge_sample) b))) =
       [(OpBinary, [2]), (OpBinary, [3])]"
proof -
  let ?ds = "[NewDanmaku 1 5 7 ''a'' 0 [1] False, NewDanmaku 2 5 8 ''b'' 0 [2] False,
              NewDanmaku 3 5 8 ''b'' 0 [3] False]"
  have "post_all ?ds (NewEdgeBroadcaster 50 2) no_metrics \<noteq> None"
    by (simp add: edge_BroadcastLocal_def NewEdgeBroadcaster_def shard_of_def shardCount_def NewDanmaku_def Let_def
        bound_pending_def)
  then obtain b mt' where p: "post_all ?ds (NewEdgeBroadcaster 50 2) no_metrics = Some (b, mt')" by auto
  have ok: "sm_ok (e_store edge_sample) (e_sessions edge_sample)" using edge_ok_sample by (simp add: edge_ok_def)
  have i: "0 \<in> set (GetRoomSessions (e_sessions edge_sample) 5)"
    by (simp add: edge_sample_eq GetRoomSessions_def room_list_def)
  from edge_batch_read_back [OF p _ ok i] p show ?thesis
    by (simp add: NewDanmaku_def newest_def own_message_def edge_sample_eq NewUserSession_def)
qed

text \<open>
  A danmaku for a room of negative number crashes the goroutine that posts it, unless its number is a multiple
  of 64: the remainder of Go is negative and no shard has such an index. Every other danmaku is taken.
\<close>

theorem negative_room_panics:
  assumes "shards_ok b" and "0 < batchInterval b"
  shows "edge_BroadcastLocal (Some d) b mt = None \<longleftrightarrow> sint (d_RoomId d) < 0 \<and> sint (d_RoomId d) mod 64 \<noteq> 0"
proof -
  have m: "0 < (- x) mod 64 \<longleftrightarrow> x mod 64 \<noteq> 0" for x :: int by presburger
  have "go_rem x 64 < 0 \<longleftrightarrow> x < 0 \<and> x mod 64 \<noteq> 0" for x :: int
  proof (cases "x < 0")
    case True
    then have "go_rem x 64 = - ((- x) mod 64)" by (simp add: go_rem_def)
    with True m [of x] show ?thesis by simp
  next
    case False
    then have "go_rem x 64 = x mod 64" by simp
    with False show ?thesis by simp
  qed
  then show ?thesis using post_cases(1) [OF assms] by (simp add: shard_of_def shardCount_def)
qed

theorem negative_room_panics_witness:
  "edge_BroadcastLocal (Some (NewDanmaku 1 (- 5) 7 ''a'' 0 [1] False)) (NewEdgeBroadcaster 50 2) no_metrics = None"
  using negative_room_panics [OF shards_ok_New, of 50 2 "NewDanmaku 1 (- 5) 7 ''a'' 0 [1] False"]
  by (simp add: NewEdgeBroadcaster_def NewDanmaku_def)

end
