(* ===== verification/Edge_Server.thy ===== *)
theory Edge_Server
  imports Edge_Broadcast App_Lifecycle
begin

text \<open>
  \<open>_deprecated/edge/server.go\<close>: the WebSocket server of an edge node, on the sessions and rooms of
  \<open>Edge_Session\<close>, the sync engine of \<open>Edge_Sync\<close> and the batches of \<open>Edge_Broadcast\<close>.

  As in \<open>Event_Handler\<close>, a connection is known by its number, its context is kept in a map, and the writes and
  the tasks given to the worker pool are results.
\<close>

section \<open>The server\<close>

record EdgeServer =
  es_nodeId :: string
  es_wsAddr :: string
  es_httpAddr :: string
  es_tables :: edge_tables
  es_videoSync :: bool
  es_broadcaster :: "EdgeBroadcaster option"
  es_consumer :: bool
  es_stopped :: bool
  es_conns :: "(string \<times> conn) list"
  es_ctx :: contexts
  es_counts :: metrics

text \<open>\<open>mk_pool\<close> is the constructor of the pool library.\<close>

definition NewEdgeServer ::
  "(int \<Rightarrow> string + 'p) \<Rightarrow> string \<Rightarrow> string \<Rightarrow> string \<Rightarrow> int \<Rightarrow> string + 'p \<times> EdgeServer" where
  "NewEdgeServer mk_pool nodeId wsAddr httpAddr poolSize =
    (case NewPool mk_pool poolSize of
       Inl err \<Rightarrow> Inl (''create worker pool: '' @ err)
     | Inr pool \<Rightarrow>
       Inr (pool,
         \<lparr>es_nodeId = nodeId, es_wsAddr = wsAddr, es_httpAddr = httpAddr,
          es_tables = \<lparr>e_store = [], e_sessions = NewSessionManager, e_rooms = NewRoomMap, e_engine = NewVideoSyncEngine\<rparr>,
          es_videoSync = False, es_broadcaster = None, es_consumer = False, es_stopped = False,
          es_conns = [], es_ctx = Map.empty, es_counts = no_metrics\<rparr>))"

text \<open>The engine set here is one that works on the tables of the server, as the one \<open>Start\<close> makes does.\<close>

definition SetComponents ::
  "VideoSyncEngine option \<Rightarrow> EdgeBroadcaster option \<Rightarrow> bool \<Rightarrow> EdgeServer \<Rightarrow> EdgeServer" where
  "SetComponents videoSync broadcaster consumer s =
    s\<lparr>es_videoSync := videoSync \<noteq> None,
      es_tables := (case videoSync of None \<Rightarrow> es_tables s | Some e \<Rightarrow> (es_tables s)\<lparr>e_engine := e\<rparr>),
      es_broadcaster := broadcaster, es_consumer := consumer\<rparr>"

definition StartBatchTicker :: "EdgeBroadcaster \<Rightarrow> bool" where
  "StartBatchTicker b \<longleftrightarrow> \<not> batchInterval b \<le> 0"

text \<open>\<open>Start\<close> up to \<open>gnet.Run\<close>, with whether the batch goroutine runs; the sync goroutine always does.\<close>

definition es_Start :: "EdgeServer \<Rightarrow> bool \<times> EdgeServer" where
  "es_Start s =
    (let s = (if \<not> es_videoSync s
              then s\<lparr>es_videoSync := True, es_tables := (es_tables s)\<lparr>e_engine := NewVideoSyncEngine\<rparr>\<rparr> else s);
         b = (case es_broadcaster s of None \<Rightarrow> NewEdgeBroadcaster (50 * 1000000) 1000 | Some b \<Rightarrow> b)
     in (StartBatchTicker b, s\<lparr>es_broadcaster := Some b\<rparr>))"

text \<open>Stopping closes the stop channels: a second time panics.\<close>

definition es_Stop :: "EdgeServer \<Rightarrow> EdgeServer option" where
  "es_Stop s =
    (if es_stopped s \<and> (es_videoSync s \<or> es_broadcaster s \<noteq> None) then None
     else Some (s\<lparr>es_stopped := True\<rparr>))"

section \<open>The callbacks\<close>

definition es_OnOpen :: "int \<Rightarrow> int64 \<Rightarrow> conn \<Rightarrow> EdgeServer \<Rightarrow> action \<times> EdgeServer" where
  "es_OnOpen nanos now c s =
    (let connID = es_nodeId s @ ''-'' @ FormatInt nanos;
         ctx = (new_ConnContext connID)\<lparr>LastActiveTime := now\<rparr>
     in (ActNone, s\<lparr>es_ctx := (es_ctx s)(c \<mapsto> ctx), es_conns := AList.update connID c (es_conns s)\<rparr>))"

definition es_OnClose :: "conn \<Rightarrow> EdgeServer \<Rightarrow> action \<times> EdgeServer" where
  "es_OnClose c s =
    (case es_ctx s c of
       None \<Rightarrow> (ActNone, s)
     | Some ctx \<Rightarrow>
       let t = es_tables s;
           t = t\<lparr>e_sessions := RemoveSession (UserID ctx) (e_store t) (e_sessions t)\<rparr>;
           t = (if sint (RoomID ctx) > 0 then t\<lparr>e_rooms := rm_RemoveSession (RoomID ctx) (UserID ctx) (e_rooms t)\<rparr> else t)
       in (ActNone, s\<lparr>es_tables := t, es_conns := AList.delete (ConnID ctx) (es_conns s)\<rparr>))"

definition es_handleHandshake ::
  "bytes option \<Rightarrow> conn \<Rightarrow> ConnContext \<Rightarrow> EdgeServer \<Rightarrow> action \<times> traffic_effect list \<times> EdgeServer" where
  "es_handleHandshake received c ctx s =
    (case received of
       None \<Rightarrow> (ActClose, [], s)
     | Some data \<Rightarrow>
       let ctx = ctx\<lparr>HandshakeBuffer := HandshakeBuffer ctx @ data\<rparr>;
           s = s\<lparr>es_ctx := (es_ctx s)(c \<mapsto> ctx)\<rparr>
       in if length (HandshakeBuffer ctx) > 4096 then (ActClose, [], s)
          else if \<not> contains_crlf2 (HandshakeBuffer ctx) then (ActNone, [], s)
          else case BuildWebSocketHandshakeResponse (HandshakeBuffer ctx) of
                 Inl err \<Rightarrow> (ActClose, [], s)
               | Inr resp \<Rightarrow>
                   (ActNone, [Reply (AsyncWrite c resp)],
                    s\<lparr>es_ctx := (es_ctx s)(c \<mapsto> ctx\<lparr>HandshakeDone := True, HandshakeBuffer := []\<rparr>)\<rparr>))"

fun es_serve_frames ::
  "(nat \<Rightarrow> bool) \<Rightarrow> conn \<Rightarrow> nat \<Rightarrow> WebSocketFrame list \<Rightarrow> action \<times> traffic_effect list" where
  "es_serve_frames accepts c k [] = (ActNone, [])"
| "es_serve_frames accepts c k (frame # frames) =
    (if wf_Opcode frame = OpPing then
       (case es_serve_frames accepts c k frames of
          (act, es) \<Rightarrow> (act, Reply (AsyncWrite c (BuildPongFrame (wf_Payload frame))) # es))
     else if wf_Opcode frame = OpClose then
       (let closeCode = (if length (wf_Payload frame) \<ge> 2 then be_uint (take 2 (wf_Payload frame)) else 1000)
        in (ActClose, [Reply (AsyncWrite c (BuildCloseFrame (put_be 2 closeCode)))]))
     else if wf_Opcode frame = OpBinary then
       (case es_serve_frames accepts c (Suc k) frames of
          (act, es) \<Rightarrow> (act, if accepts k then Submit \<lparr>task_Conn = c, task_Data = wf_Payload frame\<rparr> # es else es))
     else es_serve_frames accepts c k frames)"

definition es_handleWebSocketTraffic ::
  "(nat \<Rightarrow> bool) \<Rightarrow> bytes option \<Rightarrow> conn \<Rightarrow> ConnContext \<Rightarrow> EdgeServer \<Rightarrow>
   action \<times> traffic_effect list \<times> EdgeServer" where
  "es_handleWebSocketTraffic accepts received c ctx s =
    (case received of
       None \<Rightarrow> (ActClose, [], s)
     | Some data \<Rightarrow>
       let ctx = ctx\<lparr>ReadBuffer := ReadBuffer ctx @ data\<rparr>;
           s = s\<lparr>es_ctx := (es_ctx s)(c \<mapsto> ctx)\<rparr>
       in if length (ReadBuffer ctx) > 130 * 1024 then (ActClose, [], s)
          else case DecodeWebSocketFrames (ReadBuffer ctx) of
                 (frames, consumed, Some err) \<Rightarrow> (ActClose, [], s)
               | (frames, consumed, None) \<Rightarrow>
                   let s = (if consumed > 0
                            then s\<lparr>es_ctx := (es_ctx s)(c \<mapsto> ctx\<lparr>ReadBuffer := drop consumed (ReadBuffer ctx)\<rparr>)\<rparr>
                            else s)
                   in case es_serve_frames accepts c 0 frames of (act, es) \<Rightarrow> (act, es, s))"

definition es_OnTraffic ::
  "int64 \<Rightarrow> (nat \<Rightarrow> bool) \<Rightarrow> bytes option \<Rightarrow> conn \<Rightarrow> EdgeServer \<Rightarrow> action \<times> traffic_effect list \<times> EdgeServer" where
  "es_OnTraffic now accepts received c s =
    (case es_ctx s c of
       None \<Rightarrow> (ActClose, [], s)
     | Some ctx \<Rightarrow>
       let ctx = ctx\<lparr>LastActiveTime := now\<rparr>;
           s = s\<lparr>es_ctx := (es_ctx s)(c \<mapsto> ctx)\<rparr>
       in if \<not> HandshakeDone ctx then es_handleHandshake received c ctx s
          else es_handleWebSocketTraffic accepts received c ctx s)"

text \<open>\<open>OnTick\<close>: nothing to do, again in a second (in nanoseconds).\<close>

definition es_OnTick :: "int \<times> action" where
  "es_OnTick = (1000000000, ActNone)"

section \<open>Inbound messages\<close>

text \<open>The clock readings of a handler. A panic of a handler is \<open>None\<close>.\<close>

record es_clock =
  now_s :: int64
  now_ms :: int64

definition es_handleJoinRoom :: "es_clock \<Rightarrow> edge_codec \<Rightarrow> conn \<Rightarrow> ConnContext \<Rightarrow> Frame \<Rightarrow> EdgeServer \<Rightarrow> EdgeServer" where
  "es_handleJoinRoom clk cdc c ctx frame s =
    (case Unmarshal_JoinRoomReq cdc (f_Payload frame) of
       None \<Rightarrow> s
     | Some req \<Rightarrow>
       let ctx = ctx\<lparr>UserID := join_UserId req, RoomID := join_RoomId req, IsPremium := join_IsPremium req\<rparr>;
           s = s\<lparr>es_ctx := (es_ctx s)(c \<mapsto> ctx)\<rparr>;
           t = es_tables s
       in case CreateSession (now_ms clk) (join_UserId req) (join_RoomId req) (ConnID ctx) (LoopIdx ctx)
                 (join_IsPremium req) (e_store t) (e_sessions t) of
            (session, st, m) \<Rightarrow>
              s\<lparr>es_tables := t\<lparr>e_store := st, e_sessions := m,
                              e_rooms := rm_AddSession (join_RoomId req) session st (e_rooms t)\<rparr>\<rparr>)"

definition es_handleChat ::
  "es_clock \<Rightarrow> edge_codec \<Rightarrow> conn \<Rightarrow> ConnContext \<Rightarrow> Frame \<Rightarrow> EdgeServer \<Rightarrow> EdgeServer option" where
  "es_handleChat clk cdc c ctx frame s =
    (if RoomID ctx = 0 \<or> UserID ctx = 0 then Some s
     else case Unmarshal_ChatMsg cdc (f_Payload frame) of
       None \<Rightarrow> Some s
     | Some chatMsg \<Rightarrow>
       let d = \<lparr>d_RoomId = RoomID ctx, d_UserId = UserID ctx, d_SenderConnId = ConnID ctx,
                d_VideoTS = f_Timestamp frame, d_SendTS = now_ms clk,
                d_Payload = bytes_of_string (chat_Content chatMsg), d_IsPremium = IsPremium ctx\<rparr>
       in case es_broadcaster s of
            None \<Rightarrow> None
          | Some b \<Rightarrow>
            (case edge_BroadcastLocal (Some d) b (es_counts s) of
               None \<Rightarrow> None
             | Some (b, mt) \<Rightarrow> Some (s\<lparr>es_broadcaster := Some b, es_counts := mt\<rparr>)))"

definition es_handleHeartbeat :: "es_clock \<Rightarrow> conn \<Rightarrow> ConnContext \<Rightarrow> EdgeServer \<Rightarrow> EdgeServer" where
  "es_handleHeartbeat clk c ctx s = s\<lparr>es_ctx := (es_ctx s)(c \<mapsto> ctx\<lparr>LastActiveTime := now_s clk\<rparr>)\<rparr>"

definition es_handleInbound :: "es_clock \<Rightarrow> edge_codec \<Rightarrow> InboundTask \<Rightarrow> EdgeServer \<Rightarrow> EdgeServer option" where
  "es_handleInbound clk cdc task s =
    (case Unmarshal_Frame cdc (task_Data task) of
       None \<Rightarrow> Some s
     | Some frame \<Rightarrow>
       (case es_ctx s (task_Conn task) of
          None \<Rightarrow> Some s
        | Some ctx \<Rightarrow>
          if f_Op frame = OpType_OP_JOIN_ROOM then Some (es_handleJoinRoom clk cdc (task_Conn task) ctx frame s)
          else if f_Op frame = OpType_OP_CHAT then es_handleChat clk cdc (task_Conn task) ctx frame s
          else if f_Op frame = OpType_OP_HEARTBEAT then Some (es_handleHeartbeat clk (task_Conn task) ctx s)
          else Some s))"

section \<open>Calls from outside\<close>

definition SendToConn :: "string \<Rightarrow> bytes \<Rightarrow> EdgeServer \<Rightarrow> string option \<times> net_action list" where
  "SendToConn connId data s =
    (case map_of (es_conns s) connId of
       None \<Rightarrow> (Some (''connection not found: '' @ connId), [])
     | Some c \<Rightarrow> (None, [AsyncWrite c data]))"

definition BroadcastToRoom :: "int64 \<Rightarrow> bytes \<Rightarrow> EdgeServer \<Rightarrow> net_action list" where
  "BroadcastToRoom roomId data s =
    concat (map (\<lambda>i. snd (SendToConn (us_ConnId (e_store (es_tables s) ! i)) data s))
      (rm_GetSessions (e_rooms (es_tables s)) roomId))"

record es_stats =
  node_id :: string
  total_conns :: nat
  total_rooms :: int64
  total_sessions :: int64

definition GetStats :: "EdgeServer \<Rightarrow> es_stats" where
  "GetStats s =
    \<lparr>node_id = es_nodeId s, total_conns = length (es_conns s), total_rooms = GetTotalRooms (e_rooms (es_tables s)),
     total_sessions = GetTotalSessionCount (e_sessions (es_tables s))\<rparr>"

section \<open>Traffic as on a node\<close>

lemma es_serve_frames_eq: "es_serve_frames accepts c k fs = serve_frames True accepts c k fs"
  by (induction fs arbitrary: k) (simp_all add: close_payload_def Let_def)

text \<open>
  C30: an edge node treats the bytes of a connection as a node of the current program does. On equal contexts, both
  take the same action, write the same bytes, submit the same tasks, and leave equal contexts; nothing
  else of the edge server changes.
\<close>

theorem edge_traffic_as_node:
  assumes "es_ctx s = nctx n" and "OnTraffic True now accepts received c n = (act, es, n')"
  shows "es_OnTraffic now accepts received c s = (act, es, s\<lparr>es_ctx := nctx n'\<rparr>)"
proof -
  have hs: "es_handleHandshake received c ctx (s\<lparr>es_ctx := nctx m\<rparr>) =
      (case handleHandshake received c ctx m of (act, es, m') \<Rightarrow> (act, es, s\<lparr>es_ctx := nctx m'\<rparr>))" for ctx m
    by (simp add: es_handleHandshake_def handleHandshake_def Let_def split: option.splits sum.splits)
  have tr: "es_handleWebSocketTraffic accepts received c ctx (s\<lparr>es_ctx := nctx m\<rparr>) =
      (case handleWebSocketTraffic True accepts received c ctx m of (act, es, m') \<Rightarrow> (act, es, s\<lparr>es_ctx := nctx m'\<rparr>))" for ctx m
    by (simp add: es_handleWebSocketTraffic_def handleWebSocketTraffic_def es_serve_frames_eq Let_def
        split: option.splits prod.splits)
  show ?thesis
  proof (cases "nctx n c")
    case None
    then have "act = ActClose" "es = []" "n' = n" using assms(2) by (simp_all add: OnTraffic_def)
    then show ?thesis using assms(1) None by (simp add: es_OnTraffic_def flip: assms(1))
  next
    case (Some ctx)
    let ?ctx = "ctx\<lparr>LastActiveTime := now\<rparr>"
    let ?m = "n\<lparr>nctx := (nctx n)(c \<mapsto> ?ctx)\<rparr>"
    have s: "s\<lparr>es_ctx := (es_ctx s)(c \<mapsto> ?ctx)\<rparr> = s\<lparr>es_ctx := nctx ?m\<rparr>" using assms(1) by simp
    show ?thesis
      using assms(2) Some hs [of ?ctx ?m] tr [of ?ctx ?m]
      by (simp add: es_OnTraffic_def OnTraffic_def assms(1) Let_def split: if_splits)
  qed
qed

section \<open>Joining and leaving\<close>

lemma GetConnCount_Add:
  "GetConnCount (rm_AddSession \<rho> i st m) \<rho>' = (if \<rho>' = \<rho> then GetConnCount m \<rho> + 1 else GetConnCount m \<rho>')"
  by (auto simp: rm_AddSession_def rm_GetOrCreate_def GetConnCount_def Let_def split: option.splits)

text \<open>The users a room of the map lists, with the place of their session.\<close>

definition listed :: "RoomMap \<Rightarrow> int64 \<Rightarrow> int64 \<rightharpoonup> nat" where
  "listed m \<rho> = (case map_of (rooms m) \<rho> of None \<Rightarrow> Map.empty | Some room \<Rightarrow> map_of (ri_sessions room))"

lemma listed_Add:
  "listed (rm_AddSession \<rho> i st m) \<rho>' = (if \<rho>' = \<rho> then (listed m \<rho>)(us_UserId (st ! i) \<mapsto> i) else listed m \<rho>')"
  by (auto simp: rm_AddSession_def rm_GetOrCreate_def listed_def Let_def split: option.splits)

lemma listed_Remove: "listed (rm_RemoveSession \<rho> u m) \<rho>' = (if \<rho>' = \<rho> then (listed m \<rho>)(u := None) else listed m \<rho>')"
  by (auto simp: rm_RemoveSession_def listed_def Let_def fun_upd_idem split: option.splits)

lemma GetConnCount_Remove:
  "GetConnCount (rm_RemoveSession \<rho> u m) \<rho>' =
    (if \<rho>' = \<rho> \<and> listed m \<rho> u \<noteq> None then GetConnCount m \<rho> - 1 else GetConnCount m \<rho>')"
  by (auto simp: rm_RemoveSession_def GetConnCount_def listed_def Let_def split: option.splits)

lemma set_rm_GetSessions:
  assumes "rm_ok st m"
  shows "set (rm_GetSessions m \<rho>) = ran (listed m \<rho>)"
proof (cases "map_of (rooms m) \<rho>")
  case (Some room)
  then show ?thesis using rm_okD(2) [OF assms Some] by (simp add: rm_GetSessions_def listed_def ran_distinct)
qed (simp add: rm_GetSessions_def listed_def)

lemma listed_valid: "rm_ok st m \<Longrightarrow> listed m \<rho> u = Some i \<Longrightarrow> i < length st \<and> us_UserId (st ! i) = u"
  using rm_okD(3) [of st m \<rho> _ u i] by (auto simp: listed_def split: option.splits dest: map_of_SomeD)

lemma rm_ok_extend:
  assumes "rm_ok st m" and "\<exists>ext. st' = st @ ext"
  shows "rm_ok st' m"
  using assms by (fastforce simp: rm_ok_def room_ok_def nth_append)

lemma rm_ok_Add:
  assumes "rm_ok st m" and "i < length st"
  shows "rm_ok st (rm_AddSession \<rho> i st m)"
proof -
  obtain room m1 where g: "rm_GetOrCreate \<rho> m = (room, m1)" by (cases "rm_GetOrCreate \<rho> m")
  have room: "room_ok st \<rho> room" and m1: "rm_ok st m1"
  proof -
    have new: "room_ok st \<rho> \<lparr>ri_RoomId = \<rho>, ri_CurrentVideoTS = 0, ri_LastUpdateAt = 0, ri_connCount = 0, ri_sessions = []\<rparr>"
      by (simp add: room_ok_def)
    show "room_ok st \<rho> room" using g new rm_okD [OF assms(1)] by (auto simp: rm_GetOrCreate_def room_ok_def Let_def split: option.splits)
    show "rm_ok st m1" using g assms(1) rm_ok_update [OF assms(1) new] by (auto simp: rm_GetOrCreate_def Let_def split: option.splits)
  qed
  let ?room = "room\<lparr>ri_sessions := AList.update (us_UserId (st ! i)) i (ri_sessions room),
      ri_LastUpdateAt := us_JoinedAt (st ! i), ri_connCount := ri_connCount room + 1\<rparr>"
  have "room_ok st \<rho> ?room"
    using room assms(2) set_alist_update [of "us_UserId (st ! i)" i "ri_sessions room"]
    by (fastforce simp: room_ok_def distinct_update)
  from rm_ok_update [OF m1 this] show ?thesis by (simp add: rm_AddSession_def g Let_def)
qed

lemma rm_ok_Remove:
  assumes "rm_ok st m"
  shows "rm_ok st (rm_RemoveSession \<rho> u m)"
proof (cases "\<exists>room. map_of (rooms m) \<rho> = Some room \<and> map_of (ri_sessions room) u \<noteq> None")
  case True
  then obtain room where room: "map_of (rooms m) \<rho> = Some room" "map_of (ri_sessions room) u \<noteq> None" by blast
  have "room_ok st \<rho> (room\<lparr>ri_sessions := AList.delete u (ri_sessions room), ri_connCount := ri_connCount room - 1\<rparr>)"
    using rm_okD [OF assms room(1)] by (auto simp: room_ok_def distinct_delete [simplified delete_filter] delete_filter)
  from rm_ok_update [OF assms this] room show ?thesis by (simp add: rm_RemoveSession_def Let_def)
next
  case False
  then show ?thesis using assms by (auto simp: rm_RemoveSession_def split: option.splits)
qed

lemma close_ok: "edge_ok (es_tables s) \<Longrightarrow> edge_ok (es_tables (snd (es_OnClose c s)))"
  by (auto simp: es_OnClose_def edge_ok_def sm_ok_Remove rm_ok_Remove Let_def split: option.splits)

text \<open>A join, with what it does to the tables.\<close>

lemma Create_extends:
  "CreateSession now u \<rho> cid l pr st m = (i, st', m') \<Longrightarrow> \<exists>ext. st' = st @ ext"
  by (auto simp: CreateSession_def Let_def split: option.splits)

lemma join_ok:
  assumes "edge_ok (es_tables s)"
  shows "edge_ok (es_tables (es_handleJoinRoom clk cdc c ctx frame s))"
proof (cases "Unmarshal_JoinRoomReq cdc (f_Payload frame)")
  case None
  then show ?thesis using assms by (simp add: es_handleJoinRoom_def)
next
  case (Some req)
  let ?t = "es_tables s"
  obtain i st m where cr: "CreateSession (now_ms clk) (join_UserId req) (join_RoomId req) (ConnID ctx) (LoopIdx ctx)
      (join_IsPremium req) (e_store ?t) (e_sessions ?t) = (i, st, m)" by (metis prod_cases3)
  have ok: "sm_ok (e_store ?t) (e_sessions ?t)" "rm_ok (e_store ?t) (e_rooms ?t)" using assms by (auto simp: edge_ok_def)
  from sm_ok_Create [OF ok(1) cr] have m: "sm_ok st m" "map_of (sessions m) (join_UserId req) = Some i" by auto
  have "rm_ok st (rm_AddSession (join_RoomId req) i st (e_rooms ?t))"
    using sm_okD(2) [OF m] by (intro rm_ok_Add rm_ok_extend [OF ok(2) Create_extends [OF cr]]) auto
  then show ?thesis using m(1) by (simp add: es_handleJoinRoom_def Some cr edge_ok_def Let_def)
qed

lemma join_fresh:
  assumes "Unmarshal_JoinRoomReq cdc (f_Payload frame) = Some req"
    and "GetSession (e_sessions (es_tables s)) (join_UserId req) = None"
  shows "es_handleJoinRoom clk cdc c ctx frame s =
    (let t = es_tables s; i = length (e_store t);
         st = e_store t @ [NewUserSession (now_ms clk) (join_UserId req) (join_RoomId req) (ConnID ctx) (LoopIdx ctx) (join_IsPremium req)]
     in s\<lparr>es_ctx := (es_ctx s)(c \<mapsto> ctx\<lparr>UserID := join_UserId req, RoomID := join_RoomId req, IsPremium := join_IsPremium req\<rparr>),
          es_tables := t\<lparr>e_store := st,
            e_sessions := snd (snd (CreateSession (now_ms clk) (join_UserId req) (join_RoomId req) (ConnID ctx) (LoopIdx ctx)
              (join_IsPremium req) (e_store t) (e_sessions t))),
            e_rooms := rm_AddSession (join_RoomId req) i st (e_rooms t)\<rparr>\<rparr>)"
  using assms by (simp add: es_handleJoinRoom_def CreateSession_def GetSession_def Let_def)

lemma join_known:
  assumes "Unmarshal_JoinRoomReq cdc (f_Payload frame) = Some req"
    and "GetSession (e_sessions (es_tables s)) (join_UserId req) = Some i"
  shows "es_handleJoinRoom clk cdc c ctx frame s =
    s\<lparr>es_ctx := (es_ctx s)(c \<mapsto> ctx\<lparr>UserID := join_UserId req, RoomID := join_RoomId req, IsPremium := join_IsPremium req\<rparr>),
      es_tables := (es_tables s)\<lparr>e_rooms := rm_AddSession (join_RoomId req) i (e_store (es_tables s)) (e_rooms (es_tables s))\<rparr>\<rparr>"
  using assms by (simp add: es_handleJoinRoom_def CreateSession_def GetSession_def Let_def)

text \<open>The state after a first join, and after the close that follows, seen through the tables.\<close>

lemma fresh_join_tables:
  assumes "Unmarshal_JoinRoomReq cdc (f_Payload frame) = Some req"
    and "GetSession (e_sessions (es_tables s)) (join_UserId req) = None"
    and "s1 = es_handleJoinRoom clk cdc c ctx frame s"
  shows "room_list (e_sessions (es_tables s1)) \<rho> =
      (if \<rho> = join_RoomId req then room_list (e_sessions (es_tables s)) \<rho> @ [length (e_store (es_tables s))]
       else room_list (e_sessions (es_tables s)) \<rho>)"
    and "listed (e_rooms (es_tables s1)) \<rho> =
      (if \<rho> = join_RoomId req then (listed (e_rooms (es_tables s)) \<rho>)(join_UserId req \<mapsto> length (e_store (es_tables s)))
       else listed (e_rooms (es_tables s)) \<rho>)"
    and "GetConnCount (e_rooms (es_tables s1)) \<rho> =
      (if \<rho> = join_RoomId req then GetConnCount (e_rooms (es_tables s)) \<rho> + 1 else GetConnCount (e_rooms (es_tables s)) \<rho>)"
    and "e_store (es_tables s1) = e_store (es_tables s) @
      [NewUserSession (now_ms clk) (join_UserId req) (join_RoomId req) (ConnID ctx) (LoopIdx ctx) (join_IsPremium req)]"
    and "es_ctx s1 c = Some (ctx\<lparr>UserID := join_UserId req, RoomID := join_RoomId req, IsPremium := join_IsPremium req\<rparr>)"
    and "es_conns s1 = es_conns s"
    and "GetSession (e_sessions (es_tables s1)) (join_UserId req) = Some (length (e_store (es_tables s)))"
    and "activeCount (e_sessions (es_tables s1)) = activeCount (e_sessions (es_tables s)) + 1"
  using assms(2)
  by (auto simp: assms(3) join_fresh [OF assms(1,2)] room_list_Create [OF assms(2) [unfolded GetSession_def]] listed_Add
      GetConnCount_Add NewUserSession_def Let_def) (auto simp: CreateSession_def GetSession_def Let_def)

lemma close_tables:
  assumes "es_ctx s c = Some ctx" and "0 < sint (RoomID ctx)" and "sm_ok (e_store (es_tables s)) (e_sessions (es_tables s))"
    and "s1 = snd (es_OnClose c s)"
  shows "room_list (e_sessions (es_tables s1)) \<rho> =
      filter (\<lambda>i. us_UserId (e_store (es_tables s) ! i) \<noteq> UserID ctx) (room_list (e_sessions (es_tables s)) \<rho>)"
    and "listed (e_rooms (es_tables s1)) \<rho> =
      (if \<rho> = RoomID ctx then (listed (e_rooms (es_tables s)) \<rho>)(UserID ctx := None) else listed (e_rooms (es_tables s)) \<rho>)"
    and "GetConnCount (e_rooms (es_tables s1)) \<rho> =
      (if \<rho> = RoomID ctx \<and> listed (e_rooms (es_tables s)) \<rho> (UserID ctx) \<noteq> None
       then GetConnCount (e_rooms (es_tables s)) \<rho> - 1 else GetConnCount (e_rooms (es_tables s)) \<rho>)"
    and "e_store (es_tables s1) = e_store (es_tables s)"
    and "GetSession (e_sessions (es_tables s1)) (UserID ctx) = None"
    and "GetSession (e_sessions (es_tables s)) (UserID ctx) \<noteq> None \<Longrightarrow>
      activeCount (e_sessions (es_tables s1)) = activeCount (e_sessions (es_tables s)) - 1"
  using assms(1,2)
  by (auto simp: assms(4) es_OnClose_def Let_def room_list_Remove [OF assms(3)] listed_Remove GetConnCount_Remove)
    (auto simp: GetSession_def RemoveSession_def Let_def split: option.splits)

section \<open>Properties of joining\<close>

text \<open>
  On an edge node, joining and leaving undo each other. A connection that joins a room as a user without
  a session gets a new session, listed last in the room's sessions and counted once; what is broadcast to the room
  is written to the connection. When the connection closes, every room has the sessions and the count it had.
\<close>

theorem edge_join_then_leave:
  assumes "edge_ok (es_tables s)" and "map_of (es_conns s) (ConnID ctx) = Some c"
    and "Unmarshal_JoinRoomReq cdc (f_Payload frame) = Some req" and "0 < sint (join_RoomId req)"
    and "GetSession (e_sessions (es_tables s)) (join_UserId req) = None"
    and "listed (e_rooms (es_tables s)) (join_RoomId req) (join_UserId req) = None"
    and "s1 = es_handleJoinRoom clk cdc c ctx frame s" and "s2 = snd (es_OnClose c s1)"
  shows "GetRoomSessions (e_sessions (es_tables s1)) (join_RoomId req) =
      GetRoomSessions (e_sessions (es_tables s)) (join_RoomId req) @ [length (e_store (es_tables s))] \<and>
    GetConnCount (e_rooms (es_tables s1)) (join_RoomId req) = GetConnCount (e_rooms (es_tables s)) (join_RoomId req) + 1 \<and>
    AsyncWrite c data \<in> set (BroadcastToRoom (join_RoomId req) data s1) \<and>
    GetRoomSessions (e_sessions (es_tables s2)) \<rho> = GetRoomSessions (e_sessions (es_tables s)) \<rho> \<and>
    listed (e_rooms (es_tables s2)) \<rho> = listed (e_rooms (es_tables s)) \<rho> \<and>
    GetConnCount (e_rooms (es_tables s2)) \<rho> = GetConnCount (e_rooms (es_tables s)) \<rho> \<and>
    GetActiveSessionCount (e_sessions (es_tables s2)) = GetActiveSessionCount (e_sessions (es_tables s))"
proof -
  let ?n = "length (e_store (es_tables s))" and ?u = "join_UserId req"
  note j = fresh_join_tables [OF assms(3,5,7)]
  have ok1: "edge_ok (es_tables s1)" unfolding assms(7) by (rule join_ok [OF assms(1)])
  then have sm1: "sm_ok (e_store (es_tables s1)) (e_sessions (es_tables s1))" by (simp add: edge_ok_def)
  note c = close_tables [OF j(5) _ sm1 assms(8)]
  have "?n \<in> set (rm_GetSessions (e_rooms (es_tables s1)) (join_RoomId req))"
    using ok1 by (auto simp: edge_ok_def set_rm_GetSessions j(2) ran_def)
  moreover have "SendToConn (us_ConnId (e_store (es_tables s1) ! ?n)) data s1 = (None, [AsyncWrite c data])"
    by (simp add: SendToConn_def j(4,6) NewUserSession_def assms(2))
  ultimately have "AsyncWrite c data \<in> set (BroadcastToRoom (join_RoomId req) data s1)"
    by (force simp: BroadcastToRoom_def)
  moreover have "us_UserId (e_store (es_tables s1) ! i) \<noteq> ?u"
    if "i \<in> set (room_list (e_sessions (es_tables s)) \<rho>')" for i \<rho>'
    using sm_okD(5) [of "e_store (es_tables s)", OF _ that] assms(1,5) by (auto simp: j(4) nth_append edge_ok_def GetSession_def)
  then have "filter (\<lambda>i. us_UserId (e_store (es_tables s1) ! i) \<noteq> ?u) (room_list (e_sessions (es_tables s)) \<rho>) =
      room_list (e_sessions (es_tables s)) \<rho>" by simp
  moreover have "us_UserId (e_store (es_tables s1) ! ?n) = ?u" by (simp add: j(4) NewUserSession_def)
  ultimately show ?thesis
    using assms(4,6) j(7,8) by (auto simp: GetRoomSessions_def GetActiveSessionCount_def c j(1,2,3) fun_upd_idem)
qed

text \<open>A server without sessions and one connection, and a codec whose first payload byte is the room.\<close>

definition join_sample :: EdgeServer where
  "join_sample =
    \<lparr>es_nodeId = ''e'', es_wsAddr = '''', es_httpAddr = '''',
     es_tables = \<lparr>e_store = [], e_sessions = NewSessionManager, e_rooms = NewRoomMap, e_engine = NewVideoSyncEngine\<rparr>,
     es_videoSync = False, es_broadcaster = None, es_consumer = False, es_stopped = False,
     es_conns = [(''e-1'', 7)], es_ctx = [7 \<mapsto> new_ConnContext ''e-1''], es_counts = no_metrics\<rparr>"

definition join_codec :: edge_codec where
  "join_codec = edge_sample_codec\<lparr>Unmarshal_JoinRoomReq := \<lambda>b.
    Some \<lparr>join_RoomId = ucast (hd b), join_UserId = 9, join_IsPremium = False, join_Token = ''''\<rparr>\<rparr>"

definition join_frame :: "byte \<Rightarrow> Frame" where
  "join_frame room = \<lparr>f_Op = OpType_OP_JOIN_ROOM, f_RoomId = 0, f_UserId = 0, f_Payload = [room], f_Timestamp = 0\<rparr>"

lemma join_codec_req: "Unmarshal_JoinRoomReq join_codec (f_Payload (join_frame b)) =
    Some \<lparr>join_RoomId = ucast b, join_UserId = 9, join_IsPremium = False, join_Token = ''''\<rparr>"
  by (simp add: join_codec_def join_frame_def)

lemma join_sample_facts:
  "edge_ok (es_tables join_sample)" "map_of (es_conns join_sample) (ConnID (new_ConnContext ''e-1'')) = Some 7"
  "GetSession (e_sessions (es_tables join_sample)) 9 = None" "listed (e_rooms (es_tables join_sample)) 5 9 = None"
  "GetRoomSessions (e_sessions (es_tables join_sample)) \<rho> = []" "e_store (es_tables join_sample) = []"
  "GetConnCount (e_rooms (es_tables join_sample)) \<rho> = 0"
  using sm_ok_New
  by (simp_all add: join_sample_def edge_ok_def rm_ok_def NewRoomMap_def new_ConnContext_def GetSession_def
      NewSessionManager_def listed_def GetRoomSessions_def room_list_def GetConnCount_def)

theorem edge_traffic_as_node_witness:
  "\<exists>s'. es_OnTraffic 5 (\<lambda>_. True) (Some [0x89, 0x80, 0, 0, 0, 0]) 7
      (join_sample\<lparr>es_ctx := [7 \<mapsto> (new_ConnContext ''e-1'')\<lparr>HandshakeDone := True\<rparr>]\<rparr>) =
    (ActNone, [Reply (AsyncWrite 7 (BuildPongFrame []))], s')"
proof -
  let ?ctxs = "[7 \<mapsto> (new_ConnContext ''e-1'')\<lparr>HandshakeDone := True\<rparr>]"
  let ?n = "chat_node\<lparr>nctx := ?ctxs\<rparr>" and ?s = "join_sample\<lparr>es_ctx := ?ctxs\<rparr>"
  have d: "DecodeWebSocketFrames [0x89, 0x80, 0, 0, 0, 0] = ([\<lparr>wf_Opcode = OpPing, wf_Payload = []\<rparr>], 6, None)"
    by (simp add: DecodeWebSocketFrames_def decode_loop.simps decodeOneFrame_def check_header_def extended_length_def
        unmask_def MaxWebSocketPayloadSize_def OpPing_def)
  obtain n' where o: "OnTraffic True 5 (\<lambda>_. True) (Some [0x89, 0x80, 0, 0, 0, 0]) 7 ?n =
      (ActNone, [Reply (AsyncWrite 7 (BuildPongFrame []))], n')"
    by (simp add: OnTraffic_def handleWebSocketTraffic_def new_ConnContext_def d Let_def)
  have "es_ctx ?s = nctx ?n" by simp
  from edge_traffic_as_node [OF this o] show ?thesis by blast
qed

theorem edge_join_then_leave_witness:
  "let s1 = es_handleJoinRoom \<lparr>now_s = 1, now_ms = 2\<rparr> join_codec 7 (new_ConnContext ''e-1'') (join_frame 5) join_sample in
     GetRoomSessions (e_sessions (es_tables s1)) 5 = [0] \<and> AsyncWrite 7 [1] \<in> set (BroadcastToRoom 5 [1] s1)"
  using edge_join_then_leave [OF join_sample_facts(1,2) join_codec_req [of 5] _ _ _ HOL.refl HOL.refl,
      of "\<lparr>now_s = 1, now_ms = 2\<rparr>" "[1]" 0] join_sample_facts
  by (simp add: Let_def)

text \<open>
  Changing rooms strands a session on an edge node. When the connection of a user who has joined a room joins
  a second one, the session stays the first room's: danmaku of the second room never reach its buffer, those
  of the first still do. When the connection closes, the first room's map keeps listing the session and
  counting it.
\<close>

theorem edge_second_join_strands:
  assumes "edge_ok (es_tables s)"
    and "Unmarshal_JoinRoomReq cdc (f_Payload frame) = Some req" and "Unmarshal_JoinRoomReq cdc (f_Payload frame') = Some req'"
    and "join_UserId req' = join_UserId req" and "join_RoomId req' \<noteq> join_RoomId req" and "0 < sint (join_RoomId req')"
    and "GetSession (e_sessions (es_tables s)) (join_UserId req) = None"
    and "s1 = es_handleJoinRoom clk cdc c ctx frame s" and "s2 = es_handleJoinRoom clk' cdc c (the (es_ctx s1 c)) frame' s1"
    and "s3 = snd (es_OnClose c s2)"
  shows "GetRoomSessions (e_sessions (es_tables s2)) (join_RoomId req') = GetRoomSessions (e_sessions (es_tables s)) (join_RoomId req') \<and>
    length (e_store (es_tables s)) \<in> set (GetRoomSessions (e_sessions (es_tables s2)) (join_RoomId req)) \<and>
    GetSession (e_sessions (es_tables s3)) (join_UserId req) = None \<and>
    length (e_store (es_tables s)) \<in> set (rm_GetSessions (e_rooms (es_tables s3)) (join_RoomId req)) \<and>
    GetConnCount (e_rooms (es_tables s3)) (join_RoomId req) = GetConnCount (e_rooms (es_tables s)) (join_RoomId req) + 1"
proof -
  let ?n = "length (e_store (es_tables s))"
  note j = fresh_join_tables [OF assms(2,7,8)]
  have ok2: "edge_ok (es_tables s2)" unfolding assms(8,9) by (intro join_ok assms(1))
  have k: "e_sessions (es_tables s2) = e_sessions (es_tables s1)" "e_store (es_tables s2) = e_store (es_tables s1)"
    "e_rooms (es_tables s2) = rm_AddSession (join_RoomId req') ?n (e_store (es_tables s1)) (e_rooms (es_tables s1))"
    "\<exists>ctx'. es_ctx s2 c = Some ctx' \<and> UserID ctx' = join_UserId req \<and> RoomID ctx' = join_RoomId req'"
    using join_known [OF assms(3), of s1 ?n] j(7) by (auto simp: assms(4,9))
  obtain ctx' where ctx': "es_ctx s2 c = Some ctx'" "UserID ctx' = join_UserId req" "RoomID ctx' = join_RoomId req'"
    using k(4) by blast
  have sm2: "sm_ok (e_store (es_tables s2)) (e_sessions (es_tables s2))" using ok2 by (simp add: edge_ok_def)
  note c = close_tables [OF ctx'(1) _ sm2 assms(10), unfolded ctx'(2,3), OF assms(6)]
  have rm2: "rm_ok (e_store (es_tables s2)) (e_rooms (es_tables s2))" using ok2 by (simp add: edge_ok_def)
  have "listed (e_rooms (es_tables s3)) (join_RoomId req) (join_UserId req) = Some ?n"
    using assms(5) by (simp add: c(2) k(3) listed_Add j(2))
  moreover have "rm_ok (e_store (es_tables s3)) (e_rooms (es_tables s3))"
    using close_ok [OF ok2, of c] by (simp add: assms(10) edge_ok_def)
  ultimately have "?n \<in> set (rm_GetSessions (e_rooms (es_tables s3)) (join_RoomId req))"
    by (auto simp: set_rm_GetSessions ran_def)
  then show ?thesis
    using assms(5) by (auto simp: GetRoomSessions_def k(1,3) j(1,3) c(3,5) GetConnCount_Add)
qed

theorem edge_second_join_strands_witness:
  "let s1 = es_handleJoinRoom \<lparr>now_s = 1, now_ms = 2\<rparr> join_codec 7 (new_ConnContext ''e-1'') (join_frame 5) join_sample;
       s2 = es_handleJoinRoom \<lparr>now_s = 3, now_ms = 4\<rparr> join_codec 7 (the (es_ctx s1 7)) (join_frame 6) s1
   in GetRoomSessions (e_sessions (es_tables s2)) 6 = [] \<and>
      GetConnCount (e_rooms (es_tables (snd (es_OnClose 7 s2)))) 5 = 1"
  using edge_second_join_strands [where clk = "\<lparr>now_s = 1, now_ms = 2\<rparr>" and c = 7 and ctx = "new_ConnContext ''e-1''"
      and clk' = "\<lparr>now_s = 3, now_ms = 4\<rparr>",
      OF join_sample_facts(1) join_codec_req [of 5] join_codec_req [of 6] _ _ _ _ HOL.refl HOL.refl HOL.refl] join_sample_facts
  by (simp add: Let_def)

end
