(* ===== verification/Legacy_Lifecycle.thy ===== *)
theory Legacy_Lifecycle
  imports Edge_Server Ticker_Loops
begin

text \<open>
  The goroutines of \<open>_deprecated/\<close> and how they end: the sync engine (\<open>video_sync.go\<close>), the batches
  (\<open>broadcaster.go\<close>), the cleaning of the hot detector (\<open>hot.go\<close>), the consumer (\<open>consumer.go\<close>), and the start and
  close of the gateway (\<open>server.go\<close>).

  Three of them are loops of \<open>Ticker_Loops\<close>.
\<close>

section \<open>The loops of the code\<close>

definition engine_run :: "unit tick_event \<Rightarrow> edge_tables ticking \<Rightarrow> (sync_event list \<times> edge_tables ticking) option" where
  "engine_run = loop_do (\<lambda>_. sync_tick) (\<lambda>_ t. ([], t))"

definition cleanupLoop :: "int64 tick_event \<Rightarrow> HotDetector ticking \<Rightarrow> (unit list \<times> HotDetector ticking) option" where
  "cleanupLoop = loop_do (\<lambda>now h. ([], cleanup now h)) (\<lambda>_ h. ([], h))"

definition batch_loop ::
  "(store \<times> SessionManager) tick_event \<Rightarrow> EdgeBroadcaster ticking \<Rightarrow> ((nat \<times> bytes option) list \<times> EdgeBroadcaster ticking) option" where
  "batch_loop = loop_do (\<lambda>(st, m). flushAll st m) (\<lambda>(st, m). flushAll st m)"

definition engine_Start :: "edge_tables ticking \<Rightarrow> edge_tables ticking" where
  "engine_Start l = l\<lparr>tk_running := tk_running l + 1\<rparr>"

text \<open>\<open>Stop\<close> of the engine waits for its goroutines: it returns in the states where none is left.\<close>

definition engine_Stop :: "edge_tables ticking \<Rightarrow> edge_tables ticking option" where
  "engine_Stop l = close_stop l"

definition engine_Stop_returns :: "edge_tables ticking \<Rightarrow> bool" where
  "engine_Stop_returns l \<longleftrightarrow> tk_stop l = ClosedChan \<and> tk_running l = 0"

definition hot_Stop :: "HotDetector ticking \<Rightarrow> HotDetector ticking option" where
  "hot_Stop l = close_stop l"

definition batch_Stop :: "EdgeBroadcaster ticking \<Rightarrow> EdgeBroadcaster ticking option" where
  "batch_Stop l = close_stop l"

section \<open>What the loops keep\<close>

text \<open>A tick of the engine changes buffers only.\<close>

interpretation sync_loop: ticker_loop "\<lambda>_ :: unit. sync_tick" "\<lambda>_ t. ([], t)"
  "\<lambda>t :: edge_tables. e_sessions t = m \<and> e_rooms t = r \<and> length (e_store t) = n" for m r n
proof
  fix t :: edge_tables and w :: unit assume t: "e_sessions t = m \<and> e_rooms t = r \<and> length (e_store t) = n"
  obtain es t' where s: "sync_tick t = (es, t')" by fastforce
  from sync_tick_parts [OF s] sync_rooms_length t show "e_sessions (snd (sync_tick t)) = m \<and>
      e_rooms (snd (sync_tick t)) = r \<and> length (e_store (snd (sync_tick t))) = n" by (auto simp: s)
qed simp

text \<open>Cleaning keeps the detector a table, with its thresholds.\<close>

interpretation hot_loop: ticker_loop "\<lambda>now h. ([], cleanup now h)" "\<lambda>_ h. ([], h)"
  "\<lambda>h. keys_distinct (hd_rooms h) \<and> hotThreshold h = a \<and> warmThreshold h = b \<and> superThreshold h = c" for a b c
  by unfold_locales (auto simp: cleanup_def distinct_map_filter)

text \<open>A flush keeps the shards, and its settings.\<close>

interpretation flush_loop: ticker_loop "\<lambda>(st, m). flushAll st m" "\<lambda>(st, m). flushAll st m"
  "\<lambda>b. shards_ok b \<and> batchInterval b = iv \<and> maxPendingPerRoom b = mp" for iv mp
  by unfold_locales (auto simp: flushAll_def shards_ok_def)


section \<open>The batches of a broadcaster over its life\<close>

text \<open>
  Danmaku are posted while the goroutine ticks, sees the stop channel and is stopped; each flush has the sessions of
  its moment. \<open>None\<close>: an event that cannot occur, or a panic.
\<close>

datatype batcher_event = Posted Danmaku | InLoop "(store \<times> SessionManager) tick_event" | StopCalled

fun batcher_do :: "batcher_event \<Rightarrow> EdgeBroadcaster ticking \<Rightarrow> metrics \<Rightarrow> ((nat \<times> bytes option) list \<times> EdgeBroadcaster ticking \<times> metrics) option" where
  "batcher_do (Posted d) l mt =
    (case edge_BroadcastLocal (Some d) (tk_state l) mt of None \<Rightarrow> None | Some (b, mt) \<Rightarrow> Some ([], l\<lparr>tk_state := b\<rparr>, mt))"
| "batcher_do (InLoop ev) l mt = (case batch_loop ev l of None \<Rightarrow> None | Some (out, l) \<Rightarrow> Some (out, l, mt))"
| "batcher_do StopCalled l mt = (case batch_Stop l of None \<Rightarrow> None | Some l \<Rightarrow> Some ([], l, mt))"

fun batcher_run :: "batcher_event list \<Rightarrow> EdgeBroadcaster ticking \<Rightarrow> metrics \<Rightarrow> ((nat \<times> bytes option) list \<times> EdgeBroadcaster ticking \<times> metrics) option" where
  "batcher_run [] l mt = Some ([], l, mt)"
| "batcher_run (ev # evs) l mt =
    (case batcher_do ev l mt of
       None \<Rightarrow> None
     | Some (out, l, mt) \<Rightarrow> (case batcher_run evs l mt of None \<Rightarrow> None | Some (out', r) \<Rightarrow> Some (out @ out', r)))"

fun flush_view :: "batcher_event \<Rightarrow> (store \<times> SessionManager) option" where
  "flush_view (InLoop (TickAt w)) = Some w"
| "flush_view (InLoop (SeesStop w)) = Some w"
| "flush_view (InLoop GoLoop) = None"
| "flush_view (Posted d) = None"
| "flush_view StopCalled = None"

fun posted_to :: "int64 \<Rightarrow> batcher_event list \<Rightarrow> Danmaku list" where
  "posted_to \<rho> [] = []"
| "posted_to \<rho> (Posted d # evs) = (if d_RoomId d = \<rho> then d # posted_to \<rho> evs else posted_to \<rho> evs)"
| "posted_to \<rho> (InLoop ev # evs) = posted_to \<rho> evs"
| "posted_to \<rho> (StopCalled # evs) = posted_to \<rho> evs"

text \<open>No more than \<open>n\<close> danmaku of the room between two flushes, \<open>k\<close> of them before the first event.\<close>

fun within :: "int64 \<Rightarrow> nat \<Rightarrow> nat \<Rightarrow> batcher_event list \<Rightarrow> bool" where
  "within \<rho> n k [] = True"
| "within \<rho> n k (ev # evs) =
    (case ev of
       Posted d \<Rightarrow> if d_RoomId d = \<rho> then k < n \<and> within \<rho> n (k + 1) evs else within \<rho> n k evs
     | _ \<Rightarrow> within \<rho> n (if flush_view ev = None then k else 0) evs)"

definition stays_in :: "nat \<Rightarrow> int64 \<Rightarrow> string \<Rightarrow> batcher_event \<Rightarrow> bool" where
  "stays_in i \<rho> connId ev \<longleftrightarrow> (case flush_view ev of
     None \<Rightarrow> True
   | Some (st, m) \<Rightarrow> sm_ok st m \<and> i \<in> set (GetRoomSessions m \<rho>) \<and> us_ConnId (st ! i) = connId)"

lemma prepared_append [simp]: "prepared i (out @ out') = prepared i out @ prepared i out'"
  by (simp add: prepared_def)

lemma others_frames_append [simp]: "others_frames c (ds @ ds') = others_frames c ds @ others_frames c ds'"
  by (simp add: others_frames_def)

lemma waiting_flushed [simp]: "shards_ok b \<Longrightarrow> waiting (snd (flushAll st m b)) \<rho> = []"
  using shard_of_bounds [of \<rho>] by (simp add: waiting_def flushAll_def shards_ok_def nat_less_iff)

lemma suffix_newest: "\<exists>xs'. xs = xs' @ newest n xs"
  by (metis append_take_drop_id newest_def)

text \<open>One event: a flush empties the queue of the room and prepares it for the session, a post adds to it, nothing else touches it.\<close>

lemma batcher_event_cases:
  assumes ev: "batcher_do ev l mt = Some (out, l', mt')" and ok: "shards_ok (tk_state l)" "0 < batchInterval (tk_state l)"
    and i: "stays_in i \<rho> c ev"
  obtains (flush) "flush_view ev \<noteq> None" "prepared i out = others_frames c (waiting (tk_state l) \<rho>)" "waiting (tk_state l') \<rho> = []"
      "shards_ok (tk_state l')" "batchInterval (tk_state l') = batchInterval (tk_state l)"
      "maxPendingPerRoom (tk_state l') = maxPendingPerRoom (tk_state l)"
  | (post) d where "ev = Posted d" "out = []" "shards_ok (tk_state l')" "batchInterval (tk_state l') = batchInterval (tk_state l)"
      "maxPendingPerRoom (tk_state l') = maxPendingPerRoom (tk_state l)"
      "waiting (tk_state l') \<rho> = (if d_RoomId d = \<rho> then newest (nat (maxPendingPerRoom (tk_state l))) (waiting (tk_state l) \<rho> @ [d])
         else waiting (tk_state l) \<rho>)"
  | (other) "flush_view ev = None" "\<forall>d. ev \<noteq> Posted d" "out = []" "tk_state l' = tk_state l"
proof -
  have flush: thesis if "flush_view ev = Some (st, m)" "out = fst (flushAll st m (tk_state l))" "tk_state l' = snd (flushAll st m (tk_state l))" for st m
  proof (rule local.flush)
    show "prepared i out = others_frames c (waiting (tk_state l) \<rho>)"
      using prepared_flush [OF _ ok(1), of st m i \<rho>] i that(1,2) by (auto simp: stays_in_def)
    show "waiting (tk_state l') \<rho> = []" using ok(1) by (simp add: that(3))
    have "shards_ok (tk_state l') \<and> batchInterval (tk_state l') = batchInterval (tk_state l) \<and>
        maxPendingPerRoom (tk_state l') = maxPendingPerRoom (tk_state l)"
      using flush_loop.round_keeps [of "tk_state l" "batchInterval (tk_state l)" "maxPendingPerRoom (tk_state l)" "(st, m)"] ok(1)
      by (simp add: that(3))
    then show "shards_ok (tk_state l')" "batchInterval (tk_state l') = batchInterval (tk_state l)"
      "maxPendingPerRoom (tk_state l') = maxPendingPerRoom (tk_state l)" by simp_all
  qed (simp add: that(1))
  show thesis
  proof (cases ev)
    case (Posted d)
    then obtain b mt1 where b: "edge_BroadcastLocal (Some d) (tk_state l) mt = Some (b, mt1)" "out = []" "l' = l\<lparr>tk_state := b\<rparr>"
      using ev by (auto split: option.splits)
    from post_cases(2) [OF ok b(1), of \<rho>] Posted b(2,3) show thesis by (intro local.post [of d]) auto
  next
    case (InLoop tev)
    show thesis
    proof (cases tev)
      case GoLoop
      with ev InLoop show thesis by (intro other) (auto simp: batch_loop_def)
    next
      case (TickAt w)
      with ev InLoop show thesis
        by (intro flush [of "fst w" "snd w"]; cases w) (auto simp: batch_loop_def split: if_splits prod.splits)
    next
      case (SeesStop w)
      with ev InLoop show thesis
        by (intro flush [of "fst w" "snd w"]; cases w) (auto simp: batch_loop_def split: if_splits prod.splits)
    qed
  next
    case StopCalled
    with ev show thesis by (intro other) (auto simp: batch_Stop_def close_stop_def split: if_splits option.splits)
  qed
qed


lemma flush_skips:
  assumes "flush_view ev \<noteq> None"
  shows "posted_to \<rho> (ev # evs) = posted_to \<rho> evs" and "within \<rho> n k (ev # evs) = within \<rho> n 0 evs"
  using assms by (cases ev rule: flush_view.cases; simp)+

lemma other_skips:
  assumes "flush_view ev = None" and "\<forall>d. ev \<noteq> Posted d"
  shows "posted_to \<rho> (ev # evs) = posted_to \<rho> evs" and "within \<rho> n k (ev # evs) = within \<rho> n k evs"
  using assms by (cases ev rule: flush_view.cases; simp)+

lemma subseq_trans_append: "subseq (ds @ w) (newest n xs @ ys) \<Longrightarrow> subseq (ds @ w) (xs @ ys)"
  using suffix_newest [of xs n] by (metis append.assoc list_emb_append2 subseq_order.order_trans subseq_order.order_refl)

lemma batcher_run_accounts:
  assumes "batcher_run evs l mt = Some (out, l', mt')" and "shards_ok (tk_state l)" "0 < batchInterval (tk_state l)"
    and "\<forall>ev \<in> set evs. stays_in i \<rho> c ev" and "length (waiting (tk_state l) \<rho>) \<le> nat (maxPendingPerRoom (tk_state l))"
  shows "\<exists>ds. prepared i out = others_frames c ds \<and> subseq (ds @ waiting (tk_state l') \<rho>) (waiting (tk_state l) \<rho> @ posted_to \<rho> evs) \<and>
    (within \<rho> (nat (maxPendingPerRoom (tk_state l))) (length (waiting (tk_state l) \<rho>)) evs \<longrightarrow>
      ds @ waiting (tk_state l') \<rho> = waiting (tk_state l) \<rho> @ posted_to \<rho> evs)"
  using assms
proof (induction evs arbitrary: l mt out)
  case Nil
  then show ?case by (intro exI [of _ "[]"]) (simp add: prepared_def others_frames_def)
next
  case (Cons ev evs)
  let ?n = "nat (maxPendingPerRoom (tk_state l))" and ?w = "waiting (tk_state l) \<rho>"
  obtain out1 l1 mt1 out2 where e: "batcher_do ev l mt = Some (out1, l1, mt1)" and r: "batcher_run evs l1 mt1 = Some (out2, l', mt')"
    and out: "out = out1 @ out2" using Cons.prems(1) by (auto split: option.splits)
  have stays: "stays_in i \<rho> c ev" "\<forall>ev \<in> set evs. stays_in i \<rho> c ev" using Cons.prems(4) by simp_all
  from e Cons.prems(2,3) stays(1) show ?case
  proof (cases rule: batcher_event_cases)
    case flush
    from Cons.IH [OF r flush(4) _ stays(2)] flush(3,5,6) Cons.prems(3) obtain ds where
      ds: "prepared i out2 = others_frames c ds" "subseq (ds @ waiting (tk_state l') \<rho>) (posted_to \<rho> evs)"
        "within \<rho> ?n 0 evs \<longrightarrow> ds @ waiting (tk_state l') \<rho> = posted_to \<rho> evs" by auto
    with flush(2) show ?thesis
      by (intro exI [of _ "?w @ ds"]) (simp add: out subseq_append' flush_skips [OF flush(1)] del: within.simps)
  next
    case (post d)
    let ?w1 = "waiting (tk_state l1) \<rho>"
    have "length ?w1 \<le> nat (maxPendingPerRoom (tk_state l1))" using post(5,6) Cons.prems(5) by (auto simp: newest_def)
    from Cons.IH [OF r post(3) _ stays(2) this] post(4,5) Cons.prems(3) obtain ds where
      ds: "prepared i out2 = others_frames c ds" "subseq (ds @ waiting (tk_state l') \<rho>) (?w1 @ posted_to \<rho> evs)"
        "within \<rho> ?n (length ?w1) evs \<longrightarrow> ds @ waiting (tk_state l') \<rho> = ?w1 @ posted_to \<rho> evs" by auto
    show ?thesis
    proof (cases "d_RoomId d = \<rho>")
      case True
      then have w1: "?w1 = newest ?n (?w @ [d])" using post(6) by simp
      have "subseq (ds @ waiting (tk_state l') \<rho>) ((?w @ [d]) @ posted_to \<rho> evs)"
        using ds(2) unfolding w1 by (rule subseq_trans_append)
      moreover have "?w1 = ?w @ [d]" if "length ?w < ?n" using w1 that by (simp add: newest_def)
      ultimately show ?thesis using ds(1,3) True by (intro exI [of _ ds]) (auto simp: out post(1,2))
    next
      case False
      with ds post(6) show ?thesis by (intro exI [of _ ds]) (simp add: out post(1,2))
    qed
  next
    case other
    from Cons.IH [OF r _ _ stays(2)] other(4) Cons.prems(2,3,5) obtain ds where
      ds: "prepared i out2 = others_frames c ds" "subseq (ds @ waiting (tk_state l') \<rho>) (?w @ posted_to \<rho> evs)"
        "within \<rho> ?n (length ?w) evs \<longrightarrow> ds @ waiting (tk_state l') \<rho> = ?w @ posted_to \<rho> evs" by auto
    then show ?thesis by (intro exI [of _ ds]) (simp add: out other(3) other_skips [OF other(1,2)] del: within.simps)
  qed
qed


lemma batcher_end_flushed:
  assumes "batcher_run (evs @ [InLoop (SeesStop w)]) l mt = Some (out, l', mt')" and "shards_ok (tk_state l)" "0 < batchInterval (tk_state l)"
  shows "waiting (tk_state l') \<rho> = []"
  using assms
proof (induction evs arbitrary: l mt out)
  case Nil
  then show ?case by (auto simp: batch_loop_def case_prod_unfold split: if_splits)
next
  case (Cons ev evs)
  then obtain out1 l1 mt1 out2 where e: "batcher_do ev l mt = Some (out1, l1, mt1)"
    and r: "batcher_run (evs @ [InLoop (SeesStop w)]) l1 mt1 = Some (out2, l', mt')" by (auto split: option.splits)
  have "shards_ok (tk_state l1) \<and> batchInterval (tk_state l1) = batchInterval (tk_state l)"
  proof (cases ev)
    case (Posted d)
    with e post_cases(2) [OF Cons.prems(2,3)] show ?thesis by (auto split: option.splits)
  next
    case (InLoop tev)
    with e flush_loop.do_keeps [of tev l _ l1 "batchInterval (tk_state l)" "maxPendingPerRoom (tk_state l)"] Cons.prems(2)
    show ?thesis by (auto simp: batch_loop_def split: option.splits)
  next
    case StopCalled
    with e Cons.prems(2) show ?thesis by (auto simp: batch_Stop_def close_stop_def split: if_splits option.splits)
  qed
  with Cons.IH [OF r] Cons.prems(3) show ?case by simp
qed

section \<open>Properties\<close>


definition batch_life :: "batcher_event list" where
  "batch_life = [InLoop GoLoop, Posted (NewDanmaku 1 5 8 ''b'' 0 [1] False),
     InLoop (TickAt (e_store edge_sample, e_sessions edge_sample)), Posted (NewDanmaku 2 5 8 ''b'' 0 [2] False), StopCalled,
     InLoop (SeesStop (e_store edge_sample, e_sessions edge_sample))]"



section \<open>The consumer of an edge node\<close>

text \<open>
  \<open>ec_ctx\<close>: no context before \<open>Start\<close>, then whether it is cancelled. \<open>ec_reader\<close>: whether the reader of the library is
  open. \<open>ec_loops\<close>: the goroutines in \<open>consumeLoop\<close>.
\<close>

record edge_consumer =
  ec_groupId :: string
  ec_ctx :: "bool option"
  ec_reader :: bool
  ec_loops :: nat

definition edge_NewConsumer :: "string \<Rightarrow> edge_consumer" where
  "edge_NewConsumer nodeId = \<lparr>ec_groupId = NewConsumer_groupId nodeId, ec_ctx = None, ec_reader = True, ec_loops = 0\<rparr>"

definition consumer_Start :: "edge_consumer \<Rightarrow> edge_consumer" where
  "consumer_Start c = c\<lparr>ec_ctx := Some False, ec_loops := ec_loops c + 1\<rparr>"

text \<open>
  A round of the loop: the context is looked at, then the reader is asked, then, after an error, the context again.
  \<open>cancelled\<close>: whether \<open>Stop\<close> comes while the reader is asked; \<open>None\<close> where no loop runs.
\<close>

definition consumeLoop ::
  "int64 \<Rightarrow> edge_codec \<Rightarrow> bytes option \<Rightarrow> bool \<Rightarrow> edge_consumer \<Rightarrow> edge_tables \<Rightarrow> (bytes option \<times> edge_consumer \<times> edge_tables) option" where
  "consumeLoop now cdc fetched cancelled c t =
    (case ec_ctx c of
       None \<Rightarrow> None
     | Some ended \<Rightarrow>
       if ec_loops c = 0 then None
       else case consume_round now cdc ended fetched (ended \<or> cancelled) t of
              LoopReturns \<Rightarrow> Some (None, c\<lparr>ec_loops := ec_loops c - 1\<rparr>, t)
            | LoopGoesOn t' committed \<Rightarrow> Some (committed, c, t'))"

definition consumer_Stop :: "edge_consumer \<Rightarrow> edge_consumer" where
  "consumer_Stop c = c\<lparr>ec_ctx := map_option (\<lambda>_. True) (ec_ctx c), ec_reader := False\<rparr>"

text \<open>After \<open>Stop\<close> every loop returns at its next round, with nothing read, whatever the reader would give.\<close>

lemma consumer_stopped:
  assumes "consumeLoop now cdc fetched cancelled (consumer_Stop c) t = Some (m, c', t')"
  shows "m = None \<and> t' = t \<and> ec_loops c = Suc (ec_loops c')"
  using assms by (auto simp: consumeLoop_def consumer_Stop_def consume_round_def split: option.splits if_splits)

text \<open>A round commits exactly what it read.\<close>

lemma consumer_commits:
  assumes "consumeLoop now cdc (Some msg) cancelled c t = Some (m, c', t')" and "ec_ctx c = Some False"
  shows "m = Some msg \<and> c' = c \<and> t' = handleMessage now cdc msg t"
  using assms by (auto simp: consumeLoop_def consume_round_def split: if_splits)

section \<open>The edge server's shutdown\<close>

definition es_OnShutdown :: "EdgeServer \<Rightarrow> EdgeServer option" where
  "es_OnShutdown s = es_Stop s"

text \<open>A server that was started and stopped panics when gnet then shuts down: gnet's callback stops it again.\<close>

lemma edge_shutdown_after_stop:
  assumes "es_Start s = (b, s1)" and "es_Stop s1 = Some s2"
  shows "es_OnShutdown s2 = None"
  using assms by (auto simp: es_Start_def es_Stop_def es_OnShutdown_def Let_def split: if_splits option.splits)

section \<open>The gateway as a process\<close>

record gateway_process =
  gp_gateway :: Gateway
  gp_ctx_done :: bool
  gp_http :: server_state
  gp_writer :: bool
  gp_stopCh :: channel
  gp_cleaners :: nat

text \<open>The detector of the gateway with its channel and goroutines, as the loop of \<open>cleanupLoop\<close>.\<close>

definition detector_of :: "gateway_process \<Rightarrow> HotDetector ticking" where
  "detector_of p = \<lparr>tk_state = gw_hot (gp_gateway p), tk_stop = gp_stopCh p, tk_running = gp_cleaners p\<rparr>"

definition with_detector :: "HotDetector ticking \<Rightarrow> gateway_process \<Rightarrow> gateway_process" where
  "with_detector l p =
    p\<lparr>gp_gateway := (gp_gateway p)\<lparr>gw_hot := tk_state l\<rparr>, gp_stopCh := tk_stop l, gp_cleaners := tk_running l\<rparr>"

definition gateway_cleans :: "int64 tick_event \<Rightarrow> gateway_process \<Rightarrow> gateway_process option" where
  "gateway_cleans ev p = map_option (\<lambda>(_, l). with_detector l p) (cleanupLoop ev (detector_of p))"

text \<open>\<open>NewGateway\<close> with what it starts: the goroutine of the detector and the HTTP server.\<close>

definition startHTTPServer :: "string \<Rightarrow> int \<Rightarrow> gateway_process \<Rightarrow> gateway_process" where
  "startHTTPServer addr port p = p\<lparr>gp_http := Listening (addr @ '':'' @ FormatInt port)\<rparr>"

definition new_gateway_process :: "string \<Rightarrow> int \<Rightarrow> string \<Rightarrow> gateway_process" where
  "new_gateway_process addr port filterPath =
    startHTTPServer addr port
      \<lparr>gp_gateway = NewGateway filterPath, gp_ctx_done = False, gp_http = NoServer, gp_writer = True,
       gp_stopCh = OpenChan, gp_cleaners = 1\<rparr>"

text \<open>\<open>gateway_Close\<close> panics (\<open>None\<close>) in its last step where the detector's channel is closed already.\<close>

definition gateway_Close :: "gateway_process \<Rightarrow> gateway_process option" where
  "gateway_Close p =
    (let p = p\<lparr>gp_ctx_done := True, gp_http := (case gp_http p of NoServer \<Rightarrow> NoServer | _ \<Rightarrow> ServerClosed), gp_writer := False\<rparr>
     in map_option (\<lambda>l. with_detector l p) (hot_Stop (detector_of p)))"

text \<open>A new gateway closes once; closing it again, with any cleaning in between, panics.\<close>

lemma gateway_closes_once:
  assumes "gateway_Close (new_gateway_process addr port path) = Some p" and "p' = p \<or> gateway_cleans ev p = Some p'"
  shows "gp_http p' = ServerClosed \<and> \<not> gp_writer p' \<and> gateway_Close p' = None"
  using assms
  by (cases ev) (auto simp: gateway_Close_def new_gateway_process_def startHTTPServer_def hot_Stop_def close_stop_def Let_def
      detector_of_def with_detector_def gateway_cleans_def cleanupLoop_def split: if_splits)

text \<open>Cleaning the detector leaves the other parts of the gateway as they are.\<close>

lemma cleaning_keeps_gateway:
  "gateway_cleans ev p = Some p' \<Longrightarrow> gw_sampler (gp_gateway p') = gw_sampler (gp_gateway p) \<and>
    gw_filter (gp_gateway p') = gw_filter (gp_gateway p) \<and> gw_router (gp_gateway p') = gw_router (gp_gateway p)"
  by (auto simp: gateway_cleans_def with_detector_def)

end
