(* ===== verification/Spec2Isabelle.thy ===== *)
theory Spec2Isabelle
  imports Node_Background App_Lifecycle Cluster_Delivery Wire_Getters Legacy_Lifecycle
begin

text \<open>
  A verification of \<open>barrage\<close>, a danmaku (live comment) server written in Go.

  A node (\<open>cmd/barrage\<close>, \<open>internal/\<close>) holds WebSocket connections on the event loops of gnet. A connection shakes
  hands, its frames become tasks of a worker pool, a task decodes a protobuf message and joins a room, sends a chat or a
  heartbeat. A chat that passes the limits and the word filter is published to Kafka, or broadcast at once where there
  is no Kafka; the consumer of every node broadcasts what it reads to its own members of the room. Background
  ticks close silent connections and drop idle rooms. \<open>_deprecated/\<close> holds an earlier design that the repository still
  contains: an HTTP gateway that checks danmaku and writes them to Kafka, and edge nodes that buffer danmaku until
  the video of the viewer reaches them.

  \<^bold>\<open>Parts, theories and sources\<close>

  \<^item> \<open>Barrage_Prelude\<close>, \<open>Go_Strings\<close>, \<open>Go_Scan\<close>: Go's integers as words, byte slices and strings, maps that are
    iterated over as association lists, big-endian and decimal numbers, the functions of \<open>strings\<close> and \<open>fmt\<close> the
    program calls; facts about lists and words the components share.
  \<^item> \<open>Ws_Frame\<close> (\<open>protocol/ws/frame.go\<close>), \<open>Ws_Decode\<close> and \<open>Ws_Handshake\<close> (\<open>server/websocket.go\<close>): frames out, frames in, the
    upgrade with SHA-1 and base64.
  \<^item> \<open>Conn_Context\<close> (\<open>connctx/context.go\<close>, \<open>dispatcher/message_dispatcher.go\<close>), \<open>Wire_Messages\<close> (\<open>pb/barrage.pb.go\<close>,
    \<open>mq/model.go\<close>, \<open>metrics/metrics.go\<close>): the data. A connection is a number, its context an entry of a map, so that
    sharing a pointer is naming the connection.
  \<^item> \<open>Room_Manager\<close> (\<open>room/manager.go\<close>), \<open>Text_Filter\<close> (\<open>filter/\<close>), \<open>Loop_Routing\<close> (\<open>app/conn_id.go\<close>,
    \<open>app/loop_registry.go\<close>, \<open>app/loop_dispatcher.go\<close>), \<open>Admission\<close> (the limits of \<open>app/app.go\<close>), \<open>Broadcaster\<close>
    (\<open>broadcast/broadcaster.go\<close>), \<open>Kafka_Producer\<close> and \<open>Kafka_Consumer\<close> (\<open>mq/\<close>): the components, one record and one
    definition per operation each.
  \<^item> \<open>App_Core\<close> (\<open>config/config.go\<close> and the handlers, kicks and ticks of \<open>app/app.go\<close>), \<open>Event_Handler\<close>
    (\<open>server/event_handler.go\<close>, and the node as the step relation \<open>sys_step\<close>), \<open>Node_Traffic\<close> (a connection read to its
    end), \<open>Node_Events\<close> (the node as a program over events, \<open>node_do\<close>, with exactly the steps of \<open>sys_step\<close>),
    \<open>Node_Rooms\<close> (who is in the rooms of a node), \<open>Node_Silence\<close> (whom the heartbeat check closes), \<open>Node_Background\<close>
    (the goroutines of the heartbeat check, the room cleaner and the word list): the node.
  \<^item> \<open>Ticker_Loops\<close>: a goroutine with a ticker and a channel that ends it, as the node and the edge node have them.
  \<^item> \<open>Cluster\<close>: nodes behind one Kafka topic, that start when they like, with their consumers' positions in its partitions
    and the broadcasts their worker pools still have to run (the callback that \<open>New\<close> of \<open>app/app.go\<close> gives the consumer).
    \<open>Cluster_Delivery\<close>: every node of it is a node of \<open>Node_Rooms\<close>, and the run that carries a chat to everybody in
    its room.
  \<^item> \<open>Service_Registry\<close> (\<open>registry/service.go\<close>), \<open>Metrics_Server\<close> (\<open>app/metrics_server.go\<close>), \<open>App_Lifecycle\<close> (the rest
    of \<open>app/app.go\<close>, \<open>worker/pool.go\<close>, \<open>cmd/barrage/main.go\<close>): what a process has around the node.
  \<^item> \<open>Wire_Getters\<close>: the accessors of \<open>pb/barrage.pb.go\<close>.
  \<^item> \<open>Hot_Levels\<close> (\<open>common/constant.go\<close>, the levels of \<open>common/types.go\<close>), \<open>Gateway_Router\<close>, \<open>Gateway_Hot\<close>,
    \<open>Gateway_Server\<close> (\<open>_deprecated/gateway/\<close>): the gateway.
  \<^item> \<open>Edge_Session\<close> (\<open>session.go\<close>, \<open>room_map.go\<close>, the session of \<open>common/types.go\<close>), \<open>Edge_Sync\<close> (\<open>video_sync.go\<close>,
    \<open>consumer.go\<close>), \<open>Edge_Broadcast\<close> (\<open>broadcaster.go\<close>), \<open>Edge_Server\<close> (\<open>server.go\<close>, all of \<open>_deprecated/edge/\<close>): the
    edge node. Sessions shared by pointer are places in a store.
  \<^item> \<open>Legacy_Lifecycle\<close>: the goroutines of \<open>_deprecated/\<close> with their starts and stops, and the gateway and the edge
    consumer as processes.

  Definitions have the names of the code; where two components share a name one of them has a prefix (\<open>static_\<close>,
  \<open>consul_\<close>, \<open>etcd_\<close>, \<open>rm_\<close>, \<open>es_\<close>, \<open>edge_\<close>). An operation takes the state and returns it updated. Errors are \<open>Inl\<close> or
  a value of a sum, a panic is \<open>None\<close> or a constructor of its own. What the code asks of the world (clock, random
  draws, hostname, files, the answers of gnet, Kafka, Consul, Etcd, the protobuf and JSON libraries) is an argument; the
  network actions and Kafka messages it causes are results, in order. A section under a lock is one step; goroutines
  interleave as the steps of an inductive relation or of a list of events.

  \<^bold>\<open>What the lemmas show\<close>

  \<^item> Frames: what the server writes is read back by a client written from RFC 6455; what clients send is decoded, in
    whatever pieces it arrives, with the bounds the code promises; the loop ends. The locale \<open>stream_reader\<close> of
    \<open>Node_Traffic\<close> is what a caller needs of a decoder to be called once per read.
  \<^item> Rooms: the buckets, shards, counts and bitmaps of the manager refine a map of memberships, under every
    sequence of joins, leaves and cleaner ticks (the locale \<open>room_store\<close> is the contract of such a store); broadcasts
    reach exactly the members the code means to reach. The locale \<open>text_filter\<close> is the contract of a filter.
  \<^item> Admission: the limits refine a counter per user and a token bucket per user; joins and chats are admitted by exactly
    the rules of the code, in its order.
  \<^item> The node: the invariant \<open>conn_inv\<close> of \<open>sys_step\<close> ties the connection count and table to the open connections, under any
    interleaving. \<open>place_inv\<close> ties the rooms to the contexts of the open connections, under any events: a broadcast finds
    everybody who joined. \<open>exact_inv\<close> is the converse, nobody else is in a room and the count of every user is right; it
    holds on runs where no connection joins twice or after its close (\<open>orderly\<close>), and \<open>rejoin_strands\<close> and
    \<open>late_join_strands\<close> show that it is lost for good where one does.
  \<^item> Silence: \<open>watched\<close> ties the table of the heartbeat check to the history of the open connections, so that a tick is
    known to close exactly who was last read from more than 90 seconds ago.
  \<^item> The cluster: \<open>origin_ok\<close> traces every record and every waiting envelope to an accepted chat or an announcement;
    \<open>order_ok\<close> says that what a node hands to its pool is what its consumer's position covers of each partition. From
    them: broadcasts are authentic, all nodes see a room in one order, a late node broadcasts the past, and every
    accepted chat can reach everybody in its room on every node.
  \<^item> Kafka: order, keys and retries of what is written and read; the shutdown as a step relation.
  \<^item> Registry: the locale \<open>registration\<close> is the contract of a registry, and what Etcd as a store makes of it; what a
    registrar leaves behind.
  \<^item> Gateway: what reaches Kafka; what the sampler and the detector compute; what the router loses.
  \<^item> Goroutines that end by a channel: the locale \<open>ticker_loop\<close> is the contract of a loop with a round and a last round;
    what it keeps, that an ended loop is silent, that a stopped one can end and another cannot. The background of a node
    is three of them, none of which \<open>main\<close> can stop; those of \<open>_deprecated/\<close> are three more. The batches of
    a broadcaster are accounted for over its whole life.
  \<^item> Edge node: the tables of sessions agree (\<open>sm_ok\<close>, \<open>rm_ok\<close>); every danmaku is accounted for; what a tick releases; what a
    flush prepares; joins and leaves; bytes are treated as on a node.

  \<^bold>\<open>Bounds\<close>

  The node's invariant needs fewer than 2^64 connection ids and a limit below 2^62; counts of rooms are exact below 2^31
  members, as the code's \<open>int32\<close> makes them, so the theorems on rooms are for nodes that issued fewer than 2^31 ids, with
  a limit of connections per user below 2^62 and no more event loops than \<open>New\<close> was given processors (\<open>new_app\<close>). \<open>decode_within\<close> is the decoding loop with a number of rounds: one per six
  bytes and one more suffice, since the shortest masked frame has six. Everything else is total by structure or by a
  termination proof. Sample rates are percentages: the code only compares hundredths with them.

  \<^bold>\<open>Not modelled\<close>

  The wire format of protobuf and the JSON decoder (libraries), \<open>net/http\<close>, gnet, ants, the Kafka, Consul and Etcd clients
  (libraries: parameters where the code uses their answers; \<open>Cluster\<close> adds what Kafka documents of partitions and
  consumer groups), the generated reflection code of \<open>barrage.pb.go\<close>, the methods of \<open>worker/pool.go\<close> that only call ants, the
  closing of Kafka writers, log lines, \<open>hostname\<close>, and the tests. Nodes of a cluster start and do not stop. The
  types \<open>RoomInfo\<close> and \<open>EdgeInfo\<close> of \<open>common/types.go\<close> are used nowhere; those of the edge and gateway packages are modelled.
  The writes of the edge broadcaster stand in comments in the source; the model returns what they would take.
\<close>

section \<open>From node to node\<close>

text \<open>
  C7: a chat crosses from node to node. On a node with Kafka, an admitted chat that the filter passes writes one
  record, the encoded envelope under the key of its room, and nothing else. The consumer of a node that reads the
  record hands the same envelope on, and broadcasting it there writes the chat's frame once to each place in the
  room of every connection whose verdict is to deliver. Since connection ids count from one on every node, a member
  there whose id happens to be the sender's takes the chat for its own echo and does not get it.
\<close>

theorem chat_crosses_nodes:
  assumes "nctx n c = Some ctx" and "ConnID ctx \<noteq> ''''" and "0 < length data" "length data \<le> 64 * 1024"
    and "Unmarshal_Frame cdc data = Some frame" and "f_Op frame = OpType_OP_CHAT"
    and "Unmarshal_ChatMsg cdc (f_Payload frame) = Some msg" and "chat_admitted env (napp n) ctx"
    and "\<forall>w \<in> set (reloadable_vocabulary (TextFilter (napp n))). w = '''' \<or> \<not> sublist w (chat_Content msg)"
    and "Marshal_Frame cdc (chat_frame env ctx (f_Payload frame)) = (out, None)"
    and "AppProducer (napp n) = Some p"
    and "Marshal_Envelope cdc (chat_envelope env ctx out) = (v, None)"
    and "Unmarshal_Envelope cdc v = Some (chat_envelope env ctx out)"
    and "stopCh cons \<noteq> ClosedChan" and "handle cons" and "wf_manager m"
  shows "fst (HandleInbound env cdc (Some \<lparr>task_Conn = c, task_Data = data\<rparr>) n) =
      [Kafka (WriteMessages (bytes_of_string (FormatInt (sint (RoomID ctx)))) v)] \<and>
    fst (snd (loop_body cdc False \<lparr>msg_Value = Some v, read_err = None\<rparr> cons mt)) = [chat_envelope env ctx out] \<and>
    (\<forall>d. written_to d (fst (BroadcastLocal ctxs ob (Some \<lparr>Rooms = Some m\<rparr>) (Some (chat_envelope env ctx out)) mt)) =
      (if verdict ctxs ob (chat_envelope env ctx out) d = Deliver
       then replicate (card {k. members m (RoomID ctx) k = Some d}) (BuildBinaryFrame out) else [])) \<and>
    (\<forall>d. map_option ConnID (ctxs d) = Some (ConnID ctx) \<longrightarrow>
      written_to d (fst (BroadcastLocal ctxs ob (Some \<lparr>Rooms = Some m\<rparr>) (Some (chat_envelope env ctx out)) mt)) = [])"
proof -
  let ?e = "chat_envelope env ctx out"
  have e: "e_RoomId ?e = RoomID ctx" "e_Payload ?e = out" "e_MsgType ?e = MsgTypeDanmaku" "e_SenderConnId ?e = ConnID ctx"
    by (simp_all add: chat_envelope_def MsgTypeDanmaku_def)
  have "HandleInbound env cdc (Some \<lparr>task_Conn = c, task_Data = data\<rparr>) n = handleChat env cdc c ctx frame n"
    using assms(1-6) by (simp add: HandleInbound_def OpType_defs)
  moreover have "\<not> Hit (reloadable_Check (TextFilter (napp n)) (chat_Content msg))"
    using assms(9) by (auto simp: reloadable_filter.hit_iff)
  moreover have "snd (Publish cdc (KafkaAnswer env) (now_nano env) (Some p) (Some ?e)) =
      [WriteMessages (bytes_of_string (FormatInt (sint (RoomID ctx)))) v]"
    using assms(12) by (simp add: Publish_def EncodeBroadcastEnvelope_def e)
  ultimately have "fst (HandleInbound env cdc (Some \<lparr>task_Conn = c, task_Data = data\<rparr>) n) =
      [Kafka (WriteMessages (bytes_of_string (FormatInt (sint (RoomID ctx)))) v)]"
    using handleChat_admitted [OF assms(8,7)] assms(10,11) by (auto simp: Let_def split: prod.splits option.splits)
  moreover have "fst (snd (loop_body cdc False \<lparr>msg_Value = Some v, read_err = None\<rparr> cons mt)) = [?e]"
    using assms(13-15) by (simp add: loop_body_def processMessage_def DecodeBroadcastEnvelope_def Let_def)
  moreover have "verdict ctxs ob ?e d \<noteq> Deliver" if "map_option ConnID (ctxs d) = Some (ConnID ctx)" for d
    using that assms(2) by (auto simp: verdict_def e split: if_splits)
  ultimately show ?thesis using BroadcastLocal_written [OF assms(16)] by (auto simp: e)
qed

theorem chat_crosses_nodes_witness:
  "let cdc = null_codec\<lparr>Unmarshal_Frame := \<lambda>_. Some (frame_of 2), Unmarshal_ChatMsg := \<lambda>_. Some \<lparr>chat_Content = ''hi''\<rparr>,
       Marshal_Frame := \<lambda>_. ([1, 2, 3], None), Marshal_Envelope := \<lambda>_. ([9], None),
       Unmarshal_Envelope := \<lambda>_. Some (chat_envelope sample_env ((new_ConnContext ''1'')\<lparr>UserID := 42, RoomID := 5\<rparr>) [1, 2, 3])\<rparr>;
     sends = fst (HandleInbound sample_env cdc (Some \<lparr>task_Conn = 7, task_Data = [1]\<rparr>)
       (chat_node\<lparr>napp := (napp chat_node)\<lparr>AppProducer := Some (NewProducer ''t'')\<rparr>\<rparr>));
     got = fst (snd (loop_body cdc False \<lparr>msg_Value = Some [9], read_err = None\<rparr> (NewConsumer True) no_metrics));
     acts = fst (BroadcastLocal [7 \<mapsto> new_ConnContext ''1'', 8 \<mapsto> new_ConnContext ''2''] (\<lambda>_. 0)
       (Some \<lparr>Rooms = Some (RoomManager (napp chat_node))\<rparr>) (Some (hd got)) no_metrics)
   in sends = [Kafka (WriteMessages (bytes_of_string (FormatInt 5)) [9])] \<and> length got = 1 \<and>
     written_to 7 acts = [] \<and> written_to 8 acts = [[0x82, 3, 1, 2, 3]]"
proof -
  let ?ctx = "(new_ConnContext ''1'')\<lparr>UserID := 42, RoomID := 5\<rparr>"
  let ?e = "chat_envelope sample_env ?ctx [1, 2, 3]"
  let ?cdc = "null_codec\<lparr>Unmarshal_Frame := \<lambda>_. Some (frame_of 2), Unmarshal_ChatMsg := \<lambda>_. Some \<lparr>chat_Content = ''hi''\<rparr>,
       Marshal_Frame := \<lambda>_. ([1, 2, 3], None), Marshal_Envelope := \<lambda>_. ([9], None), Unmarshal_Envelope := \<lambda>_. Some ?e\<rparr>"
  let ?n = "chat_node\<lparr>napp := (napp chat_node)\<lparr>AppProducer := Some (NewProducer ''t'')\<rparr>\<rparr>"
  let ?ctxs = "[7 \<mapsto> new_ConnContext ''1'', 8 \<mapsto> new_ConnContext ''2'']"
  have p: "nctx ?n 7 = Some ?ctx" "ConnID ?ctx \<noteq> ''''" "0 < length [1 :: byte]" "length [1 :: byte] \<le> 64 * 1024"
    "Unmarshal_Frame ?cdc [1] = Some (frame_of 2)" "f_Op (frame_of 2) = OpType_OP_CHAT"
    "Unmarshal_ChatMsg ?cdc (f_Payload (frame_of 2)) = Some \<lparr>chat_Content = ''hi''\<rparr>"
    by (simp_all add: chat_node_def frame_of_def OpType_OP_CHAT_def new_ConnContext_def)
  have lim: "AppLimiter (napp ?n) = Some (NewRateLimiter 10 20)" "AppProducer (napp ?n) = Some (NewProducer ''t'')"
    "TextFilter (napp ?n) = Some (NewReloadableFilter ''configs/sensitive_words.txt'' defaultSensitiveWords)"
    by (simp_all add: chat_node_def sample_app_def New_def NewManager_def Let_def Load_def LoadNow_def loadLocked_def
        NewReloadableFilter_def)
  have adm: "chat_admitted sample_env (napp ?n) ?ctx"
    unfolding chat_admitted_def lim by (simp add: Allow_def NewRateLimiter_def new_ConnContext_def)
  have clean: "\<forall>w \<in> set (reloadable_vocabulary (TextFilter (napp ?n))). w = '''' \<or> \<not> sublist w (chat_Content \<lparr>chat_Content = ''hi''\<rparr>)"
  proof
    fix w assume "w \<in> set (reloadable_vocabulary (TextFilter (napp ?n)))"
    then have "w \<in> set defaultSensitiveWords"
      unfolding lim by (simp add: reloadable_vocabulary_def simple_vocabulary_def NewReloadableFilter_def NewSimpleFilter_def)
    then have "2 < length w" by (auto simp: defaultSensitiveWords_def utf8_def)
    then show "w = '''' \<or> \<not> sublist w (chat_Content \<lparr>chat_Content = ''hi''\<rparr>)"
      using sublist_length_le [of w "''hi''"] by auto
  qed
  have enc: "Marshal_Frame ?cdc (chat_frame sample_env ?ctx (f_Payload (frame_of 2))) = ([1, 2, 3], None)"
    "Marshal_Envelope ?cdc ?e = ([9], None)" "Unmarshal_Envelope ?cdc [9] = Some ?e"
    "stopCh (NewConsumer True) \<noteq> ClosedChan" "handle (NewConsumer True)"
    by (simp_all add: NewConsumer_def)
  note crosses = chat_crosses_nodes [OF p adm clean enc(1) lim(2) enc(2-5) chat_node_rooms(1),
      of no_metrics ?ctxs "\<lambda>_. 0"]
  have v: "verdict ?ctxs (\<lambda>_. 0) ?e 8 = Deliver"
    by (simp add: verdict_def chat_envelope_def new_ConnContext_def)
  have mem: "{k. members (RoomManager (napp chat_node)) (RoomID ?ctx) k = Some 8} = {(1, ''2'')}"
    by (auto simp: chat_node_rooms new_ConnContext_def split: if_splits)
  have f: "BuildBinaryFrame [1, 2, 3] = [0x82, 3, 1, 2, 3]"
    by (simp add: BuildBinaryFrame_def buildServerFrame_def OpBinary_def Let_def)
  have got: "fst (snd (loop_body ?cdc False \<lparr>msg_Value = Some [9], read_err = None\<rparr> (NewConsumer True) no_metrics)) = [?e]"
    by (rule crosses [THEN conjunct2, THEN conjunct1])
  have "written_to 8 (fst (BroadcastLocal ?ctxs (\<lambda>_. 0) (Some \<lparr>Rooms = Some (RoomManager (napp chat_node))\<rparr>) (Some ?e) no_metrics)) =
      [[0x82, 3, 1, 2, 3]]"
    using crosses [THEN conjunct2, THEN conjunct2, THEN conjunct1, THEN spec [of _ 8]]
    unfolding v mem by (simp add: f)
  moreover have "written_to 7 (fst (BroadcastLocal ?ctxs (\<lambda>_. 0) (Some \<lparr>Rooms = Some (RoomManager (napp chat_node))\<rparr>) (Some ?e) no_metrics)) = []"
    using crosses [THEN conjunct2, THEN conjunct2, THEN conjunct2, THEN spec [of _ 7]] by (simp add: new_ConnContext_def)
  moreover have "fst (HandleInbound sample_env ?cdc (Some \<lparr>task_Conn = 7, task_Data = [1]\<rparr>) ?n) =
      [Kafka (WriteMessages (bytes_of_string (FormatInt 5)) [9])]"
    using crosses [THEN conjunct1] by (simp add: new_ConnContext_def)
  ultimately show ?thesis unfolding Let_def got by simp
qed

section \<open>From gateway to edge\<close>

lemma arrivals_messages:
  "arrivals cdc m r (map (Fetched now) vs) =
    concat (map (\<lambda>v. case Unmarshal_Envelope cdc v of None \<Rightarrow> []
      | Some e \<Rightarrow> if r \<in> set (GetRoomSessions m (e_RoomId e)) then [danmaku_of e] else []) vs)"
  by (induction vs) auto

text \<open>The envelope the gateway makes of a request.\<close>

definition envelope_for :: "edge_codec \<Rightarrow> gw_env \<Rightarrow> PublishDanmakuRequest \<Rightarrow> BroadcastEnvelope" where
  "envelope_for cdc ev req =
    request_envelope (gw_now ev) req (fst (Marshal_ChatMsg cdc \<lparr>chat_Content = req_Content req\<rparr>))"


definition feed_codec :: edge_codec where
  "feed_codec =
    gateway_codec.extend
      (codec.extend (null_codec\<lparr>Marshal_Envelope := \<lambda>e. (e_Payload e, None),
          Unmarshal_Envelope := \<lambda>b. Some (empty_envelope\<lparr>e_RoomId := 5, e_UserId := 7, e_Payload := b, e_Timestamp := 10\<rparr>)\<rparr>)
        (gateway_codec.fields (\<lambda>m. (bytes_of_string (chat_Content m), None)) (\<lambda>m. ([], None)) (\<lambda>u. ([], None))))
      (edge_codec.fields (\<lambda>b. None))"

lemma feed_codec_facts [simp]:
  "Marshal_Envelope feed_codec e = (e_Payload e, None)"
  "Unmarshal_Envelope feed_codec b = Some (empty_envelope\<lparr>e_RoomId := 5, e_UserId := 7, e_Payload := b, e_Timestamp := 10\<rparr>)"
  "Marshal_ChatMsg feed_codec m = (bytes_of_string (chat_Content m), None)"
  by (simp_all add: feed_codec_def gateway_codec.defs codec.defs edge_codec.defs)


end
